(* ===== verification/EK_Prelude.thy ===== *)
theory EK_Prelude
  imports Main "HOL-Library.Word"
begin

text \<open>
  Shared vocabulary of the Emergence Kernel development: machine word synonyms, the page
  constants of \<^verbatim>\<open>kernel/pmm.h\<close>, and the generic facts on words, alignment and lists
  that the component theories use. Facts that several components want as rewrite rules are
  collected in the named collections \<open>ek_word\<close> (reading masks, shifts and sums as
  natural numbers) and \<open>ek_upd\<close> (record and function updates of component states).
\<close>

unbundle bit_operations_syntax

named_theorems ek_word "word operations read as natural number arithmetic"
named_theorems ek_upd "how the operations of a component change the fields of its state"

type_synonym u8 = "8 word"
type_synonym u16 = "16 word"
type_synonym u32 = "32 word"
type_synonym u64 = "64 word"

abbreviation PAGE_SIZE :: u64 where
  "PAGE_SIZE \<equiv> 4096"

abbreviation PAGE_SHIFT :: nat where
  "PAGE_SHIFT \<equiv> 12"

section \<open>Masks and alignment\<close>

text \<open>\<open>x & ~(PAGE_SIZE - 1)\<close> and \<open>(x + PAGE_SIZE - 1) & ~(PAGE_SIZE - 1)\<close>, the two
  expressions by which the kernel rounds an address to a page boundary.\<close>

definition page_down :: "u64 \<Rightarrow> u64" where
  "page_down a = a AND NOT (PAGE_SIZE - 1)"

definition page_up :: "u64 \<Rightarrow> u64" where
  "page_up a = (a + PAGE_SIZE - 1) AND NOT (PAGE_SIZE - 1)"

lemma unat_and_mask: "unat ((a::'a::len word) AND mask k) = unat a mod 2 ^ k"
  by (simp only: take_bit_eq_mask [symmetric] unsigned_take_bit_eq) (simp add: take_bit_eq_mod)

lemma and_not_eq_minus: "(a::'a::len word) AND NOT m = a - (a AND m)"
proof -
  have "NOT a AND (a AND m) = 0"
    by (simp add: bit_eq_iff bit_and_iff bit_not_iff)
  then have "a - (a AND m) = a AND NOT (a AND m)"
    by (rule disjunctive_diff_eq_and_not)
  also have "\<dots> = a AND NOT m"
    by (rule bit_word_eqI) (auto simp add: bit_simps)
  finally show ?thesis by simp
qed

lemma unat_and_not_mask:
  "unat ((a::'a::len word) AND NOT (mask k)) = unat a - unat a mod 2 ^ k"
proof -
  have "unat (a AND mask k) \<le> unat a"
    by (simp add: unat_and_mask)
  then show ?thesis
    by (simp add: and_not_eq_minus unat_sub word_le_nat_alt unat_and_mask)
qed

lemma mask_12_eq: "(4095::u64) = mask 12"
  by (simp add: mask_eq_exp_minus_1)

lemma unat_page_down [ek_word]: "unat (page_down a) = unat a - unat a mod 4096"
  using unat_and_not_mask [of a 12] by (simp add: page_down_def mask_12_eq)

lemma unat_and_4095 [ek_word]: "unat ((a::u64) AND 4095) = unat a mod 4096"
  using unat_and_mask [of a 12] by (simp add: mask_12_eq)

lemma page_down_mod [simp]: "unat (page_down a) mod 4096 = 0"
  by (simp add: unat_page_down mod_eq_0_iff_dvd minus_mod_eq_mult_div)

lemma page_down_le: "page_down a \<le> a"
  by (simp add: word_le_nat_alt unat_page_down)

lemma page_up_eq: "page_up a = page_down (a + 4095)"
  by (simp add: page_up_def page_down_def algebra_simps)

lemma page_up_mod [simp]: "unat (page_up a) mod 4096 = 0"
  by (simp add: page_up_eq)

lemma unat_page_up [ek_word]:
  assumes "unat a + 4095 < 2 ^ 64"
  shows "unat (page_up a) = (unat a + 4095) div 4096 * 4096"
proof -
  have "unat (a + 4095) = unat a + 4095"
    using assms by (simp add: unat_word_ariths)
  then show ?thesis
    by (simp add: page_up_eq unat_page_down minus_mod_eq_div_mult)
qed

lemma unat_plus_no_wrap: "unat a + unat b < 2 ^ LENGTH('a) \<Longrightarrow> unat (a + b) = unat a + unat b"
  for a b :: "'a::len word"
  by (simp add: unat_word_ariths)

text \<open>The number of the page an address lies on.\<close>

definition page_no :: "u64 \<Rightarrow> nat" where
  "page_no a = unat a div 4096"

lemma unat_drop_12: "unat (drop_bit 12 (a::u64)) = page_no a"
  by (simp add: drop_bit_eq_div unat_div page_no_def)

lemma page_no_page_down [simp]: "page_no (page_down a) = page_no a"
  by (simp add: page_no_def unat_page_down minus_mod_eq_div_mult)

lemma unat_less_64: "unat (a :: u64) < 2 ^ 64"
  using unsigned_less [of a] by simp

lemma page_no_less: "page_no a < 2 ^ 52"
  using unsigned_less [of a] by (simp add: page_no_def div_less_iff_less_mult)

section \<open>Bits and power-of-two blocks\<close>

lemma word_bit_unat: "bit (a::'a::len word) k \<longleftrightarrow> odd (unat a div 2 ^ k)"
proof -
  have "bit (unat a) k = bit a k"
    by (simp add: bit_unsigned_iff)
  then show ?thesis
    by (simp add: bit_iff_odd)
qed

lemma xor_eq_plus: "(a::'a::len word) AND b = 0 \<Longrightarrow> a XOR b = a + b"
  by (simp add: disjunctive_xor_eq_or disjunctive_add_eq_or)

lemma xor_pow2_clear: "\<not> bit (a::'a::len word) k \<Longrightarrow> a XOR 2 ^ k = a + 2 ^ k"
  by (rule xor_eq_plus, rule bit_word_eqI) (auto simp add: bit_simps)

lemma xor_pow2_set:
  assumes "bit (a::'a::len word) k"
  shows "a XOR 2 ^ k = a - 2 ^ k"
proof -
  have "NOT a AND 2 ^ k = 0"
    by (rule bit_word_eqI) (use assms in \<open>auto simp add: bit_simps\<close>)
  then show ?thesis
    by (simp add: disjunctive_diff_eq_and_not disjunctive_and_not_eq_xor)
qed

lemma unat_pow2 [ek_word]:
  assumes "k < LENGTH('a)"
  shows "unat (2 ^ k :: 'a::len word) = 2 ^ k"
proof -
  have "(2 ^ k :: 'a word) = word_of_nat (2 ^ k)"
    by simp
  moreover have "(2::nat) ^ k < 2 ^ LENGTH('a)"
    using assms by simp
  ultimately show ?thesis
    by (simp only: unat_of_nat) simp
qed

text \<open>A block of \<open>2 ^ k\<close> bytes that starts at a multiple of its size never wraps.\<close>

lemma aligned_end_le:
  assumes "2 ^ k dvd unat (a::'a::len word)" "k \<le> LENGTH('a)"
  shows "unat a + 2 ^ k \<le> 2 ^ LENGTH('a)"
proof -
  have lt: "unat a < 2 ^ LENGTH('a)"
    by simp
  from assms(1) obtain m where m: "unat a = 2 ^ k * m" ..
  have eq: "(2::nat) ^ LENGTH('a) = 2 ^ k * 2 ^ (LENGTH('a) - k)"
    using assms(2) by (simp flip: power_add)
  with lt m have "m < 2 ^ (LENGTH('a) - k)"
    by simp
  then have "2 ^ k * Suc m \<le> 2 ^ k * 2 ^ (LENGTH('a) - k)"
    by (intro mult_le_mono2) simp
  then show ?thesis
    by (simp add: m eq)
qed

lemma buddy_low:
  assumes "2 ^ k dvd unat (a::'a::len word)" "k < LENGTH('a)" "\<not> bit a k"
  shows "unat (a XOR 2 ^ k) = unat a + 2 ^ k" and "2 ^ Suc k dvd unat a"
proof -
  from assms(1) obtain m where m: "unat a = 2 ^ k * m" ..
  from assms(3) have "even m"
    by (simp add: word_bit_unat m)
  then obtain j where "m = 2 * j" ..
  with m show dvd: "2 ^ Suc k dvd unat a"
    by simp
  have "unat a + 2 ^ Suc k \<le> 2 ^ LENGTH('a)"
    by (rule aligned_end_le [OF dvd]) (use assms(2) in simp)
  moreover have "(2::nat) ^ k < 2 ^ Suc k"
    by simp
  ultimately have "unat a + 2 ^ k < 2 ^ LENGTH('a)"
    by linarith
  then show "unat (a XOR 2 ^ k) = unat a + 2 ^ k"
    using assms(2) by (simp add: xor_pow2_clear [OF assms(3)] unat_word_ariths unat_pow2)
qed

lemma buddy_high:
  assumes "2 ^ k dvd unat (a::'a::len word)" "k < LENGTH('a)" "bit a k"
  shows "unat (a XOR 2 ^ k) + 2 ^ k = unat a" and "2 ^ Suc k dvd unat (a XOR 2 ^ k)"
proof -
  from assms(1) obtain m where m: "unat a = 2 ^ k * m" ..
  from assms(3) have "odd m"
    by (simp add: word_bit_unat m)
  then obtain j where j: "m = 2 * j + 1"
    by (rule oddE)
  have "unat (a XOR 2 ^ k) = unat a - 2 ^ k"
    using assms(2)
    by (simp add: xor_pow2_set [OF assms(3)] unat_sub word_le_nat_alt unat_pow2 m j)
  then show "unat (a XOR 2 ^ k) + 2 ^ k = unat a" and "2 ^ Suc k dvd unat (a XOR 2 ^ k)"
    by (simp_all add: m j algebra_simps)
qed

section \<open>Lists\<close>

lemma distinct_remove1_filter: "distinct xs \<Longrightarrow> remove1 x xs = filter (\<lambda>y. y \<noteq> x) xs"
  by (simp add: distinct_remove1_removeAll removeAll_filter_not_eq) (metis (lifting))

lemma find_Some_split:
  "find P xs = Some x \<Longrightarrow> \<exists>us vs. xs = us @ x # vs \<and> P x \<and> (\<forall>u\<in>set us. \<not> P u)"
proof (induction xs)
  case Nil
  then show ?case by simp
next
  case (Cons a xs)
  show ?case
  proof (cases "P a")
    case True
    with Cons.prems show ?thesis
      by (intro exI [of _ "[]"] exI [of _ xs]) simp
  next
    case False
    with Cons.prems have "find P xs = Some x" by simp
    with Cons.IH obtain us vs where "xs = us @ x # vs" "P x" "\<forall>u\<in>set us. \<not> P u"
      by blast
    with False show ?thesis
      by (intro exI [of _ "a # us"] exI [of _ vs]) simp
  qed
qed

end
