(* ===== verification/List_Head.thy ===== *)
theory List_Head
  imports EK_Prelude
begin

text \<open>
  The kernel's intrusive doubly linked lists, \<^verbatim>\<open>src/kernel/list.h\<close>. A list is a ring of
  \<open>struct list_head\<close> cells threaded by \<open>next\<close> and \<open>prev\<close>; the same cell type serves
  as the head of a list and as the link embedded in its elements. The model keeps the two
  pointer fields of every cell in a store and performs the assignments of the source one
  after the other, so calls whose arguments alias or are exchanged mean what the C code
  does. \<open>ring h p xs\<close> says that the cells \<open>xs\<close> form the list whose head is \<open>p\<close>;
  the lemmas show that each operation implements the list operation it is named after.
\<close>

section \<open>The operations\<close>

record 'p list_store =
  nxt :: "'p \<Rightarrow> 'p"
  prv :: "'p \<Rightarrow> 'p"

definition set_next :: "'p \<Rightarrow> 'p \<Rightarrow> 'p list_store \<Rightarrow> 'p list_store" where
  "set_next p v h = h\<lparr>nxt := (nxt h)(p := v)\<rparr>"

definition set_prev :: "'p \<Rightarrow> 'p \<Rightarrow> 'p list_store \<Rightarrow> 'p list_store" where
  "set_prev p v h = h\<lparr>prv := (prv h)(p := v)\<rparr>"

definition list_init :: "'p list_store \<Rightarrow> 'p \<Rightarrow> 'p list_store" where
  "list_init h head =
     (let h = set_next head head h
      in set_prev head head h)"

definition list_empty :: "'p list_store \<Rightarrow> 'p \<Rightarrow> bool" where
  "list_empty h head \<longleftrightarrow> nxt h head = head"

definition list_push_front :: "'p list_store \<Rightarrow> 'p \<Rightarrow> 'p \<Rightarrow> 'p list_store" where
  "list_push_front h head node =
     (let h = set_next node (nxt h head) h;
          h = set_prev node head h;
          h = set_prev (nxt h head) node h
      in set_next head node h)"

definition list_push_back :: "'p list_store \<Rightarrow> 'p \<Rightarrow> 'p \<Rightarrow> 'p list_store" where
  "list_push_back h head node =
     (let h = set_next node head h;
          h = set_prev node (prv h head) h;
          h = set_next (prv h head) node h
      in set_prev head node h)"

definition list_remove :: "'p list_store \<Rightarrow> 'p \<Rightarrow> 'p list_store" where
  "list_remove h node =
     (let h = set_next (prv h node) (nxt h node) h;
          h = set_prev (nxt h node) (prv h node) h;
          h = set_next node node h
      in set_prev node node h)"

definition list_pop_front :: "'p list_store \<Rightarrow> 'p \<Rightarrow> 'p option \<times> 'p list_store" where
  "list_pop_front h head =
     (if list_empty h head then (None, h)
      else let node = nxt h head in (Some node, list_remove h node))"

text \<open>
  \<open>list_for_each\<close> with a body that stops at the first cell satisfying a condition: the
  cell found, or \<open>None\<close> when the loop comes back to the head. The outer option is
  \<open>None\<close> when the loop never ends, as it does not on a cyclic chain that misses the head.
\<close>

partial_function (option) list_find_from ::
    "'p list_store \<Rightarrow> 'p \<Rightarrow> ('p \<Rightarrow> bool) \<Rightarrow> 'p \<Rightarrow> 'p option option" where
  "list_find_from h head P pos =
     (if pos = head then Some None
      else if P pos then Some (Some pos)
      else list_find_from h head P (nxt h pos))"

definition list_find :: "'p list_store \<Rightarrow> 'p \<Rightarrow> ('p \<Rightarrow> bool) \<Rightarrow> 'p option option" where
  "list_find h head P = list_find_from h head P (nxt h head)"

text \<open>\<open>list_for_each\<close> with a body that only looks: the cells it visits, in order.\<close>

partial_function (option) list_walk :: "'p list_store \<Rightarrow> 'p \<Rightarrow> 'p \<Rightarrow> 'p list option" where
  "list_walk h head pos =
     (if pos = head then Some []
      else Option.bind (list_walk h head (nxt h pos)) (\<lambda>r. Some (pos # r)))"

definition list_for_each :: "'p list_store \<Rightarrow> 'p \<Rightarrow> 'p list option" where
  "list_for_each h head = list_walk h head (nxt h head)"

section \<open>Rings\<close>

fun links :: "'p list_store \<Rightarrow> 'p list \<Rightarrow> bool" where
  "links h (a # b # r) \<longleftrightarrow> nxt h a = b \<and> prv h b = a \<and> links h (b # r)"
| "links h _ \<longleftrightarrow> True"

definition ring :: "'p list_store \<Rightarrow> 'p \<Rightarrow> 'p list \<Rightarrow> bool" where
  "ring h p xs \<longleftrightarrow> distinct (p # xs) \<and> links h (p # xs @ [p])"

lemma store_simps [simp]:
  "nxt (set_next p v h) = (nxt h)(p := v)" "prv (set_next p v h) = prv h"
  "nxt (set_prev p v h) = nxt h" "prv (set_prev p v h) = (prv h)(p := v)"
  by (simp_all add: set_next_def set_prev_def)

lemma links_append: "links h (xs @ a # ys) \<longleftrightarrow> links h (xs @ [a]) \<and> links h (a # ys)"
proof (induction xs)
  case Nil
  then show ?case by simp
next
  case (Cons x xs)
  then show ?case by (cases xs) auto
qed

lemma links_cong:
  "(\<And>a. a \<in> set (butlast l) \<Longrightarrow> nxt h' a = nxt h a) \<Longrightarrow>
   (\<And>a. a \<in> set (tl l) \<Longrightarrow> prv h' a = prv h a) \<Longrightarrow> links h' l = links h l"
proof (induction l rule: links.induct [of _ h])
  case (1 h a b r)
  have "links h' (b # r) = links h (b # r)"
  proof (rule "1.IH")
    show "nxt h' x = nxt h x" if "x \<in> set (butlast (b # r))" for x
      using "1.prems"(1) [of x] that by simp
    show "prv h' x = prv h x" if "x \<in> set (tl (b # r))" for x
      using "1.prems"(2) [of x] that by simp
  qed
  with "1.prems" show ?case by simp
qed simp_all

lemma links_next: "links h (xs @ a # b # ys) \<Longrightarrow> nxt h a = b"
  using links_append [of h xs a "b # ys"] by simp

lemma links_prev: "links h (xs @ a # b # ys) \<Longrightarrow> prv h b = a"
  using links_append [of h xs a "b # ys"] by simp

lemma ring_Nil: "ring h p [] \<longleftrightarrow> nxt h p = p \<and> prv h p = p"
  by (auto simp: ring_def)

lemma ring_distinct: "ring h p xs \<Longrightarrow> distinct xs \<and> p \<notin> set xs"
  by (simp add: ring_def)

lemma ring_next_head: "ring h p xs \<Longrightarrow> nxt h p = hd (xs @ [p])"
  by (cases xs) (auto simp: ring_def)

lemma ring_prev_head: "ring h p xs \<Longrightarrow> prv h p = last (p # xs)"
proof -
  assume r: "ring h p xs"
  obtain ys l where eq: "p # xs = ys @ [l]"
    by (metis append_butlast_last_id list.distinct(1))
  then have "p # xs @ [p] = ys @ l # p # []"
    by (metis append.assoc append_Cons append_Nil)
  with r have "links h (ys @ l # p # [])"
    by (simp add: ring_def)
  then show ?thesis
    using links_prev [of h ys l p "[]"] eq by simp
qed

lemma ring_list_empty: "ring h p xs \<Longrightarrow> list_empty h p \<longleftrightarrow> xs = []"
  by (cases xs) (auto simp: list_empty_def ring_def)

lemma ring_cong:
  assumes "\<And>a. a \<in> insert p (set xs) \<Longrightarrow> nxt h' a = nxt h a \<and> prv h' a = prv h a"
  shows "ring h' p xs = ring h p xs"
proof -
  have "links h' (p # xs @ [p]) = links h (p # xs @ [p])"
    by (rule links_cong) (use assms in \<open>auto simp: butlast_append split: if_splits\<close>)
  then show ?thesis by (simp add: ring_def)
qed

section \<open>The operations on rings\<close>

text \<open>The cells of a ring around a position: \<open>a\<close> is the cell before it and \<open>b\<close> the cell
  after it, the head counting as both ends.\<close>

lemma ring_position:
  assumes d: "distinct (p # xs @ ys)"
  obtains us vs where
    "p # xs = us @ [last (p # xs)]" "ys @ [p] = hd (ys @ [p]) # vs"
    "set (tl (us @ [last (p # xs)])) = set xs" "set (butlast (hd (ys @ [p]) # vs)) = set ys"
    "last (p # xs) \<notin> set us \<union> set ys" "hd (ys @ [p]) \<notin> set vs \<union> set xs"
    "set us \<union> {last (p # xs)} = insert p (set xs)" "set vs \<union> {hd (ys @ [p])} = insert p (set ys)"
proof -
  let ?a = "last (p # xs)" and ?b = "hd (ys @ [p])"
  define us where "us = butlast (p # xs)"
  define vs where "vs = tl (ys @ [p])"
  have us: "p # xs = us @ [?a]"
    by (simp only: us_def append_butlast_last_id list.distinct not_False_eq_True)
  have vs: "ys @ [p] = ?b # vs"
    by (cases ys) (simp_all add: vs_def)
  have d': "distinct (us @ [?a])" "distinct (?b # vs)" "set xs \<inter> set ys = {}" "p \<notin> set xs"
    using d by (auto simp only: us [symmetric] vs [symmetric]) auto
  have setu: "set us \<union> {?a} = insert p (set xs)" and setv: "set vs \<union> {?b} = insert p (set ys)"
    using arg_cong [OF us, of set] arg_cong [OF vs, of set] by auto
  have tlu: "set (tl (us @ [?a])) = set xs" and blv: "set (butlast (?b # vs)) = set ys"
    by (simp_all only: us [symmetric] vs [symmetric] list.sel butlast_snoc)
  have "?a \<in> insert p (set xs)" "?b \<in> insert p (set ys)"
    using setu setv by blast+
  then have "?a \<notin> set us \<union> set ys" "?b \<notin> set vs \<union> set xs"
    using d d' by fastforce+
  with us vs tlu blv setu setv show thesis
    by (intro that)
qed

text \<open>Linking a fresh cell between two neighbours \<open>a\<close>, \<open>b\<close> of a ring.\<close>

lemma ring_insert:
  assumes r: "ring h p (xs @ ys)" and n: "n \<notin> insert p (set (xs @ ys))"
    and a: "a = last (p # xs)" and b: "b = hd (ys @ [p])"
    and nx: "nxt h' = (nxt h)(n := b, a := n)" and pv: "prv h' = (prv h)(n := a, b := n)"
  shows "ring h' p (xs @ n # ys)"
proof -
  have d: "distinct (p # xs @ ys)"
    using r by (simp add: ring_def)
  obtain us vs where us: "p # xs = us @ [a]" and vs: "ys @ [p] = b # vs"
    and cells: "set (tl (us @ [a])) = set xs" "set (butlast (b # vs)) = set ys"
      "a \<notin> set us \<union> set ys" "b \<notin> set vs \<union> set xs"
      "set us \<union> {a} = insert p (set xs)" "set vs \<union> {b} = insert p (set ys)"
    using ring_position [OF d] unfolding a b by metis
  have old: "p # (xs @ ys) @ [p] = us @ a # b # vs"
    and new: "p # (xs @ n # ys) @ [p] = us @ a # n # b # vs"
    using us vs by (metis append.assoc append_Cons append_Nil)+
  from r old have "links h (us @ [a])" "links h (b # vs)"
    using links_append [of h us a "b # vs"] by (simp_all add: ring_def)
  moreover have "links h' (us @ [a]) = links h (us @ [a])"
    by (rule links_cong) (use n nx pv cells in auto)
  moreover have "links h' (b # vs) = links h (b # vs)"
    by (rule links_cong) (use n nx pv cells in auto)
  moreover have "n \<noteq> a" "n \<noteq> b"
    using n cells by auto
  ultimately have "links h' (us @ a # n # b # vs)"
    using links_append [of h' us a "n # b # vs"] nx pv by simp
  then show ?thesis
    using r n new by (auto simp: ring_def)
qed

lemma ring_push_back:
  assumes "ring h p xs" "n \<notin> insert p (set xs)"
  shows "ring (list_push_back h p n) p (xs @ [n])"
  by (rule ring_insert [where h = h and ys = "[]" and a = "last (p # xs)" and b = p])
     (use assms ring_prev_head [OF assms(1)] in \<open>auto simp: list_push_back_def Let_def\<close>)

lemma ring_push_front:
  assumes "ring h p xs" "n \<notin> insert p (set xs)"
  shows "ring (list_push_front h p n) p (n # xs)"
  using ring_insert [where h = h and xs = "[]" and ys = xs and a = p and b = "hd (xs @ [p])"
      and n = n and p = p and h' = "list_push_front h p n"]
    assms ring_next_head [OF assms(1)]
  by (auto simp: list_push_front_def Let_def)

text \<open>Called on a cell inside the list, \<open>list_push_front\<close> links the new cell behind it.\<close>

lemma ring_next_cell:
  assumes "ring h p (xs @ c # ys)"
  shows "nxt h c = hd (ys @ [p])"
proof -
  have "links h ((p # xs) @ c # (ys @ [p]))"
    using assms by (simp add: ring_def)
  then show ?thesis
    using links_next [of h "p # xs" c "hd (ys @ [p])" "tl (ys @ [p])"] by (cases ys) auto
qed

lemma ring_prev_cell:
  assumes "ring h p (xs @ c # ys)"
  shows "prv h c = last (p # xs)"
proof -
  obtain us l where eq: "p # xs = us @ [l]"
    by (metis append_butlast_last_id list.distinct(1))
  then have "p # (xs @ c # ys) @ [p] = us @ l # c # ys @ [p]"
    by (metis append.assoc append_Cons append_Nil)
  then have "links h (us @ l # c # ys @ [p])"
    using assms unfolding ring_def by metis
  then show ?thesis
    using links_prev eq by (metis last_snoc)
qed

lemma ring_push_after:
  assumes "ring h p (xs @ c # ys)" "n \<notin> insert p (set (xs @ c # ys))"
  shows "ring (list_push_front h c n) p (xs @ c # n # ys)"
  using ring_insert [where h = h and xs = "xs @ [c]" and ys = ys and a = c and n = n and p = p
      and b = "hd (ys @ [p])" and h' = "list_push_front h c n"]
    assms ring_next_cell [OF assms(1)]
  by (auto simp: list_push_front_def Let_def)

lemma ring_remove:
  assumes r: "ring h p (xs @ n # ys)"
  shows "ring (list_remove h n) p (xs @ ys)" and "ring (list_remove h n) n []"
proof -
  let ?h = "list_remove h n"
  define a where "a = last (p # xs)"
  define b where "b = hd (ys @ [p])"
  have pn: "prv h n = a" and nn: "nxt h n = b"
    using ring_prev_cell [OF r] ring_next_cell [OF r] by (simp_all add: a_def b_def)
  have d: "distinct (p # xs @ ys)" and n: "n \<notin> insert p (set xs \<union> set ys)"
    using r by (auto simp: ring_def)
  obtain us vs where us: "p # xs = us @ [a]" and vs: "ys @ [p] = b # vs"
    and cells: "set (tl (us @ [a])) = set xs" "set (butlast (b # vs)) = set ys"
      "a \<notin> set us \<union> set ys" "b \<notin> set vs \<union> set xs"
      "set us \<union> {a} = insert p (set xs)" "set vs \<union> {b} = insert p (set ys)"
    using ring_position [OF d] unfolding a_def b_def by metis
  have old: "p # (xs @ n # ys) @ [p] = us @ a # n # b # vs"
    and new: "p # (xs @ ys) @ [p] = us @ a # b # vs"
    using us vs by (metis append.assoc append_Cons append_Nil)+
  have ab: "n \<noteq> a" "n \<noteq> b"
    using n cells by auto
  have h': "nxt ?h = (nxt h)(a := b, n := n)" "prv ?h = (prv h)(b := a, n := n)"
    using ab by (auto simp: list_remove_def Let_def pn nn)
  from r old have "links h (us @ [a])" "links h (b # vs)"
    using links_append [of h us a "n # b # vs"] by (simp_all add: ring_def)
  moreover have "links ?h (us @ [a]) = links h (us @ [a])"
    by (rule links_cong) (use n h' cells in auto)
  moreover have "links ?h (b # vs) = links h (b # vs)"
    by (rule links_cong) (use n h' cells in auto)
  ultimately have "links ?h (us @ a # b # vs)"
    using links_append [of ?h us a "b # vs"] h' ab by simp
  then show "ring ?h p (xs @ ys)"
    using r new by (auto simp: ring_def)
  show "ring ?h n []"
    by (simp add: ring_Nil h')
qed

text \<open>The loops over a ring end, and visit its cells in order.\<close>

lemma links_walk:
  "links h (pos # xs @ [p]) \<Longrightarrow> p \<notin> set (pos # xs) \<Longrightarrow> list_walk h p pos = Some (pos # xs)"
proof (induction xs arbitrary: pos)
  case Nil
  then show ?case by (simp add: list_walk.simps [of h p pos] list_walk.simps [of h p p])
next
  case (Cons x xs)
  then have "list_walk h p x = Some (x # xs)" by simp
  with Cons.prems show ?case by (auto simp add: list_walk.simps [of h p pos])
qed

lemma ring_for_each: "ring h p xs \<Longrightarrow> list_for_each h p = Some xs"
proof (cases xs)
  case Nil
  assume "ring h p xs"
  with Nil show ?thesis
    by (simp add: list_for_each_def ring_Nil list_walk.simps [of h p p])
next
  case (Cons x ys)
  assume "ring h p xs"
  with Cons show ?thesis
    using links_walk [of h x ys p] by (auto simp: list_for_each_def ring_def)
qed

lemma ring_unique: "ring h p xs \<Longrightarrow> ring h p ys \<Longrightarrow> xs = ys"
  using ring_for_each by (metis option.inject)

lemma links_find:
  "links h (pos # xs @ [p]) \<Longrightarrow> p \<notin> set (pos # xs) \<Longrightarrow>
   list_find_from h p P pos = Some (find P (pos # xs))"
proof (induction xs arbitrary: pos)
  case Nil
  then show ?case
    by (simp add: list_find_from.simps [of h p P pos] list_find_from.simps [of h p P p])
next
  case (Cons x xs)
  then have "list_find_from h p P x = Some (find P (x # xs))" by simp
  with Cons.prems show ?case by (auto simp add: list_find_from.simps [of h p P pos])
qed

lemma ring_find: "ring h p xs \<Longrightarrow> list_find h p P = Some (find P xs)"
proof (cases xs)
  case Nil
  assume "ring h p xs"
  with Nil show ?thesis
    by (simp add: list_find_def ring_Nil list_find_from.simps [of h p P p])
next
  case (Cons x ys)
  assume "ring h p xs"
  with Cons show ?thesis
    using links_find [of h x ys p P] by (auto simp: list_find_def ring_def)
qed

section \<open>Families of disjoint rings\<close>

text \<open>
  A component keeps several lists in one store. \<open>rings h P L\<close> says that every head
  \<open>p \<in> P\<close> carries the list \<open>L p\<close> and that no cell is shared. The operations then act on
  \<open>L\<close> alone: this is the refinement the components build on.
\<close>

definition cells :: "('p \<Rightarrow> 'p list) \<Rightarrow> 'p \<Rightarrow> 'p set" where
  "cells L p = insert p (set (L p))"

definition rings :: "'p list_store \<Rightarrow> 'p set \<Rightarrow> ('p \<Rightarrow> 'p list) \<Rightarrow> bool" where
  "rings h P L \<longleftrightarrow> (\<forall>p\<in>P. ring h p (L p)) \<and>
     (\<forall>p\<in>P. \<forall>q\<in>P. p \<noteq> q \<longrightarrow> cells L p \<inter> cells L q = {})"

definition in_rings :: "'p set \<Rightarrow> ('p \<Rightarrow> 'p list) \<Rightarrow> 'p set" where
  "in_rings P L = (\<Union>p\<in>P. cells L p)"

lemma rings_ring: "rings h P L \<Longrightarrow> p \<in> P \<Longrightarrow> ring h p (L p)"
  by (simp add: rings_def)

lemma rings_disjoint: "rings h P L \<Longrightarrow> p \<in> P \<Longrightarrow> q \<in> P \<Longrightarrow> p \<noteq> q \<Longrightarrow> cells L p \<inter> cells L q = {}"
  by (simp add: rings_def)

lemma rings_not_head: "rings h P L \<Longrightarrow> p \<in> P \<Longrightarrow> q \<in> P \<Longrightarrow> q \<notin> set (L p)"
  by (cases "p = q") (auto simp: rings_def cells_def dest: ring_distinct)

text \<open>An operation that turns the list of \<open>p\<close> into \<open>xs\<close> and touches only cells of \<open>p\<close> and
  fresh cells keeps the family.\<close>

lemma rings_update:
  assumes rs: "rings h P L" and p: "p \<in> P" and r: "ring h' p xs"
    and new: "set xs \<subseteq> set (L p) \<union> - in_rings P L"
    and frame: "\<And>a. a \<in> in_rings P L \<Longrightarrow> a \<notin> cells L p \<Longrightarrow> nxt h' a = nxt h a \<and> prv h' a = prv h a"
  shows "rings h' P (L(p := xs))"
  unfolding rings_def
proof (intro conjI ballI impI)
  fix q assume q: "q \<in> P"
  show "ring h' q ((L(p := xs)) q)"
  proof (cases "q = p")
    case True
    with r show ?thesis by simp
  next
    case False
    have "ring h' q (L q) = ring h q (L q)"
    proof (rule ring_cong)
      fix a assume "a \<in> insert q (set (L q))"
      then have "a \<in> in_rings P L" "a \<notin> cells L p"
        using q rings_disjoint [OF rs q p False] by (auto simp: in_rings_def cells_def)
      then show "nxt h' a = nxt h a \<and> prv h' a = prv h a" by (rule frame)
    qed
    with False rs q show ?thesis by (simp add: rings_ring)
  qed
next
  have new': "x \<notin> cells L q" if "x \<in> insert p (set xs)" "q \<in> P" "q \<noteq> p" for x q
    using that new rings_disjoint [OF rs that(2) p that(3)] by (auto simp: in_rings_def cells_def)
  fix q q' assume "q \<in> P" "q' \<in> P" "q \<noteq> q'"
  then show "cells (L(p := xs)) q \<inter> cells (L(p := xs)) q' = {}"
    using new' rings_disjoint [OF rs] by (auto simp: cells_def)
qed

lemma push_back_frame:
  "a \<notin> {node, head, prv h head} \<Longrightarrow>
   nxt (list_push_back h head node) a = nxt h a \<and> prv (list_push_back h head node) a = prv h a"
  by (auto simp: list_push_back_def Let_def)

lemma push_front_frame:
  "a \<notin> {node, head, nxt h head} \<Longrightarrow>
   nxt (list_push_front h head node) a = nxt h a \<and> prv (list_push_front h head node) a = prv h a"
  by (auto simp: list_push_front_def Let_def)

lemma remove_frame:
  "a \<notin> {node, prv h node, nxt h node} \<Longrightarrow>
   nxt (list_remove h node) a = nxt h a \<and> prv (list_remove h node) a = prv h a"
  by (auto simp: list_remove_def Let_def)

lemma ring_head_neighbours:
  "ring h p xs \<Longrightarrow> nxt h p \<in> insert p (set xs) \<and> prv h p \<in> insert p (set xs)"
  using ring_next_head [of h p xs] ring_prev_head [of h p xs]
  by (cases xs) (auto simp: last_in_set)

lemma ring_cell_neighbours:
  assumes "ring h p xs" "n \<in> set xs"
  shows "nxt h n \<in> insert p (set xs) \<and> prv h n \<in> insert p (set xs)"
proof -
  from assms(2) obtain us vs where xs: "xs = us @ n # vs"
    by (meson split_list)
  with assms(1) have "nxt h n = hd (vs @ [p])" "prv h n = last (p # us)"
    using ring_next_cell ring_prev_cell by metis+
  with xs show ?thesis
    by (cases vs) (auto simp: last_in_set)
qed

lemma rings_push_back:
  assumes rs: "rings h P L" and p: "p \<in> P" and n: "n \<notin> in_rings P L"
  shows "rings (list_push_back h p n) P (L(p := L p @ [n]))"
proof (rule rings_update [OF rs p])
  have r: "ring h p (L p)" using rs p by (rule rings_ring)
  show "ring (list_push_back h p n) p (L p @ [n])"
    by (rule ring_push_back [OF r]) (use n p in \<open>auto simp: in_rings_def cells_def\<close>)
  show "set (L p @ [n]) \<subseteq> set (L p) \<union> - in_rings P L"
    using n by auto
  show "nxt (list_push_back h p n) a = nxt h a \<and> prv (list_push_back h p n) a = prv h a"
    if "a \<in> in_rings P L" "a \<notin> cells L p" for a
    by (rule push_back_frame)
       (use that n ring_head_neighbours [OF r] in \<open>auto simp: cells_def\<close>)
qed

lemma rings_push_front:
  assumes rs: "rings h P L" and p: "p \<in> P" and n: "n \<notin> in_rings P L"
  shows "rings (list_push_front h p n) P (L(p := n # L p))"
proof (rule rings_update [OF rs p])
  have r: "ring h p (L p)" using rs p by (rule rings_ring)
  show "ring (list_push_front h p n) p (n # L p)"
    by (rule ring_push_front [OF r]) (use n p in \<open>auto simp: in_rings_def cells_def\<close>)
  show "set (n # L p) \<subseteq> set (L p) \<union> - in_rings P L"
    using n by auto
  show "nxt (list_push_front h p n) a = nxt h a \<and> prv (list_push_front h p n) a = prv h a"
    if "a \<in> in_rings P L" "a \<notin> cells L p" for a
    by (rule push_front_frame)
       (use that n ring_head_neighbours [OF r] in \<open>auto simp: cells_def\<close>)
qed

lemma rings_remove:
  assumes rs: "rings h P L" and p: "p \<in> P" and n: "n \<in> set (L p)"
  shows "rings (list_remove h n) P (L(p := remove1 n (L p)))"
proof (rule rings_update [OF rs p])
  have r: "ring h p (L p)" using rs p by (rule rings_ring)
  from n obtain us vs where L: "L p = us @ n # vs"
    by (meson split_list)
  with r have "n \<notin> set us"
    by (auto dest: ring_distinct)
  then have rem: "remove1 n (L p) = us @ vs"
    by (simp add: L remove1_append)
  show "ring (list_remove h n) p (remove1 n (L p))"
    unfolding rem by (rule ring_remove(1)) (use r L in simp)
  show "set (remove1 n (L p)) \<subseteq> set (L p) \<union> - in_rings P L"
    by (auto dest: notin_set_remove1)
  show "nxt (list_remove h n) a = nxt h a \<and> prv (list_remove h n) a = prv h a"
    if "a \<in> in_rings P L" "a \<notin> cells L p" for a
    by (rule remove_frame)
       (use that n ring_cell_neighbours [OF r n] in \<open>auto simp: cells_def\<close>)
qed

text \<open>Initialising the link of a cell that is on no list changes no list.\<close>

lemma rings_init:
  assumes rs: "rings h P L" and n: "n \<notin> in_rings P L"
  shows "rings (list_init h n) P L"
  unfolding rings_def
proof (intro conjI ballI impI)
  fix p assume p: "p \<in> P"
  have "ring (list_init h n) p (L p) = ring h p (L p)"
    by (rule ring_cong)
       (use p n in \<open>auto simp: list_init_def Let_def in_rings_def cells_def\<close>)
  with rs p show "ring (list_init h n) p (L p)" by (simp add: rings_ring)
next
  fix p q assume "p \<in> P" "q \<in> P" "p \<noteq> q"
  then show "cells L p \<inter> cells L q = {}" by (rule rings_disjoint [OF rs])
qed

lemma in_rings_removed:
  assumes rs: "rings h P L" and p: "p \<in> P" and n: "n \<in> set (L p)"
  shows "n \<notin> in_rings P (L(p := remove1 n (L p)))"
proof
  assume "n \<in> in_rings P (L(p := remove1 n (L p)))"
  then obtain q where q: "q \<in> P" and nq: "n \<in> cells (L(p := remove1 n (L p))) q"
    by (auto simp: in_rings_def)
  show False
  proof (cases "q = p")
    case True
    with nq n rings_ring [OF rs p] show False
      by (auto simp: cells_def dest!: ring_distinct)
  next
    case False
    with nq n rings_disjoint [OF rs q p False] show False
      by (auto simp: cells_def)
  qed
qed

section \<open>The interface the components use\<close>

text \<open>
  What a client of \<^verbatim>\<open>list.h\<close> relies on: a store represents a family of disjoint lists, and
  pushing and removing act on one of them. The lemmas of the locale are the compound moves
  that the allocators and the scheduler make.
\<close>

locale disjoint_lists =
  fixes repr :: "'h \<Rightarrow> 'p set \<Rightarrow> ('p \<Rightarrow> 'p list) \<Rightarrow> bool"
    and push_front :: "'h \<Rightarrow> 'p \<Rightarrow> 'p \<Rightarrow> 'h"
    and push_back :: "'h \<Rightarrow> 'p \<Rightarrow> 'p \<Rightarrow> 'h"
    and remove :: "'h \<Rightarrow> 'p \<Rightarrow> 'h"
    and is_empty :: "'h \<Rightarrow> 'p \<Rightarrow> bool"
    and first :: "'h \<Rightarrow> 'p \<Rightarrow> 'p"
  assumes repr_push_front: "repr h P L \<Longrightarrow> p \<in> P \<Longrightarrow> n \<notin> in_rings P L \<Longrightarrow>
      repr (push_front h p n) P (L(p := n # L p))"
    and repr_push_back: "repr h P L \<Longrightarrow> p \<in> P \<Longrightarrow> n \<notin> in_rings P L \<Longrightarrow>
      repr (push_back h p n) P (L(p := L p @ [n]))"
    and repr_remove: "repr h P L \<Longrightarrow> p \<in> P \<Longrightarrow> n \<in> set (L p) \<Longrightarrow>
      repr (remove h n) P (L(p := remove1 n (L p)))"
    and removed: "repr h P L \<Longrightarrow> p \<in> P \<Longrightarrow> n \<in> set (L p) \<Longrightarrow>
      n \<notin> in_rings P (L(p := remove1 n (L p)))"
    and repr_is_empty: "repr h P L \<Longrightarrow> p \<in> P \<Longrightarrow> is_empty h p \<longleftrightarrow> L p = []"
    and repr_first: "repr h P L \<Longrightarrow> p \<in> P \<Longrightarrow> first h p = hd (L p @ [p])"
begin

lemma move_back:
  assumes "repr h P L" "p \<in> P" "q \<in> P" "n \<in> set (L p)" "p \<noteq> q"
  shows "repr (push_back (remove h n) q n) P (L(p := remove1 n (L p), q := L q @ [n]))"
  using repr_push_back [OF repr_remove [OF assms(1,2,4)] assms(3) removed [OF assms(1,2,4)]]
    assms(5) by (simp add: fun_upd_def)

lemma move_front:
  assumes "repr h P L" "p \<in> P" "q \<in> P" "n \<in> set (L p)" "p \<noteq> q"
  shows "repr (push_front (remove h n) q n) P (L(p := remove1 n (L p), q := n # L q))"
  using repr_push_front [OF repr_remove [OF assms(1,2,4)] assms(3) removed [OF assms(1,2,4)]]
    assms(5) by (simp add: fun_upd_def)

lemma pop_first:
  assumes "repr h P L" "p \<in> P" "L p = x # xs"
  shows "first h p = x" and "\<not> is_empty h p"
    and "repr (remove h x) P (L(p := xs))" and "x \<notin> in_rings P (L(p := xs))"
  using repr_first [OF assms(1,2)] repr_is_empty [OF assms(1,2)]
    repr_remove [OF assms(1,2), of x] removed [OF assms(1,2), of x] assms(3)
  by auto

end

interpretation lh: disjoint_lists rings list_push_front list_push_back list_remove list_empty nxt
proof unfold_locales
  fix h :: "'p list_store" and P L p
  assume "rings h P L" "p \<in> P"
  then have "ring h p (L p)"
    by (rule rings_ring)
  then show "list_empty h p \<longleftrightarrow> L p = []" and "nxt h p = hd (L p @ [p])"
    by (rule ring_list_empty, rule ring_next_head)
qed (fact rings_push_front rings_push_back rings_remove in_rings_removed)+

end
