(* ===== verification/Pcd.thy ===== *)
theory Pcd
  imports EK_Prelude
begin

text \<open>
  Page Control Data, \<^verbatim>\<open>src/kernel/pcd.c\<close>: the nested kernel's table of page types, one entry
  per physical page. This theory holds the state, the type management operations and the
  queries; \<open>pcd_init\<close>, which allocates the table from the page allocator, is in
  \<^verbatim>\<open>Multiboot\<close>. Log output is not modelled, and an operation that holds the table's lock is one
  atomic step.
\<close>

section \<open>State and operations\<close>

abbreviation PCD_TYPE_OK_NORMAL :: u8 where "PCD_TYPE_OK_NORMAL \<equiv> 0"
abbreviation PCD_TYPE_NK_NORMAL :: u8 where "PCD_TYPE_NK_NORMAL \<equiv> 1"
abbreviation PCD_TYPE_NK_PGTABLE :: u8 where "PCD_TYPE_NK_PGTABLE \<equiv> 2"
abbreviation PCD_TYPE_NK_IO :: u8 where "PCD_TYPE_NK_IO \<equiv> 3"
abbreviation PCD_TYPE_MAX :: u8 where "PCD_TYPE_MAX \<equiv> 3"

record pcd_t =
  pcd_type :: u8
  pcd_flags :: u8
  pcd_reserved :: u16

text \<open>\<open>pcd_array\<close> is the pointer \<open>pages\<close>, \<open>pcd_pages\<close> what the array it points to holds.\<close>

record pcd_state =
  pcd_array :: u64
  pcd_pages :: "nat \<Rightarrow> pcd_t"
  pcd_max_pages :: u64
  pcd_base_page :: u64
  pcd_initialized :: bool

definition set_page_type :: "pcd_state \<Rightarrow> u64 \<Rightarrow> u8 \<Rightarrow> pcd_state" where
  "set_page_type s i t =
     s\<lparr>pcd_pages := (pcd_pages s)(unat i := (pcd_pages s (unat i))\<lparr>pcd_type := t\<rparr>)\<rparr>"

definition pcd_set_type_internal :: "pcd_state \<Rightarrow> u64 \<Rightarrow> u8 \<Rightarrow> pcd_state" where
  "pcd_set_type_internal s phys_addr t =
     (let page_index = drop_bit PAGE_SHIFT phys_addr - pcd_base_page s
      in if pcd_max_pages s \<le> page_index then s else set_page_type s page_index t)"

definition phys_to_page :: "u64 \<Rightarrow> u64" where
  "phys_to_page phys_addr = drop_bit PAGE_SHIFT phys_addr"

definition page_to_phys :: "u64 \<Rightarrow> u64" where
  "page_to_phys page_num = push_bit PAGE_SHIFT page_num"

definition pcd_get_index :: "pcd_state \<Rightarrow> u64 \<Rightarrow> u64" where
  "pcd_get_index s phys_addr =
     (let page_num = phys_to_page phys_addr
      in if page_num < pcd_base_page s then 0
         else let index = page_num - pcd_base_page s
              in if pcd_max_pages s \<le> index then pcd_max_pages s - 1 else index)"

definition pcd_is_managed :: "pcd_state \<Rightarrow> u64 \<Rightarrow> bool" where
  "pcd_is_managed s phys_addr \<longleftrightarrow>
     (let page_num = phys_to_page phys_addr
      in pcd_base_page s \<le> page_num \<and> page_num < pcd_base_page s + pcd_max_pages s)"

definition pcd_set_type :: "pcd_state \<Rightarrow> u64 \<Rightarrow> u8 \<Rightarrow> int \<times> pcd_state" where
  "pcd_set_type s phys_addr t =
     (if \<not> pcd_initialized s then (-1, s)
      else if t > PCD_TYPE_MAX then (-1, s)
      else let phys_addr = page_down phys_addr
           in if \<not> pcd_is_managed s phys_addr then (-1, s)
              else (0, set_page_type s (pcd_get_index s phys_addr) t))"

definition pcd_get_type :: "pcd_state \<Rightarrow> u64 \<Rightarrow> u8" where
  "pcd_get_type s phys_addr =
     (if \<not> pcd_initialized s then PCD_TYPE_NK_NORMAL
      else let phys_addr = page_down phys_addr
           in if \<not> pcd_is_managed s phys_addr then PCD_TYPE_NK_NORMAL
              else pcd_type (pcd_pages s (unat (pcd_get_index s phys_addr))))"

text \<open>The loop of \<open>pcd_mark_region\<close>, \<open>for (page = addr; page < end; page += PAGE_SIZE)\<close>,
  with the page count as a C \<open>int\<close>. It is \<open>None\<close> where the loop does not end.\<close>

partial_function (option) mark_pages ::
    "u64 \<Rightarrow> u8 \<Rightarrow> u64 \<Rightarrow> 32 word \<Rightarrow> pcd_state \<Rightarrow> (32 word \<times> pcd_state) option" where
  "mark_pages end t page count s =
     (if page < end then
        (if pcd_is_managed s page
         then mark_pages end t (page + PAGE_SIZE) (count + 1)
                (set_page_type s (pcd_get_index s page) t)
         else mark_pages end t (page + PAGE_SIZE) count s)
      else Some (count, s))"

definition pcd_mark_region ::
    "pcd_state \<Rightarrow> u64 \<Rightarrow> u64 \<Rightarrow> u8 \<Rightarrow> (32 word \<times> pcd_state) option" where
  "pcd_mark_region s base sz t =
     (if \<not> pcd_initialized s then Some (0, s)
      else let addr = page_up base; end = page_down (base + sz)
           in if end \<le> addr then Some (0, s) else mark_pages end t addr 0 s)"

definition pcd_is_initialized :: "pcd_state \<Rightarrow> bool" where
  "pcd_is_initialized s = pcd_initialized s"

definition pcd_get_max_pages :: "pcd_state \<Rightarrow> u64" where
  "pcd_get_max_pages s = pcd_max_pages s"

text \<open>The counters of \<open>pcd_dump_stats\<close>, indexed by page type.\<close>

definition pcd_dump_stats :: "pcd_state \<Rightarrow> (u8 \<Rightarrow> u64) option" where
  "pcd_dump_stats s =
     (if \<not> pcd_initialized s then None
      else Some (fold (\<lambda>i counts. let t = pcd_type (pcd_pages s i)
                                  in if t \<le> PCD_TYPE_MAX then counts(t := counts t + 1) else counts)
                   [0..<unat (pcd_max_pages s)] (\<lambda>_. 0)))"

section \<open>The table as a function of the page number\<close>

text \<open>
  The table never describes more pages than there are page numbers, and its end does not
  wrap: \<open>pcd_init\<close> sets \<open>base_page\<close> to 0 and \<open>max_pages\<close> to the number of pages.
\<close>

definition pcd_wf :: "pcd_state \<Rightarrow> bool" where
  "pcd_wf s \<longleftrightarrow> unat (pcd_base_page s) + unat (pcd_max_pages s) < 2 ^ 64"

definition managed_page :: "pcd_state \<Rightarrow> nat \<Rightarrow> bool" where
  "managed_page s n \<longleftrightarrow>
     unat (pcd_base_page s) \<le> n \<and> n < unat (pcd_base_page s) + unat (pcd_max_pages s)"

text \<open>The type the table records for page number \<open>n\<close>.\<close>

definition page_type :: "pcd_state \<Rightarrow> nat \<Rightarrow> u8" where
  "page_type s n = pcd_type (pcd_pages s (n - unat (pcd_base_page s)))"

lemma pcd_is_managed_iff: "pcd_wf s \<Longrightarrow> pcd_is_managed s a \<longleftrightarrow> managed_page s (page_no a)"
  by (simp add: pcd_is_managed_def managed_page_def pcd_wf_def phys_to_page_def
      word_le_nat_alt word_less_nat_alt unat_drop_12 unat_plus_no_wrap)

lemma pcd_get_index_managed:
  assumes "managed_page s (page_no a)"
  shows "unat (pcd_get_index s a) = page_no a - unat (pcd_base_page s)"
proof -
  have le: "pcd_base_page s \<le> drop_bit 12 a"
    using assms by (simp add: managed_page_def word_le_nat_alt unat_drop_12)
  then have "unat (drop_bit 12 a - pcd_base_page s) = page_no a - unat (pcd_base_page s)"
    by (simp add: unat_sub unat_drop_12)
  moreover have "\<not> pcd_max_pages s \<le> drop_bit 12 a - pcd_base_page s"
    using assms calculation unfolding word_le_nat_alt managed_page_def by linarith
  ultimately show ?thesis
    using le by (simp add: pcd_get_index_def phys_to_page_def Let_def not_less)
qed

lemma set_page_type_fields [simp]:
  "pcd_array (set_page_type s i t) = pcd_array s"
  "pcd_max_pages (set_page_type s i t) = pcd_max_pages s"
  "pcd_base_page (set_page_type s i t) = pcd_base_page s"
  "pcd_initialized (set_page_type s i t) = pcd_initialized s"
  "pcd_wf (set_page_type s i t) = pcd_wf s"
  "managed_page (set_page_type s i t) = managed_page s"
  by (simp_all add: set_page_type_def pcd_wf_def managed_page_def fun_eq_iff)

lemma page_type_set:
  assumes "managed_page s (page_no a)" "managed_page s n"
  shows "page_type (set_page_type s (pcd_get_index s a) t) n =
     (if n = page_no a then t else page_type s n)"
  using assms pcd_get_index_managed [OF assms(1)]
  by (auto simp: page_type_def set_page_type_def managed_page_def)

lemma pcd_get_type_eq:
  assumes "pcd_wf s" "pcd_initialized s"
  shows "pcd_get_type s a =
     (if managed_page s (page_no a) then page_type s (page_no a) else PCD_TYPE_NK_NORMAL)"
  using assms pcd_get_index_managed [of s "page_down a"]
  by (simp add: pcd_get_type_def pcd_is_managed_iff page_type_def)

lemma pcd_set_type_cases:
  assumes "pcd_wf s"
  shows "pcd_set_type s a t =
     (if pcd_initialized s \<and> t \<le> PCD_TYPE_MAX \<and> managed_page s (page_no a)
      then (0, set_page_type s (pcd_get_index s (page_down a)) t) else (-1, s))"
  using assms by (auto simp: pcd_set_type_def pcd_is_managed_iff not_le Let_def)

lemma pcd_set_type_wf [simp]: "pcd_wf (snd (pcd_set_type s a t)) = pcd_wf s"
  by (simp add: pcd_set_type_def Let_def)

lemma pcd_set_type_internal_wf [simp]: "pcd_wf (pcd_set_type_internal s a t) = pcd_wf s"
  by (simp add: pcd_set_type_internal_def Let_def)

text \<open>The entry point the monitor uses changes the same entry, without the checks on the
  state and on the type.\<close>

lemma pcd_set_type_internal_eq:
  assumes "pcd_wf s"
  shows "pcd_set_type_internal s a t =
     (if managed_page s (page_no a) then set_page_type s (pcd_get_index s a) t else s)"
proof (cases "pcd_base_page s \<le> drop_bit 12 a")
  case True
  then have "unat (drop_bit 12 a - pcd_base_page s) = page_no a - unat (pcd_base_page s)"
    by (simp add: unat_sub unat_drop_12)
  moreover have "unat (pcd_base_page s) \<le> page_no a"
    using True by (simp add: word_le_nat_alt unat_drop_12)
  ultimately show ?thesis
    by (auto simp: pcd_set_type_internal_def pcd_get_index_def phys_to_page_def Let_def
        managed_page_def word_le_nat_alt word_less_nat_alt unat_drop_12)
next
  case False
  then have lt: "page_no a < unat (pcd_base_page s)"
    by (simp add: word_le_nat_alt unat_drop_12)
  have "unat (drop_bit 12 a - pcd_base_page s) = 2 ^ 64 + page_no a - unat (pcd_base_page s)"
    using lt by (simp add: unat_sub_if' unat_drop_12)
  then have "pcd_max_pages s \<le> drop_bit 12 a - pcd_base_page s"
    using assms lt unfolding word_le_nat_alt pcd_wf_def by linarith
  then show ?thesis
    using lt by (simp add: pcd_set_type_internal_def managed_page_def)
qed

section \<open>Marking a region\<close>

lemma page_step:
  assumes "unat page mod 4096 = 0" "unat end mod 4096 = 0" "page < (end::u64)"
  shows "unat (page + PAGE_SIZE) = unat page + 4096" "unat page + 4096 \<le> unat end"
    "page_no (page + PAGE_SIZE) = Suc (page_no page)"
proof -
  have "4096 dvd unat page" "4096 dvd unat end"
    using assms(1,2) by (simp_all add: mod_eq_0_iff_dvd)
  then obtain i j where "unat page = 4096 * i" "unat end = 4096 * j"
    by (auto elim!: dvdE)
  moreover have "unat page < unat end"
    using assms(3) by (simp add: word_less_nat_alt)
  ultimately show le: "unat page + 4096 \<le> unat end"
    by simp
  then have "unat page + 4096 < 2 ^ 64"
    using unat_less_64 [of "end"] by simp
  then show eq: "unat (page + PAGE_SIZE) = unat page + 4096"
    by (simp add: unat_word_ariths)
  show "page_no (page + PAGE_SIZE) = Suc (page_no page)"
    by (simp add: page_no_def eq)
qed

lemma mark_pages_spec:
  assumes "pcd_wf s" "unat page mod 4096 = 0" "unat end mod 4096 = 0"
  shows "\<exists>s'. mark_pages end t page c s =
        Some (c + of_nat (card {n \<in> {page_no page..<page_no end}. managed_page s n}), s') \<and>
      pcd_wf s' \<and> pcd_initialized s' = pcd_initialized s \<and> managed_page s' = managed_page s \<and>
      (\<forall>n. managed_page s n \<longrightarrow>
         page_type s' n = (if n \<in> {page_no page..<page_no end} then t else page_type s n))"
  using assms
proof (induction "unat end - unat page" arbitrary: page c s rule: less_induct)
  case less
  show ?case
  proof (cases "page < end")
    case False
    then have "page_no end \<le> page_no page"
      by (simp add: page_no_def word_less_nat_alt div_le_mono)
    with False less.prems show ?thesis
      by (simp add: mark_pages.simps [of "end" t page c s])
  next
    case True
    note st = page_step [OF less.prems(2,3) True]
    let ?p = "page + PAGE_SIZE"
    have lt: "page_no page < page_no end"
      using div_le_mono [OF st(2), of 4096] by (simp add: page_no_def)
    have range: "{page_no page..<page_no end} = insert (page_no page) {page_no ?p..<page_no end}"
      using lt by (auto simp: st(3))
    have dec: "unat end - unat ?p < unat end - unat page"
      using st(1,2) by simp
    have al: "unat ?p mod 4096 = 0"
      using less.prems(2) by (simp add: st(1))
    show ?thesis
    proof (cases "managed_page s (page_no page)")
      case m: True
      let ?s = "set_page_type s (pcd_get_index s page) t"
      obtain s' where s': "mark_pages end t ?p (c + 1) ?s =
            Some (c + 1 + of_nat (card {n \<in> {page_no ?p..<page_no end}. managed_page s n}), s')"
          "pcd_wf s'" "pcd_initialized s' = pcd_initialized s" "managed_page s' = managed_page s"
          "\<forall>n. managed_page s n \<longrightarrow> page_type s' n =
             (if n \<in> {page_no ?p..<page_no end} then t else page_type ?s n)"
        using less.hyps [OF dec, of ?s "c + 1"] less.prems(1,3) al by auto
      have "{n \<in> {page_no page..<page_no end}. managed_page s n} =
          insert (page_no page) {n \<in> {page_no ?p..<page_no end}. managed_page s n}"
        using m by (auto simp: range)
      then have "card {n \<in> {page_no page..<page_no end}. managed_page s n} =
          Suc (card {n \<in> {page_no ?p..<page_no end}. managed_page s n})"
        by (simp add: st(3))
      with s' m True less.prems(1) show ?thesis
        by (auto simp: mark_pages.simps [of "end" t page c s] pcd_is_managed_iff range
            page_type_set algebra_simps)
    next
      case m: False
      obtain s' where s': "mark_pages end t ?p c s =
            Some (c + of_nat (card {n \<in> {page_no ?p..<page_no end}. managed_page s n}), s')"
          "pcd_wf s'" "pcd_initialized s' = pcd_initialized s" "managed_page s' = managed_page s"
          "\<forall>n. managed_page s n \<longrightarrow> page_type s' n =
             (if n \<in> {page_no ?p..<page_no end} then t else page_type s n)"
        using less.hyps [OF dec, of s c] less.prems(1,3) al by auto
      have "{n \<in> {page_no page..<page_no end}. managed_page s n} =
          {n \<in> {page_no ?p..<page_no end}. managed_page s n}"
        using m by (auto simp: range)
      with s' m True less.prems(1) show ?thesis
        by (auto simp: mark_pages.simps [of "end" t page c s] pcd_is_managed_iff range)
    qed
  qed
qed

text \<open>The pages that lie wholly inside the region of \<open>sz\<close> bytes at \<open>base\<close>.\<close>

definition whole_pages :: "u64 \<Rightarrow> u64 \<Rightarrow> nat set" where
  "whole_pages base sz = {n. unat base \<le> n * 4096 \<and> (n + 1) * 4096 \<le> unat base + unat sz}"

lemma whole_pages_range:
  assumes "unat base + unat sz + 4095 < 2 ^ 64"
  shows "whole_pages base sz = {page_no (page_up base)..<page_no (page_down (base + sz))}"
proof -
  have up: "page_no (page_up base) = (unat base + 4095) div 4096"
    using assms by (simp add: page_no_def unat_page_up)
  have "unat (base + sz) = unat base + unat sz"
    using assms by (simp add: unat_word_ariths)
  then have dn: "page_no (page_down (base + sz)) = (unat base + unat sz) div 4096"
    unfolding page_no_page_down by (simp add: page_no_def)
  have "unat base \<le> n * 4096 \<longleftrightarrow> (unat base + 4095) div 4096 \<le> n" for n
    using div_less_iff_less_mult [of 4096 "unat base + 4095" "Suc n"] by (auto simp: less_Suc_eq_le)
  moreover have "(n + 1) * 4096 \<le> unat base + unat sz \<longleftrightarrow> n < (unat base + unat sz) div 4096" for n
    by (simp add: less_eq_div_iff_mult_less_eq flip: Suc_le_eq)
  ultimately show ?thesis
    unfolding whole_pages_def up dn by auto
qed

section \<open>Properties\<close>

text \<open>A table of 2048 pages, all of type 0.\<close>

definition pcd_example :: pcd_state where
  "pcd_example = \<lparr>pcd_array = 0x3000, pcd_pages = (\<lambda>_. \<lparr>pcd_type = 0, pcd_flags = 0, pcd_reserved = 0\<rparr>),
     pcd_max_pages = 0x800, pcd_base_page = 0, pcd_initialized = True\<rparr>"

lemma pcd_example_wf: "pcd_wf pcd_example" "pcd_initialized pcd_example"
  by (simp_all add: pcd_example_def pcd_wf_def)

text \<open>Setting and getting page types. \<open>pcd_set_type\<close> succeeds exactly when the table is
  initialised, the type is one of the four and the page is managed; a failed call changes
  nothing, and after a successful one every address on the page has the new type and every
  other address the type it had.\<close>

lemma pcd_set_get_type:
  assumes "pcd_wf s" and "pcd_set_type s a t = (r, s')"
  shows "(r = 0 \<longleftrightarrow> pcd_initialized s \<and> t \<le> PCD_TYPE_MAX \<and> managed_page s (page_no a)) \<and>
    (r \<noteq> 0 \<longrightarrow> r = -1 \<and> s' = s) \<and>
    (r = 0 \<longrightarrow> (\<forall>b. pcd_get_type s' b = (if page_no b = page_no a then t else pcd_get_type s b)))"
  using assms by (auto simp: pcd_set_type_cases pcd_get_type_eq page_type_set split: if_splits)

lemma pcd_set_get_type_witness:
  "\<exists>s'. pcd_set_type pcd_example 0x5000 3 = (0, s') \<and> pcd_get_type s' 0x5fff = 3 \<and> pcd_get_type s' 0x6000 = 0"
proof -
  obtain r s' where s': "pcd_set_type pcd_example 0x5000 3 = (r, s')"
    by (cases "pcd_set_type pcd_example 0x5000 3")
  have "pcd_get_type pcd_example 0x6000 = 0" "managed_page pcd_example (page_no 0x5000)"
    by (simp_all add: pcd_get_type_eq [OF pcd_example_wf] managed_page_def page_type_def page_no_def)
       (simp_all add: pcd_example_def)
  then show ?thesis
    using pcd_set_get_type [OF pcd_example_wf(1) s'] s' pcd_example_wf(2)
    by (auto simp: page_no_def)
qed

lemma pcd_mark_region_spec:
  assumes wf: "pcd_wf s" and ini: "pcd_initialized s"
    and nw: "unat base + unat sz + 4095 < 2 ^ 64"
  shows "\<exists>s'. pcd_mark_region s base sz t =
       Some (of_nat (card {n \<in> whole_pages base sz. managed_page s n}), s') \<and>
     (\<forall>a. pcd_get_type s' a =
        (if page_no a \<in> whole_pages base sz \<and> managed_page s (page_no a) then t else pcd_get_type s a)) \<and>
     pcd_wf s' \<and> pcd_initialized s' \<and> managed_page s' = managed_page s"
proof (cases "page_down (base + sz) \<le> page_up base")
  case True
  then have "page_no (page_down (base + sz)) \<le> page_no (page_up base)"
    unfolding page_no_def word_le_nat_alt by (rule div_le_mono)
  then have "whole_pages base sz = {}"
    by (simp only: whole_pages_range [OF nw]) simp
  with True wf ini show ?thesis
    by (simp add: pcd_mark_region_def)
next
  case False
  obtain s' where "mark_pages (page_down (base + sz)) t (page_up base) 0 s =
        Some (of_nat (card {n \<in> whole_pages base sz. managed_page s n}), s')"
      "pcd_wf s'" "pcd_initialized s' = pcd_initialized s" "managed_page s' = managed_page s"
      "\<forall>n. managed_page s n \<longrightarrow>
         page_type s' n = (if n \<in> whole_pages base sz then t else page_type s n)"
    using mark_pages_spec [OF wf, of "page_up base" "page_down (base + sz)" t 0]
    by (auto simp only: whole_pages_range [OF nw] page_up_mod page_down_mod add_0)
  with False wf ini show ?thesis
    by (auto simp: pcd_mark_region_def pcd_get_type_eq)
qed

text \<open>\<open>pcd_mark_region\<close> on an initialised table always returns; it gives the type to the
  managed pages wholly inside the region and to no other page, and returns their number.\<close>

lemma pcd_mark_region_marks:
  assumes wf: "pcd_wf s" and ini: "pcd_initialized s"
    and nw: "unat base + unat sz + 4095 < 2 ^ 64"
  shows "\<exists>s'. pcd_mark_region s base sz t =
       Some (of_nat (card {n \<in> whole_pages base sz. managed_page s n}), s') \<and>
     (\<forall>a. pcd_get_type s' a =
        (if page_no a \<in> whole_pages base sz \<and> managed_page s (page_no a) then t else pcd_get_type s a))"
  using pcd_mark_region_spec [OF assms] by blast

lemma pcd_mark_region_marks_witness:
  "\<exists>s'. pcd_mark_region pcd_example 0x1800 0x3000 2 = Some (2, s') \<and>
     (\<forall>a. pcd_get_type s' a = (if page_no a \<in> {2, 3} then 2 else pcd_get_type pcd_example a))"
proof -
  have w: "whole_pages 0x1800 0x3000 = {2, 3}"
    by (auto simp: whole_pages_def)
  have m: "managed_page pcd_example n \<longleftrightarrow> n < 0x800" for n
    by (simp add: managed_page_def pcd_example_def)
  have "{n \<in> {2, 3 :: nat}. n < 0x800} = {2, 3}"
    by auto
  then have c: "of_nat (card {n \<in> whole_pages 0x1800 0x3000. managed_page pcd_example n}) = (2 :: 32 word)"
    by (simp add: w m)
  show ?thesis
    using pcd_mark_region_marks [OF pcd_example_wf, of "0x1800" "0x3000" 2] unfolding c unfolding w m by auto
qed

end
