(* ===== verification/Pmm.thy ===== *)
theory Pmm
  imports List_Head Pcd
begin

text \<open>
  The physical memory manager, \<^verbatim>\<open>src/kernel/pmm.c\<close> and \<^verbatim>\<open>src/kernel/pmm.h\<close>: a buddy allocator over
  an array of block descriptors that are linked into one free list per order and a list of
  allocated blocks.

  A list node is a head in the state (\<open>FreeHead\<close>, \<open>AllocHead\<close>, \<open>RegionHead\<close>) or the \<open>list\<close>
  field of the descriptor \<open>blocks[i]\<close> (\<open>Blk i\<close>). A descriptor is named by the address of its
  \<open>list\<close> field, which makes \<open>list_entry\<close> the identity. A loop over a list whose links may be
  corrupt is \<open>None\<close> where it does not end. Log output is not modelled, and an operation that
  holds the lock of the state is one atomic step.
\<close>

section \<open>State\<close>

abbreviation MAX_ORDER :: nat where "MAX_ORDER \<equiv> 9"
abbreviation MAX_BLOCK_DESC :: nat where "MAX_BLOCK_DESC \<equiv> 2048"

datatype pmm_node = FreeHead nat | AllocHead | RegionHead | Blk nat

record block_info =
  base_addr :: u64
  blk_order :: nat
  allocated :: bool

record pmm_state =
  pmm_links :: "pmm_node list_store"
  free_count :: "nat \<Rightarrow> u64"
  total_pages :: u64
  free_pages :: u64
  blocks :: "pmm_node \<Rightarrow> block_info"
  block_count :: nat

text \<open>\<open>PAGE_SIZE << order\<close> and the updates of single fields.\<close>

definition block_bytes :: "nat \<Rightarrow> u64" where
  "block_bytes ord = push_bit ord PAGE_SIZE"

definition set_links :: "pmm_state \<Rightarrow> pmm_node list_store \<Rightarrow> pmm_state" where
  "set_links s h = s\<lparr>pmm_links := h\<rparr>"

definition set_block :: "pmm_state \<Rightarrow> pmm_node \<Rightarrow> block_info \<Rightarrow> pmm_state" where
  "set_block s b v = s\<lparr>blocks := (blocks s)(b := v)\<rparr>"

definition add_count :: "pmm_state \<Rightarrow> nat \<Rightarrow> u64 \<Rightarrow> pmm_state" where
  "add_count s ord d = s\<lparr>free_count := (free_count s)(ord := free_count s ord + d)\<rparr>"

definition add_free_pages :: "pmm_state \<Rightarrow> u64 \<Rightarrow> pmm_state" where
  "add_free_pages s d = s\<lparr>free_pages := free_pages s + d\<rparr>"

section \<open>Operations\<close>

definition find_allocated_block :: "pmm_state \<Rightarrow> u64 \<Rightarrow> pmm_node option option" where
  "find_allocated_block s addr =
     list_find (pmm_links s) AllocHead (\<lambda>block. base_addr (blocks s block) = addr)"

definition get_buddy_addr :: "u64 \<Rightarrow> nat \<Rightarrow> u64" where
  "get_buddy_addr addr ord = addr XOR block_bytes ord"

definition alloc_block :: "pmm_state \<Rightarrow> pmm_node option \<times> pmm_state" where
  "alloc_block s =
     (if MAX_BLOCK_DESC \<le> block_count s then (None, s)
      else (Some (Blk (block_count s)), s\<lparr>block_count := block_count s + 1\<rparr>))"

definition add_free_block :: "pmm_state \<Rightarrow> u64 \<Rightarrow> nat \<Rightarrow> pmm_state" where
  "add_free_block s addr ord =
     (case alloc_block s of
        (None, s) \<Rightarrow> s
      | (Some block, s) \<Rightarrow>
          let s = set_block s block \<lparr>base_addr = addr, blk_order = ord, allocated = False\<rparr>;
              s = set_links s (list_init (pmm_links s) block);
              s = set_links s (list_push_back (pmm_links s) (FreeHead ord) block);
              s = add_count s ord 1
          in add_free_pages s (2 ^ ord))"

definition remove_free_block :: "pmm_state \<Rightarrow> nat \<Rightarrow> pmm_node option \<times> pmm_state" where
  "remove_free_block s ord =
     (case list_pop_front (pmm_links s) (FreeHead ord) of
        (None, h) \<Rightarrow> (None, set_links s h)
      | (Some node, h) \<Rightarrow>
          let s = set_links s h;
              s = add_count s ord (-1)
          in (Some node, add_free_pages s (- (2 ^ ord))))"

text \<open>One round of the loop of \<open>split_block\<close>, the loop, and the function.\<close>

definition split_step :: "pmm_state \<Rightarrow> pmm_node \<Rightarrow> pmm_state" where
  "split_step s block =
     (let s = set_links s (list_remove (pmm_links s) block);
          s = add_count s (blk_order (blocks s block)) (-1);
          s = set_block s block ((blocks s block)\<lparr>blk_order := blk_order (blocks s block) - 1\<rparr>);
          buddy_addr = base_addr (blocks s block) + block_bytes (blk_order (blocks s block));
          s = add_free_block s buddy_addr (blk_order (blocks s block));
          s = set_links s (list_push_back (pmm_links s) (FreeHead (blk_order (blocks s block))) block)
      in add_count s (blk_order (blocks s block)) 1)"

lemma split_step_order [simp]:
  "blk_order (blocks (split_step s block) block) = blk_order (blocks s block) - 1"
  by (simp add: split_step_def add_free_block_def alloc_block_def Let_def set_links_def add_count_def
      set_block_def add_free_pages_def)

function split_loop :: "pmm_state \<Rightarrow> pmm_node \<Rightarrow> nat \<Rightarrow> pmm_state" where
  "split_loop s block target_order =
     (if blk_order (blocks s block) > target_order
      then split_loop (split_step s block) block target_order
      else s)"
  by auto
termination
  by (relation "measure (\<lambda>(s, block, t). blk_order (blocks s block))") auto

declare split_loop.simps [simp del]

definition split_block :: "pmm_state \<Rightarrow> pmm_node \<Rightarrow> nat \<Rightarrow> pmm_node \<times> pmm_state" where
  "split_block s block target_order =
     (let s = split_loop s block target_order;
          s = set_links s (list_remove (pmm_links s) block);
          s = add_count s (blk_order (blocks s block)) (-1);
          s = set_block s block ((blocks s block)\<lparr>allocated := True\<rparr>);
          s = set_links s (list_push_back (pmm_links s) AllocHead block)
      in (block, s))"

text \<open>The loop of \<open>find_free_block\<close> over the orders \<open>o\<close> from \<open>order\<close> to \<open>MAX_ORDER\<close>.\<close>

primrec find_free_from :: "pmm_state \<Rightarrow> nat \<Rightarrow> nat list \<Rightarrow> pmm_node option \<times> pmm_state" where
  "find_free_from s ord [] = (None, s)"
| "find_free_from s ord (x # xs) =
     (if \<not> list_empty (pmm_links s) (FreeHead x)
      then (case split_block s (nxt (pmm_links s) (FreeHead x)) ord of (b, s) \<Rightarrow> (Some b, s))
      else find_free_from s ord xs)"

definition find_free_block :: "pmm_state \<Rightarrow> nat \<Rightarrow> pmm_node option \<times> pmm_state" where
  "find_free_block s ord = find_free_from s ord [ord..<MAX_ORDER + 1]"

text \<open>The search of \<open>coalesce_block\<close> in a free list, which gives up after \<open>n\<close> entries.\<close>

primrec search_buddy :: "pmm_state \<Rightarrow> pmm_node \<Rightarrow> u64 \<Rightarrow> nat \<Rightarrow> pmm_node \<Rightarrow> pmm_node option" where
  "search_buddy s head buddy_addr 0 pos = None"
| "search_buddy s head buddy_addr (Suc n) pos =
     (if pos = head then None
      else if base_addr (blocks s pos) = buddy_addr \<and> \<not> allocated (blocks s pos) then Some pos
      else search_buddy s head buddy_addr n (nxt (pmm_links s) pos))"

definition find_buddy :: "pmm_state \<Rightarrow> pmm_node \<Rightarrow> pmm_node option" where
  "find_buddy s block =
     (let head = FreeHead (blk_order (blocks s block))
      in search_buddy s head (get_buddy_addr (base_addr (blocks s block)) (blk_order (blocks s block)))
           1000 (nxt (pmm_links s) head))"

definition merge_buddy :: "pmm_state \<Rightarrow> pmm_node \<Rightarrow> pmm_node \<Rightarrow> pmm_state" where
  "merge_buddy s block buddy =
     (let buddy_addr = get_buddy_addr (base_addr (blocks s block)) (blk_order (blocks s block));
          s = set_links s (list_remove (pmm_links s) buddy);
          s = add_count s (blk_order (blocks s block)) (-1);
          s = (if base_addr (blocks s block) > buddy_addr
               then set_block s block ((blocks s block)\<lparr>base_addr := buddy_addr\<rparr>) else s)
      in set_block s block ((blocks s block)\<lparr>blk_order := blk_order (blocks s block) + 1\<rparr>))"

lemma merge_buddy_order [simp]:
  "blk_order (blocks (merge_buddy s block buddy) block) = blk_order (blocks s block) + 1"
  by (simp add: merge_buddy_def Let_def set_links_def add_count_def set_block_def)

function coalesce_loop :: "pmm_state \<Rightarrow> pmm_node \<Rightarrow> pmm_state" where
  "coalesce_loop s block =
     (if blk_order (blocks s block) < MAX_ORDER
      then (case find_buddy s block of
              None \<Rightarrow> s
            | Some buddy \<Rightarrow> coalesce_loop (merge_buddy s block buddy) block)
      else s)"
  by auto
termination
  by (relation "measure (\<lambda>(s, block). MAX_ORDER - blk_order (blocks s block))") auto

declare coalesce_loop.simps [simp del]

definition coalesce_block :: "pmm_state \<Rightarrow> pmm_node \<Rightarrow> pmm_state" where
  "coalesce_block s block =
     (let s = coalesce_loop s block;
          s = set_block s block ((blocks s block)\<lparr>allocated := False\<rparr>);
          s = set_links s (list_push_back (pmm_links s) (FreeHead (blk_order (blocks s block))) block);
          s = add_count s (blk_order (blocks s block)) 1
      in add_free_pages s (2 ^ blk_order (blocks s block)))"

text \<open>
  \<open>pmm_add_region\<close>. The inner loop looks for the largest order above 0 that fits in what
  remains and to which the address is aligned; \<open>order\<close> is 0 after it where there is none.
\<close>

definition order_fits :: "u64 \<Rightarrow> u64 \<Rightarrow> nat \<Rightarrow> bool" where
  "order_fits addr remaining ord \<longleftrightarrow>
     block_bytes ord \<le> remaining \<and> addr AND (block_bytes ord - 1) = 0"

lemma unat_block_bytes: "ord \<le> MAX_ORDER \<Longrightarrow> unat (block_bytes ord) = 4096 * 2 ^ ord"
  using unat_pow2 [of "12 + ord", where 'a = 64]
  by (simp add: block_bytes_def push_bit_eq_mult power_add mult.commute)

lemma block_bytes_step:
  assumes "ord \<le> MAX_ORDER" "block_bytes ord \<le> end - addr"
  shows "unat (end - (addr + block_bytes ord)) = unat (end - addr) - 4096 * 2 ^ ord"
    and "unat (end - (addr + block_bytes ord)) < unat (end - addr)"
proof -
  have "unat (end - addr - block_bytes ord) = unat (end - addr) - 4096 * 2 ^ ord"
    using assms by (simp add: unat_sub unat_block_bytes)
  then show eq: "unat (end - (addr + block_bytes ord)) = unat (end - addr) - 4096 * 2 ^ ord"
    by (simp only: diff_diff_eq)
  have "0 < (4096 * 2 ^ ord :: nat)"
    by simp
  moreover have "4096 * 2 ^ ord \<le> unat (end - addr)"
    using assms by (simp add: word_le_nat_alt unat_block_bytes)
  ultimately show "unat (end - (addr + block_bytes ord)) < unat (end - addr)"
    unfolding eq by linarith
qed

function add_region_loop :: "pmm_state \<Rightarrow> u64 \<Rightarrow> u64 \<Rightarrow> pmm_state" where
  "add_region_loop s addr end =
     (if addr < end then
        let remaining = end - addr
        in case find (order_fits addr remaining) (rev [1..<MAX_ORDER + 1]) of
             Some ord \<Rightarrow> add_region_loop (add_free_block s addr ord) (addr + block_bytes ord) end
           | None \<Rightarrow>
               if PAGE_SIZE \<le> remaining
               then add_region_loop (add_free_block s addr 0) (addr + PAGE_SIZE) end
               else s
      else s)"
  by auto
termination
proof (relation "measure (\<lambda>(s, addr, end). unat (end - addr))", simp)
  fix s :: pmm_state and addr "end" remaining :: u64 and ord
  assume "remaining = end - addr" "find (order_fits addr remaining) (rev [1..<MAX_ORDER + 1]) = Some ord"
  then have "ord \<le> MAX_ORDER" "block_bytes ord \<le> end - addr"
    by (auto simp: find_Some_iff order_fits_def rev_nth)
  then show "((add_free_block s addr ord, addr + block_bytes ord, end), s, addr, end)
      \<in> measure (\<lambda>(s, addr, end). unat (end - addr))"
    using block_bytes_step(2) by simp
next
  fix s :: pmm_state and addr "end" remaining :: u64
  assume "remaining = end - addr" "PAGE_SIZE \<le> remaining"
  then show "((add_free_block s addr 0, addr + PAGE_SIZE, end), s, addr, end)
      \<in> measure (\<lambda>(s, addr, end). unat (end - addr))"
    using block_bytes_step(2) [of 0 "end" addr] by (simp add: block_bytes_def)
qed

declare add_region_loop.simps [simp del]

definition pmm_add_region :: "pmm_state \<Rightarrow> u64 \<Rightarrow> u64 \<Rightarrow> pmm_state" where
  "pmm_add_region s base sz =
     (let base = page_up base; sz = page_down sz
      in if sz < PAGE_SIZE then s
         else let s = add_region_loop s base (base + sz)
              in s\<lparr>total_pages := total_pages s + sz div PAGE_SIZE\<rparr>)"

text \<open>
  \<open>pmm_reserve_region\<close>: giving back the part of a block before or after the reserved
  region, the \<open>list_for_each_safe\<close> loop over one free list (\<open>n\<close> is the macro's
  look-ahead pointer), and the loop over the orders.
\<close>

partial_function (option) readd_blocks ::
    "nat \<Rightarrow> u64 \<Rightarrow> u64 \<Rightarrow> pmm_state \<Rightarrow> pmm_state option" where
  "readd_blocks ord addr sz s =
     (if PAGE_SIZE \<le> sz then
        (case find (order_fits addr sz) [0..<ord + 1] of
           Some ob \<Rightarrow> readd_blocks ord (addr + block_bytes ob) (sz - block_bytes ob) (add_free_block s addr ob)
         | None \<Rightarrow> readd_blocks ord addr sz s)
      else Some s)"

definition reserve_block :: "nat \<Rightarrow> u64 \<Rightarrow> u64 \<Rightarrow> pmm_node \<Rightarrow> pmm_state \<Rightarrow> pmm_state option" where
  "reserve_block ord addr end pos s =
     (let block_start = base_addr (blocks s pos);
          block_end = block_start + block_bytes ord
      in if addr < block_end \<and> block_start < end then
           let s = set_links s (list_remove (pmm_links s) pos);
               s = add_count s ord (-1);
               s = add_free_pages s (- (2 ^ ord))
           in Option.bind
                (if block_start < addr then readd_blocks ord block_start (addr - block_start) s
                 else Some s)
                (\<lambda>s. if end < block_end then readd_blocks ord end (block_end - end) s else Some s)
         else Some s)"

partial_function (option) reserve_list ::
    "nat \<Rightarrow> u64 \<Rightarrow> u64 \<Rightarrow> pmm_node \<Rightarrow> pmm_node \<Rightarrow> pmm_state \<Rightarrow> pmm_state option" where
  "reserve_list ord addr end pos n s =
     (if pos = FreeHead ord then Some s
      else Option.bind (reserve_block ord addr end pos s)
             (\<lambda>s. reserve_list ord addr end n (nxt (pmm_links s) n) s))"

primrec reserve_orders :: "u64 \<Rightarrow> u64 \<Rightarrow> nat list \<Rightarrow> pmm_state \<Rightarrow> pmm_state option" where
  "reserve_orders addr end [] s = Some s"
| "reserve_orders addr end (ord # ords) s =
     (let pos = nxt (pmm_links s) (FreeHead ord)
      in Option.bind (reserve_list ord addr end pos (nxt (pmm_links s) pos) s)
           (reserve_orders addr end ords))"

definition pmm_reserve_region :: "pmm_state \<Rightarrow> u64 \<Rightarrow> u64 \<Rightarrow> pmm_state option" where
  "pmm_reserve_region s base sz =
     (let addr = page_up base; end = page_down (base + sz)
      in if end \<le> addr then Some s else reserve_orders addr end [0..<MAX_ORDER + 1] s)"

text \<open>The allocator and the page type table, which \<open>pmm_alloc\<close> keeps in step.\<close>

record phys_state =
  pmm :: pmm_state
  pcd :: pcd_state

definition init_page_types :: "pcd_state \<Rightarrow> u64 \<Rightarrow> nat \<Rightarrow> pcd_state" where
  "init_page_types s base ord =
     fold (\<lambda>i s. snd (pcd_set_type s (base + push_bit PAGE_SHIFT (of_nat i)) PCD_TYPE_NK_NORMAL))
       [0..<2 ^ ord] s"

definition pmm_alloc :: "phys_state \<Rightarrow> nat \<Rightarrow> u64 \<times> phys_state" where
  "pmm_alloc m ord =
     (if ord > MAX_ORDER then (0, m)
      else case find_free_block (pmm m) ord of
             (None, s) \<Rightarrow> (0, m\<lparr>pmm := s\<rparr>)
           | (Some block, s) \<Rightarrow>
               let base = base_addr (blocks s block)
               in (base,
                   m\<lparr>pmm := s,
                     pcd := (if pcd_is_initialized (pcd m) then init_page_types (pcd m) base ord
                             else pcd m)\<rparr>))"

definition pmm_free :: "pmm_state \<Rightarrow> u64 \<Rightarrow> nat \<Rightarrow> pmm_state option" where
  "pmm_free s addr ord =
     (if ord > MAX_ORDER then Some s
      else Option.bind (find_allocated_block s addr) (\<lambda>r.
             case r of
               None \<Rightarrow> Some s
             | Some block \<Rightarrow>
                 let s = set_links s (list_remove (pmm_links s) block)
                 in Some (coalesce_block s block)))"

definition pmm_get_free_pages :: "pmm_state \<Rightarrow> u64" where
  "pmm_get_free_pages s = free_pages s"

definition pmm_get_total_pages :: "pmm_state \<Rightarrow> u64" where
  "pmm_get_total_pages s = total_pages s"

text \<open>The initialisation of the state at the start of \<open>pmm_init\<close>.\<close>

definition pmm_reset :: "pmm_state \<Rightarrow> pmm_state" where
  "pmm_reset s =
     (let h = fold (\<lambda>i h. list_init h (FreeHead i)) [0..<MAX_ORDER + 1] (pmm_links s);
          h = list_init h AllocHead;
          h = list_init h RegionHead
      in s\<lparr>pmm_links := h,
           free_count := (\<lambda>i. if i \<le> MAX_ORDER then 0 else free_count s i),
           total_pages := 0, free_pages := 0, block_count := 0\<rparr>)"

end
