(* ===== verification/Pmm_Inv.thy ===== *)
theory Pmm_Inv
  imports Pmm
begin

text \<open>
  The invariant of the physical memory manager and its preservation by the steps the
  operations are made of: taking a descriptor off a list, changing a descriptor that is on
  no list, putting one on a list, and adding a fresh block.
\<close>

section \<open>The invariant\<close>

definition heads :: "pmm_node set" where
  "heads = insert AllocHead (FreeHead ` {..MAX_ORDER})"

text \<open>The page frames of a block, and that its address is a multiple of its size.\<close>

definition frames :: "u64 \<Rightarrow> nat \<Rightarrow> nat set" where
  "frames a ord = {page_no a..<page_no a + 2 ^ ord}"

definition aligned :: "u64 \<Rightarrow> nat \<Rightarrow> bool" where
  "aligned a ord \<longleftrightarrow> 4096 * 2 ^ ord dvd unat a"

abbreviation blk_frames :: "block_info \<Rightarrow> nat set" where
  "blk_frames v \<equiv> frames (base_addr v) (blk_order v)"

text \<open>The blocks on the lists of a family \<open>L\<close>, and what a list demands of its blocks.\<close>

definition live :: "(pmm_node \<Rightarrow> pmm_node list) \<Rightarrow> pmm_node set" where
  "live L = (\<Union>p\<in>heads. set (L p))"

definition free_blks :: "(pmm_node \<Rightarrow> pmm_node list) \<Rightarrow> pmm_node set" where
  "free_blks L = (\<Union>ord\<le>MAX_ORDER. set (L (FreeHead ord)))"

fun fits :: "pmm_node \<Rightarrow> block_info \<Rightarrow> bool" where
  "fits (FreeHead ord) v \<longleftrightarrow> blk_order v = ord \<and> \<not> allocated v"
| "fits AllocHead v \<longleftrightarrow> allocated v"
| "fits _ v \<longleftrightarrow> False"

definition rep :: "pmm_state \<Rightarrow> (pmm_node \<Rightarrow> pmm_node list) \<Rightarrow> bool" where
  "rep s L \<longleftrightarrow> rings (pmm_links s) heads L \<and> block_count s \<le> MAX_BLOCK_DESC \<and>
     (\<forall>b\<in>live L. \<exists>i<block_count s. b = Blk i) \<and>
     (\<forall>b\<in>live L. blk_order (blocks s b) \<le> MAX_ORDER \<and>
        aligned (base_addr (blocks s b)) (blk_order (blocks s b))) \<and>
     (\<forall>p\<in>heads. \<forall>b\<in>set (L p). fits p (blocks s b)) \<and>
     (\<forall>b\<in>live L. \<forall>c\<in>live L. b \<noteq> c \<longrightarrow> blk_frames (blocks s b) \<inter> blk_frames (blocks s c) = {})"

definition counts :: "pmm_state \<Rightarrow> (pmm_node \<Rightarrow> pmm_node list) \<Rightarrow> bool" where
  "counts s L \<longleftrightarrow> (\<forall>ord\<le>MAX_ORDER. free_count s ord = of_nat (length (L (FreeHead ord))))"

text \<open>The lists are read off the state, so the invariant is a predicate on states.\<close>

definition blocks_on :: "pmm_state \<Rightarrow> pmm_node \<Rightarrow> pmm_node list" where
  "blocks_on s p = (case list_for_each (pmm_links s) p of Some xs \<Rightarrow> xs | None \<Rightarrow> [])"

definition pmm_inv :: "pmm_state \<Rightarrow> bool" where
  "pmm_inv s \<longleftrightarrow> rep s (blocks_on s) \<and> counts s (blocks_on s)"

text \<open>The abstract state: the free page frames, and the blocks handed out.\<close>

definition free_frames_of :: "pmm_state \<Rightarrow> (pmm_node \<Rightarrow> pmm_node list) \<Rightarrow> nat set" where
  "free_frames_of s L = (\<Union>b\<in>free_blks L. blk_frames (blocks s b))"

definition allocs_of :: "pmm_state \<Rightarrow> (pmm_node \<Rightarrow> pmm_node list) \<Rightarrow> (u64 \<times> nat) set" where
  "allocs_of s L = (\<lambda>b. (base_addr (blocks s b), blk_order (blocks s b))) ` set (L AllocHead)"

definition free_frames :: "pmm_state \<Rightarrow> nat set" where
  "free_frames s = free_frames_of s (blocks_on s)"

definition allocs :: "pmm_state \<Rightarrow> (u64 \<times> nat) set" where
  "allocs s = allocs_of s (blocks_on s)"

section \<open>Reading the lists\<close>

lemma heads_simps [simp]:
  "AllocHead \<in> heads" "FreeHead ord \<in> heads \<longleftrightarrow> ord \<le> MAX_ORDER" "Blk i \<notin> heads" "RegionHead \<notin> heads"
  by (auto simp: heads_def)

lemma live_alt: "live L = free_blks L \<union> set (L AllocHead)"
  by (auto simp: live_def free_blks_def heads_def)

lemma rep_rings: "rep s L \<Longrightarrow> rings (pmm_links s) heads L"
  by (simp add: rep_def)

lemma rep_ring: "rep s L \<Longrightarrow> p \<in> heads \<Longrightarrow> ring (pmm_links s) p (L p)"
  by (rule rings_ring [OF rep_rings])

lemma rep_distinct: "rep s L \<Longrightarrow> p \<in> heads \<Longrightarrow> distinct (L p)"
  using ring_distinct [OF rep_ring] by blast

lemma rep_blocks_on: "rep s L \<Longrightarrow> p \<in> heads \<Longrightarrow> blocks_on s p = L p"
  using ring_for_each [OF rep_ring] by (simp add: blocks_on_def)

lemma heads_cong:
  assumes "\<And>p. p \<in> heads \<Longrightarrow> L p = M p"
  shows "live L = live M" "free_blks L = free_blks M" "free_frames_of s L = free_frames_of s M"
    "allocs_of s L = allocs_of s M" "counts s L = counts s M" "rep s L = rep s M"
proof -
  show l: "live L = live M" and f: "free_blks L = free_blks M"
    using assms by (auto simp: live_def free_blks_def)
  then show "free_frames_of s L = free_frames_of s M" "allocs_of s L = allocs_of s M"
    "counts s L = counts s M"
    using assms by (simp_all add: free_frames_of_def allocs_of_def counts_def)
  have "rings h heads L = rings h heads M" for h
    using assms by (simp add: rings_def cells_def)
  then show "rep s L = rep s M"
    using assms by (simp add: rep_def l)
qed

lemma rep_abs:
  assumes "rep s L"
  shows "free_frames s = free_frames_of s L" "allocs s = allocs_of s L"
    "pmm_inv s \<longleftrightarrow> counts s L"
proof -
  have eq: "blocks_on s p = L p" if "p \<in> heads" for p
    using assms that by (rule rep_blocks_on)
  show "free_frames s = free_frames_of s L" "allocs s = allocs_of s L"
    using heads_cong(3,4) [OF eq] by (simp_all add: free_frames_def allocs_def)
  show "pmm_inv s \<longleftrightarrow> counts s L"
    using heads_cong(5,6) [OF eq] assms by (simp add: pmm_inv_def)
qed

lemma rep_pmm_inv: "rep s L \<Longrightarrow> counts s L \<Longrightarrow> pmm_inv s"
  by (simp add: rep_abs(3))

lemma pmm_invE:
  assumes "pmm_inv s"
  obtains L where "rep s L" "counts s L"
  using assms by (auto simp: pmm_inv_def)

lemma in_rings_heads: "in_rings heads L = heads \<union> live L"
  by (auto simp: in_rings_def cells_def live_def)

section \<open>The steps\<close>

lemma pmm_state_simps [simp]:
  "pmm_links (set_links s h) = h" "blocks (set_links s h) = blocks s"
  "free_count (set_links s h) = free_count s" "block_count (set_links s h) = block_count s"
  "free_pages (set_links s h) = free_pages s" "total_pages (set_links s h) = total_pages s"
  "pmm_links (set_block s b v) = pmm_links s" "blocks (set_block s b v) = (blocks s)(b := v)"
  "free_count (set_block s b v) = free_count s" "block_count (set_block s b v) = block_count s"
  "free_pages (set_block s b v) = free_pages s" "total_pages (set_block s b v) = total_pages s"
  "pmm_links (add_count s ord d) = pmm_links s" "blocks (add_count s ord d) = blocks s"
  "free_count (add_count s ord d) = (free_count s)(ord := free_count s ord + d)"
  "block_count (add_count s ord d) = block_count s"
  "free_pages (add_count s ord d) = free_pages s" "total_pages (add_count s ord d) = total_pages s"
  "pmm_links (add_free_pages s d) = pmm_links s" "blocks (add_free_pages s d) = blocks s"
  "free_count (add_free_pages s d) = free_count s" "block_count (add_free_pages s d) = block_count s"
  "free_pages (add_free_pages s d) = free_pages s + d"
  "total_pages (add_free_pages s d) = total_pages s"
  by (simp_all add: set_links_def set_block_def add_count_def add_free_pages_def)

lemma rep_cong:
  assumes "rep s L" "pmm_links t = pmm_links s" "blocks t = blocks s" "block_count t = block_count s"
  shows "rep t L"
  using assms by (simp add: rep_def)

lemma rep_counters [simp]:
  "rep (add_count s ord d) L = rep s L" "rep (add_free_pages s d) L = rep s L"
  by (simp_all add: rep_def)

lemma live_remove:
  assumes "rep s L" "p \<in> heads" "b \<in> set (L p)"
  shows "live (L(p := remove1 b (L p))) = live L - {b}"
proof -
  have "distinct (L p)"
    using assms(1,2) by (rule rep_distinct)
  moreover have "b \<notin> set (L q)" if "q \<in> heads" "q \<noteq> p" for q
    using rings_disjoint [OF rep_rings [OF assms(1)] that(1) assms(2) that(2)] assms(3)
    by (auto simp: cells_def)
  ultimately show ?thesis
    using assms(2) by (auto simp: live_def split: if_splits)
qed

lemma live_add: "p \<in> heads \<Longrightarrow> live (L(p := L p @ [b])) = insert b (live L)"
  by (auto simp: live_def split: if_splits)

lemma rep_detach:
  assumes "rep s L" "p \<in> heads" "b \<in> set (L p)"
  shows "rep (set_links s (list_remove (pmm_links s) b)) (L(p := remove1 b (L p)))"
proof -
  have "rings (list_remove (pmm_links s) b) heads (L(p := remove1 b (L p)))"
    by (rule rings_remove) (use assms in \<open>simp_all add: rep_def\<close>)
  moreover have "set (remove1 b (L p)) \<subseteq> set (L p)"
    by (rule set_remove1_subset)
  ultimately show ?thesis
    using assms unfolding rep_def live_remove [OF assms] by auto
qed

lemma rep_set_block: "rep s L \<Longrightarrow> b \<notin> live L \<Longrightarrow> rep (set_block s b v) L"
  unfolding rep_def live_def by (auto simp: fun_upd_def)

lemma rep_attach:
  assumes rep: "rep s L" and p: "p \<in> heads" and b: "b \<notin> live L" "b = Blk i" "i < block_count s"
    and v: "fits p (blocks s b)" "blk_order (blocks s b) \<le> MAX_ORDER"
      "aligned (base_addr (blocks s b)) (blk_order (blocks s b))"
    and dis: "\<And>c. c \<in> live L \<Longrightarrow> blk_frames (blocks s b) \<inter> blk_frames (blocks s c) = {}"
  shows "rep (set_links s (list_push_back (pmm_links s) p b)) (L(p := L p @ [b]))"
proof -
  have "rings (list_push_back (pmm_links s) p b) heads (L(p := L p @ [b]))"
    by (rule rings_push_back) (use rep p b in \<open>simp_all add: rep_def in_rings_heads\<close>)
  moreover have "blk_frames (blocks s c) \<inter> blk_frames (blocks s b) = {}" if "c \<in> live L" for c
    using dis [OF that] by blast
  ultimately show ?thesis
    using rep p b v dis unfolding rep_def live_add [OF p] by auto
qed

lemma free_blks_add: "ord \<le> MAX_ORDER \<Longrightarrow> free_blks (L(FreeHead ord := L (FreeHead ord) @ [b])) = insert b (free_blks L)"
  by (auto simp: free_blks_def split: if_splits)

lemma free_blks_alloc [simp]: "free_blks (L(AllocHead := xs)) = free_blks L"
  by (simp add: free_blks_def)

lemma rep_fits: "rep s L \<Longrightarrow> p \<in> heads \<Longrightarrow> b \<in> set (L p) \<Longrightarrow> fits p (blocks s b)"
  by (simp add: rep_def)

lemma rep_free_blks: "rep s L \<Longrightarrow> b \<in> free_blks L \<Longrightarrow> \<not> allocated (blocks s b)"
  using rep_fits [of s L "FreeHead _" b] by (auto simp: free_blks_def)

lemma rep_alloc_blks: "rep s L \<Longrightarrow> b \<in> set (L AllocHead) \<Longrightarrow> allocated (blocks s b)"
  using rep_fits [of s L AllocHead b] by simp

lemma free_blks_live: "rep s L \<Longrightarrow> free_blks L = {b \<in> live L. \<not> allocated (blocks s b)}"
  using rep_free_blks rep_alloc_blks by (auto simp: live_alt)

lemma alloc_blks_live: "rep s L \<Longrightarrow> set (L AllocHead) = {b \<in> live L. allocated (blocks s b)}"
  using rep_free_blks rep_alloc_blks by (auto simp: live_alt)

lemma free_blks_remove:
  assumes "rep s L" "ord \<le> MAX_ORDER" "b \<in> set (L (FreeHead ord))"
  shows "free_blks (L(FreeHead ord := remove1 b (L (FreeHead ord)))) = free_blks L - {b}"
proof -
  have p: "FreeHead ord \<in> heads"
    using assms(2) by simp
  show ?thesis
    using free_blks_live [OF rep_detach [OF assms(1) p assms(3)]] free_blks_live [OF assms(1)]
    unfolding live_remove [OF assms(1) p assms(3)] by auto
qed

text \<open>The invariant with the lists named, and the steps with the counters the code keeps.\<close>

definition inv_at :: "pmm_state \<Rightarrow> (pmm_node \<Rightarrow> pmm_node list) \<Rightarrow> bool" where
  "inv_at s L \<longleftrightarrow> rep s L \<and> counts s L"

lemma inv_at_pmm_inv: "inv_at s L \<Longrightarrow> pmm_inv s"
  by (auto simp: inv_at_def rep_pmm_inv)

lemma pmm_inv_at: "pmm_inv s \<Longrightarrow> inv_at s (blocks_on s)"
  by (simp add: inv_at_def pmm_inv_def)

lemma inv_at_rep: "inv_at s L \<Longrightarrow> rep s L"
  by (simp add: inv_at_def)

lemma inv_at_live:
  assumes "inv_at s L" "b \<in> live L"
  shows "blk_order (blocks s b) \<le> MAX_ORDER" "aligned (base_addr (blocks s b)) (blk_order (blocks s b))"
    and "\<exists>i<block_count s. b = Blk i"
  using assms by (auto simp: inv_at_def rep_def)

lemma inv_at_free:
  assumes "inv_at s L" "ord \<le> MAX_ORDER" "b \<in> set (L (FreeHead ord))"
  shows "blk_order (blocks s b) = ord" "\<not> allocated (blocks s b)" "b \<in> live L" "b \<in> free_blks L"
proof -
  have "fits (FreeHead ord) (blocks s b)"
    using assms by (intro rep_fits [OF inv_at_rep]) simp_all
  then show "blk_order (blocks s b) = ord" "\<not> allocated (blocks s b)"
    by simp_all
  show "b \<in> live L" "b \<in> free_blks L"
    using assms(2,3) by (auto simp: live_def free_blks_def)
qed

lemma inv_at_disjoint:
  "inv_at s L \<Longrightarrow> b \<in> live L \<Longrightarrow> c \<in> live L \<Longrightarrow> b \<noteq> c \<Longrightarrow>
   blk_frames (blocks s b) \<inter> blk_frames (blocks s c) = {}"
  by (simp add: inv_at_def rep_def)

lemma inv_at_detach_free:
  assumes "inv_at s L" "ord \<le> MAX_ORDER" "b \<in> set (L (FreeHead ord))"
  shows "inv_at (add_count (set_links s (list_remove (pmm_links s) b)) ord (-1))
           (L(FreeHead ord := remove1 b (L (FreeHead ord))))"
proof -
  let ?xs = "L (FreeHead ord)"
  have "of_nat (length (remove1 b ?xs)) = of_nat (length ?xs) + (-1 :: u64)"
    using assms(3) by (cases "length ?xs") (simp_all add: length_remove1)
  moreover have "rep (set_links s (list_remove (pmm_links s) b)) (L(FreeHead ord := remove1 b ?xs))"
    using assms by (intro rep_detach inv_at_rep) simp_all
  ultimately show ?thesis
    using assms(1,2) by (simp add: inv_at_def counts_def)
qed

lemma inv_at_detach_alloc:
  assumes "inv_at s L" "b \<in> set (L AllocHead)"
  shows "inv_at (set_links s (list_remove (pmm_links s) b)) (L(AllocHead := remove1 b (L AllocHead)))"
  using assms rep_detach [of s L AllocHead b] by (simp add: inv_at_def counts_def)

lemma inv_at_set_block: "inv_at s L \<Longrightarrow> b \<notin> live L \<Longrightarrow> inv_at (set_block s b v) L"
  by (simp add: inv_at_def rep_set_block counts_def)

lemma inv_at_attach_free:
  assumes "inv_at s L" "b \<notin> live L" "b = Blk i" "i < block_count s" "blk_order (blocks s b) \<le> MAX_ORDER"
    and "\<not> allocated (blocks s b)" "aligned (base_addr (blocks s b)) (blk_order (blocks s b))"
    and "\<And>c. c \<in> live L \<Longrightarrow> blk_frames (blocks s b) \<inter> blk_frames (blocks s c) = {}"
    and "ord = blk_order (blocks s b)"
  shows "inv_at (add_count (set_links s (list_push_back (pmm_links s) (FreeHead ord) b)) ord 1)
           (L(FreeHead ord := L (FreeHead ord) @ [b]))"
proof -
  have "rep (set_links s (list_push_back (pmm_links s) (FreeHead ord) b)) (L(FreeHead ord := L (FreeHead ord) @ [b]))"
    by (rule rep_attach [OF inv_at_rep]) (use assms in simp_all)
  then show ?thesis
    using assms(1) by (simp add: inv_at_def counts_def)
qed

lemma inv_at_attach_alloc:
  assumes "inv_at s L" "b \<notin> live L" "b = Blk i" "i < block_count s" "blk_order (blocks s b) \<le> MAX_ORDER"
    and "allocated (blocks s b)" "aligned (base_addr (blocks s b)) (blk_order (blocks s b))"
    and "\<And>c. c \<in> live L \<Longrightarrow> blk_frames (blocks s b) \<inter> blk_frames (blocks s c) = {}"
  shows "inv_at (set_links s (list_push_back (pmm_links s) AllocHead b)) (L(AllocHead := L AllocHead @ [b]))"
proof -
  have "rep (set_links s (list_push_back (pmm_links s) (AllocHead) b)) (L(AllocHead := L (AllocHead) @ [b]))"
    by (rule rep_attach [OF inv_at_rep]) (use assms in simp_all)
  then show ?thesis
    using assms(1) by (simp add: inv_at_def counts_def)
qed

lemma inv_at_free_pages [simp]: "inv_at (add_free_pages s d) L = inv_at s L"
  by (simp add: inv_at_def counts_def)

text \<open>What the steps do to the free frames.\<close>

lemma free_frames_cong:
  "(\<And>c. c \<in> free_blks L \<Longrightarrow> blocks t c = blocks s c) \<Longrightarrow> free_frames_of t L = free_frames_of s L"
  by (simp add: free_frames_of_def)

lemma free_frames_attach:
  "ord \<le> MAX_ORDER \<Longrightarrow>
   free_frames_of s (L(FreeHead ord := L (FreeHead ord) @ [b])) = blk_frames (blocks s b) \<union> free_frames_of s L"
  by (simp add: free_frames_of_def free_blks_add)

lemma free_frames_detach:
  assumes "inv_at s L" "ord \<le> MAX_ORDER" "b \<in> set (L (FreeHead ord))"
  shows "free_frames_of s (L(FreeHead ord := remove1 b (L (FreeHead ord)))) =
    free_frames_of s L - blk_frames (blocks s b)"
proof -
  note bf = inv_at_free [OF assms]
  have "blk_frames (blocks s c) \<inter> blk_frames (blocks s b) = {}" if "c \<in> free_blks L - {b}" for c
    by (rule inv_at_disjoint [OF assms(1)]) (use that bf in \<open>auto simp: live_alt\<close>)
  then show ?thesis
    unfolding free_frames_of_def free_blks_remove [OF inv_at_rep [OF assms(1)] assms(2,3)]
    using bf(4) by blast
qed

text \<open>A block taken off its free list with its count, and its descriptor changed.\<close>

lemma detach_free:
  assumes inv: "inv_at s L" and ord: "ord \<le> MAX_ORDER" and b: "b \<in> set (L (FreeHead ord))"
    and s': "s' = set_block (add_count (set_links s (list_remove (pmm_links s) b)) ord (-1)) b v"
    and L': "L' = L(FreeHead ord := remove1 b (L (FreeHead ord)))"
  shows "inv_at s' L'" "live L' = live L - {b}" "L' AllocHead = L AllocHead"
    "free_frames_of s' L' = free_frames_of s L - blk_frames (blocks s b)"
    "\<And>c. c \<in> live L' \<Longrightarrow> blk_frames (blocks s b) \<inter> blk_frames (blocks s' c) = {}"
    "blocks s' = (blocks s)(b := v)" "block_count s' = block_count s"
proof -
  note bf = inv_at_free [OF inv ord b]
  show live: "live L' = live L - {b}"
    unfolding L' by (rule live_remove [OF inv_at_rep [OF inv]]) (use ord b in simp_all)
  show "inv_at s' L'"
    unfolding s' by (rule inv_at_set_block) (use inv_at_detach_free [OF inv ord b] live in \<open>simp_all add: L'\<close>)
  show bl: "blocks s' = (blocks s)(b := v)" and "block_count s' = block_count s" "L' AllocHead = L AllocHead"
    by (simp_all add: s' L')
  show "blk_frames (blocks s b) \<inter> blk_frames (blocks s' c) = {}" if "c \<in> live L'" for c
    using inv_at_disjoint [OF inv bf(3), of c] that by (auto simp: live bl)
  have "free_frames_of s' L' = free_frames_of s L'"
    by (rule free_frames_cong) (use live in \<open>auto simp: bl live_alt\<close>)
  then show "free_frames_of s' L' = free_frames_of s L - blk_frames (blocks s b)"
    by (simp add: L' free_frames_detach [OF inv ord b])
qed

section \<open>Fresh blocks\<close>

lemma add_free_block_full: "MAX_BLOCK_DESC \<le> block_count s \<Longrightarrow> add_free_block s a ord = s"
  by (simp add: add_free_block_def alloc_block_def)

lemma add_free_block_fields:
  assumes "block_count s < MAX_BLOCK_DESC"
  shows "blocks (add_free_block s a ord) =
      (blocks s)(Blk (block_count s) := \<lparr>base_addr = a, blk_order = ord, allocated = False\<rparr>)"
    "block_count (add_free_block s a ord) = Suc (block_count s)"
    "free_pages (add_free_block s a ord) = free_pages s + 2 ^ ord"
  using assms by (simp_all add: add_free_block_def alloc_block_def Let_def)

lemma add_free_block_other: "c \<noteq> Blk (block_count s) \<Longrightarrow> blocks (add_free_block s a ord) c = blocks s c"
  by (cases "block_count s < MAX_BLOCK_DESC") (simp_all add: add_free_block_fields add_free_block_full)

lemma add_free_block_count: "block_count s \<le> block_count (add_free_block s a ord)"
  by (cases "block_count s < MAX_BLOCK_DESC") (simp_all add: add_free_block_fields add_free_block_full)

lemma inv_at_fresh: "inv_at s L \<Longrightarrow> Blk (block_count s) \<notin> live L"
  using inv_at_live(3) by blast

lemma inv_at_add_free_block:
  assumes inv: "inv_at s L" and bc: "block_count s < MAX_BLOCK_DESC"
    and ord: "ord \<le> MAX_ORDER" "aligned a ord"
    and dis: "\<And>c. c \<in> live L \<Longrightarrow> frames a ord \<inter> blk_frames (blocks s c) = {}"
  shows "inv_at (add_free_block s a ord)
           (L(FreeHead ord := L (FreeHead ord) @ [Blk (block_count s)]))"
proof -
  let ?b = "Blk (block_count s)"
  let ?v = "\<lparr>base_addr = a, blk_order = ord, allocated = False\<rparr>"
  let ?t = "set_links (set_block (s\<lparr>block_count := block_count s + 1\<rparr>) ?b ?v) (list_init (pmm_links s) ?b)"
  have fresh: "?b \<notin> live L"
    using inv by (rule inv_at_fresh)
  have "rings (list_init (pmm_links s) ?b) heads L"
    by (rule rings_init) (use inv fresh in \<open>simp_all add: inv_at_def rep_def in_rings_heads\<close>)
  moreover have "inv_at (set_block s ?b ?v) L"
    using inv fresh by (rule inv_at_set_block)
  ultimately have t: "inv_at ?t L"
    using bc by (auto simp: inv_at_def rep_def counts_def less_Suc_eq)
  have "frames a ord \<inter> blk_frames (blocks ?t c) = {}" if "c \<in> live L" for c
    using dis [OF that] that fresh by auto
  then have "inv_at (add_count (set_links ?t (list_push_back (pmm_links ?t) (FreeHead ord) ?b)) ord 1)
      (L(FreeHead ord := L (FreeHead ord) @ [?b]))"
    by (intro inv_at_attach_free [OF t fresh]) (use ord bc in auto)
  then show ?thesis
    using bc by (simp add: add_free_block_def alloc_block_def Let_def)
qed

text \<open>The same without a free descriptor: the block is dropped.\<close>

lemma add_free_block_spec:
  assumes inv: "inv_at s L" and ord: "ord \<le> MAX_ORDER" "aligned a ord"
    and dis: "\<And>c. c \<in> live L \<Longrightarrow> frames a ord \<inter> blk_frames (blocks s c) = {}"
  obtains L' where "inv_at (add_free_block s a ord) L'" "L' AllocHead = L AllocHead"
    "\<And>x. x \<noteq> ord \<Longrightarrow> L' (FreeHead x) = L (FreeHead x)"
    "\<And>c. c \<in> live L \<Longrightarrow> blocks (add_free_block s a ord) c = blocks s c"
    "\<And>c. c \<in> live L' \<Longrightarrow> c \<notin> live L \<Longrightarrow>
       c = Blk (block_count s) \<and> blk_frames (blocks (add_free_block s a ord) c) = frames a ord"
    "live L \<subseteq> live L'" "free_blks L \<subseteq> free_blks L'"
    "free_frames_of (add_free_block s a ord) L' =
       free_frames_of s L \<union> (if block_count s < MAX_BLOCK_DESC then frames a ord else {})"
proof (cases "block_count s < MAX_BLOCK_DESC")
  case False
  then have "add_free_block s a ord = s"
    by (simp add: add_free_block_full)
  with inv False show ?thesis
    by (intro that [of L]) auto
next
  case True
  let ?b = "Blk (block_count s)"
  let ?L = "L(FreeHead ord := L (FreeHead ord) @ [?b])"
  note fl = add_free_block_fields [OF True]
  have fresh: "?b \<notin> live L" "?b \<notin> free_blks L"
    using inv_at_fresh [OF inv] by (auto simp: live_alt)
  have live: "live ?L = insert ?b (live L)" and free: "free_blks ?L = insert ?b (free_blks L)"
    using ord by (simp_all add: live_add free_blks_add)
  have "blk_frames (blocks (add_free_block s a ord) c) = blk_frames (blocks s c)" if "c \<in> free_blks L" for c
    using that fresh by (auto simp: fl)
  then have "free_frames_of (add_free_block s a ord) ?L = free_frames_of s L \<union> frames a ord"
    by (auto simp: free_frames_of_def free fl)
  with True show ?thesis
    by (intro that [of ?L] inv_at_add_free_block [OF inv True ord dis]) (use fresh live free in \<open>auto simp: fl\<close>)
qed

section \<open>Halves of a block\<close>

lemma aligned_no_wrap: "aligned a ord \<Longrightarrow> ord \<le> MAX_ORDER \<Longrightarrow> unat a + 4096 * 2 ^ ord \<le> 2 ^ 64"
  using aligned_end_le [of "12 + ord" a] by (simp add: aligned_def power_add)

lemma frames_0 [simp]: "frames a 0 = {page_no a}"
  by (auto simp: frames_def)

lemma page_no_aligned: "aligned a ord \<Longrightarrow> 4096 * page_no a = unat a"
  by (auto simp: aligned_def page_no_def dest: dvd_mult_left)

lemma upper_half:
  assumes "aligned a (Suc ord)" "Suc ord \<le> MAX_ORDER"
  shows "unat (a + block_bytes ord) = unat a + 4096 * 2 ^ ord"
    "page_no (a + block_bytes ord) = page_no a + 2 ^ ord"
    "aligned a ord" "aligned (a + block_bytes ord) ord"
    "frames a (Suc ord) = frames a ord \<union> frames (a + block_bytes ord) ord"
    "frames a ord \<inter> frames (a + block_bytes ord) ord = {}"
proof -
  have "(0::nat) < 2 ^ ord"
    by simp
  then have "unat a + 4096 * 2 ^ ord < 2 ^ 64"
    using aligned_no_wrap [OF assms] unfolding power_Suc by linarith
  then show un: "unat (a + block_bytes ord) = unat a + 4096 * 2 ^ ord"
    using assms(2) by (simp add: unat_word_ariths unat_block_bytes)
  then show pn: "page_no (a + block_bytes ord) = page_no a + 2 ^ ord"
    by (simp add: page_no_def)
  have "4096 * 2 ^ ord * 2 dvd unat a"
    using assms(1) by (simp add: aligned_def mult.assoc mult.commute)
  then have "4096 * 2 ^ ord dvd unat a"
    by (rule dvd_mult_left)
  then show "aligned a ord" "aligned (a + block_bytes ord) ord"
    by (simp_all add: aligned_def un)
  show "frames a (Suc ord) = frames a ord \<union> frames (a + block_bytes ord) ord"
    "frames a ord \<inter> frames (a + block_bytes ord) ord = {}"
    by (auto simp: frames_def pn)
qed

end
