(* ===== verification/Pmm_Alloc.thy ===== *)
theory Pmm_Alloc
  imports Pmm_Inv
begin

text \<open>
  Allocation: splitting keeps the invariant and loses no frame as long as descriptors last,
  and \<open>pmm_alloc\<close> returns an aligned block of free frames exactly when a free list of a
  sufficient order has an entry.
\<close>

section \<open>Splitting\<close>

lemma split_step_spec:
  assumes inv: "inv_at s L" and b: "b \<in> set (L (FreeHead (Suc ord)))" and ord: "Suc ord \<le> MAX_ORDER"
  obtains L' where "inv_at (split_step s b) L'" "b \<in> set (L' (FreeHead ord))"
    "L' AllocHead = L AllocHead"
    "\<And>c. c \<in> live L \<Longrightarrow> c \<noteq> b \<Longrightarrow> blocks (split_step s b) c = blocks s c"
    "blocks (split_step s b) b = (blocks s b)\<lparr>blk_order := ord\<rparr>"
    "free_frames_of (split_step s b) L' = free_frames_of s L -
       (if block_count s < MAX_BLOCK_DESC then {}
        else frames (base_addr (blocks s b) + block_bytes ord) ord)"
proof -
  define a where "a = base_addr (blocks s b)"
  define v where "v = (blocks s b)\<lparr>blk_order := ord\<rparr>"
  define u where "u = a + block_bytes ord"
  note bf = inv_at_free [OF inv ord b]
  obtain i where i: "b = Blk i" "i < block_count s"
    using inv_at_live(3) [OF inv bf(3)] by blast
  have fb: "blk_frames (blocks s b) = frames a (Suc ord)" and fv: "blk_frames v = frames a ord"
    by (simp_all add: a_def v_def bf(1))
  have "aligned a (Suc ord)"
    using inv_at_live(2) [OF inv bf(3)] bf(1) by (simp add: a_def)
  note half = upper_half [OF this ord, folded u_def]
  define s2 where "s2 = set_block (add_count (set_links s (list_remove (pmm_links s) b)) (Suc ord) (-1)) b v"
  define L1 where "L1 = L(FreeHead (Suc ord) := remove1 b (L (FreeHead (Suc ord))))"
  note d = detach_free [OF inv ord b s2_def L1_def, unfolded fb]
  obtain L3 where L3: "inv_at (add_free_block s2 u ord) L3" "L3 AllocHead = L1 AllocHead"
      "\<And>c. c \<in> live L1 \<Longrightarrow> blocks (add_free_block s2 u ord) c = blocks s2 c"
      "\<And>c. c \<in> live L3 \<Longrightarrow> c \<notin> live L1 \<Longrightarrow> c = Blk (block_count s2) \<and>
         blk_frames (blocks (add_free_block s2 u ord) c) = frames u ord"
      "free_frames_of (add_free_block s2 u ord) L3 = free_frames_of s2 L1 \<union>
         (if block_count s2 < MAX_BLOCK_DESC then frames u ord else {})"
    by (rule add_free_block_spec [OF d(1) _ half(4)]) (use d(5) half(5) ord in auto)
  define s3 where "s3 = add_free_block s2 u ord"
  have s3: "blocks s3 b = v" "block_count s \<le> block_count s3"
    using i add_free_block_count [of s2 u ord] by (simp_all add: s3_def add_free_block_other d(6,7))
  have b3: "b \<notin> live L3"
    using L3(4) [of b] i by (auto simp: d(2,7))
  have "blk_frames v \<inter> blk_frames (blocks s3 c) = {}" if "c \<in> live L3" for c
    using d(5) [of c] L3(3,4) [of c] half(5,6) that
    by (cases "c \<in> live L1") (auto simp: s3_def fv)
  then have inv4: "inv_at (add_count (set_links s3 (list_push_back (pmm_links s3) (FreeHead ord) b)) ord 1)
      (L3(FreeHead ord := L3 (FreeHead ord) @ [b]))" (is "inv_at ?s4 ?L4")
    by (intro inv_at_attach_free [OF L3(1) [folded s3_def] b3 i(1)])
       (use i s3 half(3) bf ord in \<open>auto simp: v_def a_def\<close>)
  have s4: "split_step s b = ?s4"
    using bf(1) s3(1) by (simp add: split_step_def Let_def s3_def s2_def u_def a_def v_def fun_upd_def)
  have "free_frames_of ?s4 ?L4 = frames a ord \<union> free_frames_of s3 L3"
    using ord by (simp add: free_frames_attach free_frames_cong [of _ ?s4 s3] s3(1) fv)
  moreover have "frames a (Suc ord) \<subseteq> free_frames_of s L"
    using bf(4) by (auto simp: free_frames_of_def simp flip: fb)
  ultimately have "free_frames_of ?s4 ?L4 = free_frames_of s L -
      (if block_count s < MAX_BLOCK_DESC then {} else frames u ord)"
    using half(5,6) by (auto simp: s3_def L3(5) d(4,7))
  then show ?thesis
    by (intro that [of ?L4, folded s4, OF inv4 [folded s4]])
       (use L3(2,3) d(2,3,6) s3(1) in \<open>auto simp: s4 s3_def u_def a_def v_def\<close>)
qed

lemma split_step_count:
  "block_count (split_step s b) = (if block_count s < MAX_BLOCK_DESC then Suc (block_count s) else block_count s)"
  by (simp add: split_step_def Let_def add_free_block_fields add_free_block_full)

lemma same_blk_order [simp]: "blk_order v = n \<Longrightarrow> v\<lparr>blk_order := n\<rparr> = v"
  by (cases v) simp

lemma split_loop_spec:
  assumes "inv_at s L" "b \<in> set (L (FreeHead ord))" "ord \<le> MAX_ORDER" "t \<le> ord"
  shows "\<exists>L'. inv_at (split_loop s b t) L' \<and> b \<in> set (L' (FreeHead t)) \<and> L' AllocHead = L AllocHead \<and>
    (\<forall>c\<in>set (L AllocHead). blocks (split_loop s b t) c = blocks s c) \<and>
    blocks (split_loop s b t) b = (blocks s b)\<lparr>blk_order := t\<rparr> \<and>
    free_frames_of (split_loop s b t) L' \<subseteq> free_frames_of s L \<and>
    (block_count s + (ord - t) \<le> MAX_BLOCK_DESC \<longrightarrow>
       free_frames_of (split_loop s b t) L' = free_frames_of s L)"
  using assms
proof (induction ord arbitrary: s L)
  case 0
  then show ?case
    using inv_at_free(1) [OF 0(1,3,2)] by (intro exI [of _ L]) (simp add: split_loop.simps [of s b 0])
next
  case (Suc ord)
  note bf = inv_at_free [OF Suc.prems(1,3,2)]
  show ?case
  proof (cases "t = Suc ord")
    case True
    with Suc.prems bf(1) show ?thesis
      by (intro exI [of _ L]) (simp add: split_loop.simps [of s b "Suc ord"])
  next
    case False
    then have t: "t \<le> ord"
      using Suc.prems(4) by simp
    let ?s = "split_step s b"
    have loop: "split_loop s b t = split_loop ?s b t"
      using bf(1) t by (simp add: split_loop.simps [of s b t])
    obtain L1 where L1: "inv_at ?s L1" "b \<in> set (L1 (FreeHead ord))" "L1 AllocHead = L AllocHead"
        "\<And>c. c \<in> live L \<Longrightarrow> c \<noteq> b \<Longrightarrow> blocks ?s c = blocks s c"
        "blocks ?s b = (blocks s b)\<lparr>blk_order := ord\<rparr>"
        "free_frames_of ?s L1 = free_frames_of s L - (if block_count s < MAX_BLOCK_DESC then {}
           else frames (base_addr (blocks s b) + block_bytes ord) ord)"
      by (rule split_step_spec [OF Suc.prems(1,2,3)]) (rule that)
    have al: "blocks ?s c = blocks s c" if "c \<in> set (L AllocHead)" for c
      using L1(4) [of c] that bf(2) rep_alloc_blks [OF inv_at_rep [OF Suc.prems(1)]]
      by (auto simp: live_alt)
    obtain L' where L': "inv_at (split_loop ?s b t) L'" "b \<in> set (L' (FreeHead t))"
        "L' AllocHead = L1 AllocHead" "\<forall>c\<in>set (L1 AllocHead). blocks (split_loop ?s b t) c = blocks ?s c"
        "blocks (split_loop ?s b t) b = (blocks ?s b)\<lparr>blk_order := t\<rparr>"
        "free_frames_of (split_loop ?s b t) L' \<subseteq> free_frames_of ?s L1"
        "block_count ?s + (ord - t) \<le> MAX_BLOCK_DESC \<longrightarrow>
           free_frames_of (split_loop ?s b t) L' = free_frames_of ?s L1"
      using Suc.IH [OF L1(1,2) _ t] Suc.prems(3) by auto
    show ?thesis
    proof (intro exI [of _ L'] conjI impI)
      show "free_frames_of (split_loop s b t) L' \<subseteq> free_frames_of s L"
        using L'(6) L1(6) loop by auto
      assume "block_count s + (Suc ord - t) \<le> MAX_BLOCK_DESC"
      then have "block_count s < MAX_BLOCK_DESC" "block_count ?s + (ord - t) \<le> MAX_BLOCK_DESC"
        using t by (simp_all add: split_step_count)
      then show "free_frames_of (split_loop s b t) L' = free_frames_of s L"
        using L'(7) L1(6) loop by simp
    qed (use L' L1(3,5) al loop in simp_all)
  qed
qed

lemma split_block_spec:
  assumes inv: "inv_at s L" and b: "b \<in> set (L (FreeHead ord))" and ord: "ord \<le> MAX_ORDER" "t \<le> ord"
    and sp: "split_block s b t = (b', s')" and a: "a = base_addr (blocks s b)"
  obtains L' where "b' = b" "inv_at s' L'" "L' AllocHead = L AllocHead @ [b]"
    "\<And>c. c \<in> set (L AllocHead) \<Longrightarrow> blocks s' c = blocks s c"
    "base_addr (blocks s' b) = a" "blk_order (blocks s' b) = t" "aligned a t"
    "frames a t \<subseteq> free_frames_of s L" "free_frames_of s' L' \<subseteq> free_frames_of s L - frames a t"
    "block_count s + (ord - t) \<le> MAX_BLOCK_DESC \<Longrightarrow>
       free_frames_of s' L' = free_frames_of s L - frames a t"
proof -
  let ?s = "split_loop s b t"
  obtain M where M: "inv_at ?s M" "b \<in> set (M (FreeHead t))" "M AllocHead = L AllocHead"
      "\<forall>c\<in>set (L AllocHead). blocks ?s c = blocks s c" "blocks ?s b = (blocks s b)\<lparr>blk_order := t\<rparr>"
      "free_frames_of ?s M \<subseteq> free_frames_of s L"
      "block_count s + (ord - t) \<le> MAX_BLOCK_DESC \<longrightarrow> free_frames_of ?s M = free_frames_of s L"
    using split_loop_spec [OF inv b ord] by blast
  have t: "t \<le> MAX_ORDER"
    using ord by simp
  define v where "v = (blocks ?s b)\<lparr>allocated := True\<rparr>"
  have v: "base_addr v = a" "blk_order v = t" "allocated v"
    by (simp_all add: v_def M(5) a)
  note bf = inv_at_free [OF M(1) t M(2)]
  obtain i where i: "b = Blk i" "i < block_count ?s"
    using inv_at_live(3) [OF M(1) bf(3)] by blast
  have al: "aligned a t" and fb: "blk_frames (blocks ?s b) = frames a t"
    using inv_at_live(2) [OF M(1) bf(3)] by (simp_all add: M(5) a)
  define s1 where "s1 = set_block (add_count (set_links ?s (list_remove (pmm_links ?s) b)) t (-1)) b v"
  define L1 where "L1 = M(FreeHead t := remove1 b (M (FreeHead t)))"
  note d = detach_free [OF M(1) t M(2) s1_def L1_def, unfolded fb]
  let ?L = "L1(AllocHead := L1 AllocHead @ [b])"
  have s': "b' = b" "s' = set_links s1 (list_push_back (pmm_links s1) AllocHead b)"
    using sp bf(1) by (auto simp: split_block_def Let_def s1_def v_def)
  have inv': "inv_at s' ?L"
    unfolding s'(2) using d(5) i t al
    by (intro inv_at_attach_alloc [OF d(1) _ i(1)]) (simp_all add: d(2,6,7) v)
  have "free_frames_of s' ?L = free_frames_of ?s M - frames a t"
    using d(4) by (simp add: free_frames_of_def s')
  moreover have "frames a t \<subseteq> free_frames_of ?s M"
    using bf(4) by (auto simp: free_frames_of_def simp flip: fb)
  moreover have "b \<notin> set (L AllocHead)"
    using bf(2) rep_alloc_blks [OF inv_at_rep [OF M(1)], of b] M(3) by auto
  ultimately show ?thesis
    using M(4,6,7) by (intro that [OF s'(1) inv']) (auto simp: d(3,6) M(3) s'(2) v al)
qed

section \<open>Finding a block\<close>

lemma find_free_from_eq:
  assumes "rep s L" "set xs \<subseteq> {..MAX_ORDER}"
  shows "find_free_from s ord xs =
    (case find (\<lambda>x. L (FreeHead x) \<noteq> []) xs of
       None \<Rightarrow> (None, s)
     | Some x \<Rightarrow> (case split_block s (hd (L (FreeHead x))) ord of (b, s) \<Rightarrow> (Some b, s)))"
  using assms(2)
proof (induction xs)
  case Nil
  then show ?case by simp
next
  case (Cons x xs)
  have r: "ring (pmm_links s) (FreeHead x) (L (FreeHead x))"
    using Cons.prems by (intro rep_ring [OF assms(1)]) simp
  show ?case
    using Cons ring_list_empty [OF r] ring_next_head [OF r] by (simp add: hd_append)
qed

text \<open>There is a free block of order \<open>ord\<close> or more.\<close>

definition has_free :: "pmm_state \<Rightarrow> nat \<Rightarrow> bool" where
  "has_free s ord \<longleftrightarrow> (\<exists>x\<in>{ord..MAX_ORDER}. blocks_on s (FreeHead x) \<noteq> [])"

lemma find_free_block_cases:
  assumes "inv_at s L"
  shows "\<not> has_free s ord \<Longrightarrow> find_free_block s ord = (None, s)"
    and "has_free s ord \<Longrightarrow> \<exists>x\<in>{ord..MAX_ORDER}. \<exists>b\<in>set (L (FreeHead x)).
           find_free_block s ord = (case split_block s b ord of (b, s) \<Rightarrow> (Some b, s))"
proof -
  let ?P = "\<lambda>x. L (FreeHead x) \<noteq> []"
  have on: "blocks_on s (FreeHead x) = L (FreeHead x)" if "x \<le> MAX_ORDER" for x
    using that by (simp add: rep_blocks_on [OF inv_at_rep [OF assms]])
  have eq: "find_free_block s ord = (case find ?P [ord..<MAX_ORDER + 1] of None \<Rightarrow> (None, s)
      | Some x \<Rightarrow> (case split_block s (hd (L (FreeHead x))) ord of (b, s) \<Rightarrow> (Some b, s)))"
    unfolding find_free_block_def by (rule find_free_from_eq [OF inv_at_rep [OF assms]]) auto
  {
    assume "\<not> has_free s ord"
    then have "find ?P [ord..<MAX_ORDER + 1] = None"
      by (auto simp: has_free_def find_None_iff on)
    then show "find_free_block s ord = (None, s)"
      by (simp add: eq)
  next
    assume "has_free s ord"
    then obtain y where "ord \<le> y" "y \<le> MAX_ORDER" "?P y"
      by (auto simp: has_free_def on)
    then have "y \<in> set [ord..<MAX_ORDER + 1]" "?P y"
      by simp_all
    then have "find ?P [ord..<MAX_ORDER + 1] \<noteq> None"
      unfolding find_None_iff by blast
    then obtain x where x: "find ?P [ord..<MAX_ORDER + 1] = Some x"
      by blast
    with find_Some_split [OF x] have "x \<in> set [ord..<MAX_ORDER + 1]" "?P x"
      by (metis in_set_conv_decomp, blast)
    then show "\<exists>x\<in>{ord..MAX_ORDER}. \<exists>b\<in>set (L (FreeHead x)).
        find_free_block s ord = (case split_block s b ord of (b, s) \<Rightarrow> (Some b, s))"
      unfolding eq x by (intro bexI [of _ x] bexI [of _ "hd (L (FreeHead x))"]) simp_all
  }
qed

lemma find_free_block_spec:
  assumes inv: "pmm_inv s" and h: "has_free s ord"
  obtains b s' a where "find_free_block s ord = (Some b, s')" "base_addr (blocks s' b) = a"
    "pmm_inv s'" "aligned a ord" "frames a ord \<subseteq> free_frames s"
    "free_frames s' \<subseteq> free_frames s - frames a ord" "allocs s' = insert (a, ord) (allocs s)"
    "block_count s + (MAX_ORDER - ord) \<le> MAX_BLOCK_DESC \<Longrightarrow> free_frames s' = free_frames s - frames a ord"
proof -
  from inv obtain L where L: "inv_at s L"
    by (rule pmm_invE) (auto simp: inv_at_def)
  obtain x b where x: "ord \<le> x" "x \<le> MAX_ORDER" and b: "b \<in> set (L (FreeHead x))"
      and eq: "find_free_block s ord = (case split_block s b ord of (b, s) \<Rightarrow> (Some b, s))"
    using find_free_block_cases(2) [OF L h] by auto
  obtain b' s' where sp: "split_block s b ord = (b', s')"
    by (cases "split_block s b ord")
  let ?a = "base_addr (blocks s b)"
  obtain L' where L': "b' = b" "inv_at s' L'" "L' AllocHead = L AllocHead @ [b]"
      "\<And>c. c \<in> set (L AllocHead) \<Longrightarrow> blocks s' c = blocks s c"
      "base_addr (blocks s' b) = ?a" "blk_order (blocks s' b) = ord" "aligned ?a ord"
      "frames ?a ord \<subseteq> free_frames_of s L" "free_frames_of s' L' \<subseteq> free_frames_of s L - frames ?a ord"
      "block_count s + (x - ord) \<le> MAX_BLOCK_DESC \<Longrightarrow>
         free_frames_of s' L' = free_frames_of s L - frames ?a ord"
    by (rule split_block_spec [OF L b x(2,1) sp refl]) (rule that)
  note abs = rep_abs(1,2) [OF inv_at_rep [OF L]] rep_abs(1,2) [OF inv_at_rep [OF L'(2)]]
  have "allocs s' = insert (?a, ord) (allocs s)"
    unfolding abs allocs_of_def using L'(3-6) by auto
  then show ?thesis
    using eq sp L' x by (intro that [of b s' ?a]) (auto simp: abs inv_at_pmm_inv)
qed

section \<open>Page types of an allocated block\<close>

lemma init_page_types_upto:
  assumes "pcd_wf p" "unat a + 4096 * n \<le> 2 ^ 64"
    and "p' = fold (\<lambda>i p. snd (pcd_set_type p (a + push_bit PAGE_SHIFT (of_nat i)) PCD_TYPE_NK_NORMAL)) [0..<n] p"
  shows "pcd_wf p' \<and> pcd_initialized p' = pcd_initialized p \<and> managed_page p' = managed_page p \<and>
    (\<forall>k. managed_page p k \<longrightarrow> page_type p' k =
       (if pcd_initialized p \<and> page_no a \<le> k \<and> k < page_no a + n then PCD_TYPE_NK_NORMAL else page_type p k))"
  using assms(2,3)
proof (induction n arbitrary: p')
  case 0
  then show ?case
    using assms(1) by auto
next
  case (Suc n)
  define q where "q = fold (\<lambda>i p. snd (pcd_set_type p (a + push_bit PAGE_SHIFT (of_nat i)) PCD_TYPE_NK_NORMAL)) [0..<n] p"
  let ?a = "a + push_bit PAGE_SHIFT (of_nat n)"
  have IH: "pcd_wf q" "pcd_initialized q = pcd_initialized p" "managed_page q = managed_page p"
      "\<forall>k. managed_page p k \<longrightarrow> page_type q k = (if pcd_initialized p \<and> page_no a \<le> k \<and> k < page_no a + n
         then PCD_TYPE_NK_NORMAL else page_type p k)"
    using Suc.IH [OF _ q_def] Suc.prems(1) by auto
  have "unat (4096 * word_of_nat n :: u64) = 4096 * n"
    using Suc.prems(1) by (simp add: unat_word_ariths unat_of_nat)
  then have "unat ?a = unat a + 4096 * n"
    using Suc.prems(1) by (simp add: push_bit_eq_mult mult.commute unat_word_ariths)
  then have pn: "page_no ?a = page_no a + n"
    by (simp add: page_no_def)
  have "p' = snd (pcd_set_type q ?a PCD_TYPE_NK_NORMAL)"
    using Suc.prems(2) by (simp add: q_def)
  then show ?case
    using IH page_type_set [of q "page_down ?a" _ PCD_TYPE_NK_NORMAL]
    by (auto simp: pcd_set_type_cases [OF IH(1)] pn less_Suc_eq)
qed

lemma init_page_types_spec:
  assumes "pcd_wf p" "pcd_initialized p" "aligned a ord" "ord \<le> MAX_ORDER"
  shows "pcd_wf (init_page_types p a ord)" "pcd_initialized (init_page_types p a ord)"
    "pcd_get_type (init_page_types p a ord) b =
       (if page_no b \<in> frames a ord then PCD_TYPE_NK_NORMAL else pcd_get_type p b)"
proof -
  note spec = init_page_types_upto [OF assms(1) _ init_page_types_def, of a ord]
  show wf: "pcd_wf (init_page_types p a ord)" and ini: "pcd_initialized (init_page_types p a ord)"
    using spec aligned_no_wrap [OF assms(3,4)] assms(2) by auto
  show "pcd_get_type (init_page_types p a ord) b =
       (if page_no b \<in> frames a ord then PCD_TYPE_NK_NORMAL else pcd_get_type p b)"
    using spec aligned_no_wrap [OF assms(3,4)] assms(2)
    by (auto simp: pcd_get_type_eq [OF wf ini] pcd_get_type_eq [OF assms(1,2)] frames_def)
qed

section \<open>Allocation\<close>

lemma pmm_alloc_found:
  assumes "ord \<le> MAX_ORDER" "find_free_block (pmm m) ord = (Some b, s')"
  shows "pmm_alloc m ord = (base_addr (blocks s' b),
    m\<lparr>pmm := s', pcd := (if pcd_initialized (pcd m)
        then init_page_types (pcd m) (base_addr (blocks s' b)) ord else pcd m)\<rparr>)"
  using assms by (simp add: pmm_alloc_def Let_def pcd_is_initialized_def)

lemma pmm_alloc_none:
  assumes "pmm_inv (pmm m)" "MAX_ORDER < ord \<or> \<not> has_free (pmm m) ord"
  shows "pmm_alloc m ord = (0, m)"
  using assms(2) find_free_block_cases(1) [OF pmm_inv_at [OF assms(1)], of ord]
  by (auto simp: pmm_alloc_def not_less)

lemma pmm_alloc_correct:
  assumes "pmm_inv (pmm m)" "ord \<le> MAX_ORDER" "has_free (pmm m) ord" "pmm_alloc m ord = (a, m')"
  shows "pmm_inv (pmm m')" "aligned a ord" "frames a ord \<subseteq> free_frames (pmm m)"
    "free_frames (pmm m') \<subseteq> free_frames (pmm m) - frames a ord"
    "allocs (pmm m') = insert (a, ord) (allocs (pmm m))"
    "block_count (pmm m) + (MAX_ORDER - ord) \<le> MAX_BLOCK_DESC \<Longrightarrow>
       free_frames (pmm m') = free_frames (pmm m) - frames a ord"
    "pcd m' = (if pcd_initialized (pcd m) then init_page_types (pcd m) a ord else pcd m)"
proof -
  obtain b s' c where f: "find_free_block (pmm m) ord = (Some b, s')" "base_addr (blocks s' b) = c"
    "pmm_inv s'" "aligned c ord" "frames c ord \<subseteq> free_frames (pmm m)"
    "free_frames s' \<subseteq> free_frames (pmm m) - frames c ord"
    "allocs s' = insert (c, ord) (allocs (pmm m))"
    "block_count (pmm m) + (MAX_ORDER - ord) \<le> MAX_BLOCK_DESC \<Longrightarrow>
       free_frames s' = free_frames (pmm m) - frames c ord"
    by (rule find_free_block_spec [OF assms(1,3)]) (rule that)
  have m': "a = c" "pmm m' = s'"
      "pcd m' = (if pcd_initialized (pcd m) then init_page_types (pcd m) a ord else pcd m)"
    using assms(4) f(2) by (auto simp: pmm_alloc_found [OF assms(2) f(1)])
  show "pmm_inv (pmm m')" "aligned a ord" "frames a ord \<subseteq> free_frames (pmm m)"
    "free_frames (pmm m') \<subseteq> free_frames (pmm m) - frames a ord"
    "allocs (pmm m') = insert (a, ord) (allocs (pmm m))"
    "pcd m' = (if pcd_initialized (pcd m) then init_page_types (pcd m) a ord else pcd m)"
    "block_count (pmm m) + (MAX_ORDER - ord) \<le> MAX_BLOCK_DESC \<Longrightarrow>
       free_frames (pmm m') = free_frames (pmm m) - frames a ord"
    using f m' by simp_all
qed

end
