(* ===== verification/Pmm_Free.thy ===== *)
theory Pmm_Free
  imports Pmm_Alloc
begin

text \<open>
  Freeing: the search for a buddy, merging, and \<open>pmm_free\<close>, which returns exactly the frames
  of the block that was allocated at the address.
\<close>

section \<open>Buddies\<close>

lemma block_bytes_pow2: "block_bytes ord = 2 ^ (12 + ord)"
  by (simp add: block_bytes_def push_bit_eq_mult power_add mult.commute)

lemma merged_block:
  assumes al: "aligned a ord" and ord: "Suc ord \<le> MAX_ORDER" and b: "b = get_buddy_addr a ord"
    and m: "m = (if a > b then b else a)"
  shows "aligned m (Suc ord)" "frames m (Suc ord) = frames a ord \<union> frames b ord"
proof -
  let ?k = "12 + ord"
  have dvd: "2 ^ ?k dvd unat a" and k: "?k < LENGTH(64)"
    using al ord by (simp_all add: aligned_def power_add)
  have bx: "b = a XOR 2 ^ ?k"
    by (simp add: b get_buddy_addr_def block_bytes_pow2)
  have pos: "(0::nat) < 2 ^ ?k"
    by simp
  show "aligned m (Suc ord)" "frames m (Suc ord) = frames a ord \<union> frames b ord"
  proof (atomize(full), cases "bit a ?k")
    case False
    note low = buddy_low [OF dvd k False, folded bx]
    then have "m = a" "aligned a (Suc ord)"
      using pos m by (auto simp: word_less_nat_alt aligned_def power_add)
    moreover have "b = a + block_bytes ord"
      using xor_pow2_clear [OF False] by (simp add: bx block_bytes_pow2)
    ultimately show "aligned m (Suc ord) \<and> frames m (Suc ord) = frames a ord \<union> frames b ord"
      using upper_half(5) [of a ord] ord by simp
  next
    case True
    note high = buddy_high [OF dvd k True, folded bx]
    have "unat b < unat a"
      using high(1) pos by linarith
    then have "m = b" "aligned b (Suc ord)"
      using high(2) m by (simp_all add: word_less_nat_alt aligned_def power_add)
    moreover have "a = b + block_bytes ord"
      using xor_pow2_set [OF True] by (simp add: bx block_bytes_pow2)
    ultimately show "aligned m (Suc ord) \<and> frames m (Suc ord) = frames a ord \<union> frames b ord"
      using upper_half(5) [of b ord] ord by auto
  qed
qed

text \<open>The bounded search looks at the first \<open>n\<close> entries of the list.\<close>

lemma links_search:
  "links (pmm_links s) (pos # xs @ [p]) \<Longrightarrow> p \<notin> set (pos # xs) \<Longrightarrow>
   search_buddy s p addr n pos =
     find (\<lambda>c. base_addr (blocks s c) = addr \<and> \<not> allocated (blocks s c)) (take n (pos # xs))"
proof (induction xs arbitrary: pos n)
  case Nil
  then show ?case
    by (cases n; cases "n - 1") simp_all
next
  case (Cons x xs)
  then show ?case
    by (cases n) auto
qed

lemma ring_search:
  assumes "ring (pmm_links s) p xs"
  shows "search_buddy s p addr n (nxt (pmm_links s) p) =
     find (\<lambda>c. base_addr (blocks s c) = addr \<and> \<not> allocated (blocks s c)) (take n xs)"
proof (cases xs)
  case Nil
  with assms show ?thesis
    by (cases n) (simp_all add: ring_Nil)
next
  case (Cons x ys)
  with assms have "nxt (pmm_links s) p = x" "links (pmm_links s) (x # ys @ [p])" "p \<notin> set (x # ys)"
    by (auto simp: ring_def)
  then show ?thesis
    using links_search [of s x ys p addr n] Cons by simp
qed

section \<open>Merging\<close>

text \<open>A descriptor that is on no list and whose block is apart from all listed ones.\<close>

definition loose :: "pmm_state \<Rightarrow> (pmm_node \<Rightarrow> pmm_node list) \<Rightarrow> pmm_node \<Rightarrow> bool" where
  "loose s L b \<longleftrightarrow> b \<notin> live L \<and> (\<exists>i<block_count s. b = Blk i) \<and>
     blk_order (blocks s b) \<le> MAX_ORDER \<and> aligned (base_addr (blocks s b)) (blk_order (blocks s b)) \<and>
     (\<forall>c\<in>live L. blk_frames (blocks s b) \<inter> blk_frames (blocks s c) = {})"

lemma find_buddy_some:
  assumes inv: "inv_at s L" and ord: "blk_order (blocks s b) \<le> MAX_ORDER" and f: "find_buddy s b = Some c"
  shows "c \<in> set (L (FreeHead (blk_order (blocks s b))))"
    "base_addr (blocks s c) = get_buddy_addr (base_addr (blocks s b)) (blk_order (blocks s b))"
proof -
  let ?p = "FreeHead (blk_order (blocks s b))"
  have "ring (pmm_links s) ?p (L ?p)"
    using ord by (intro rep_ring [OF inv_at_rep [OF inv]]) simp
  from f [unfolded find_buddy_def Let_def ring_search [OF this]]
  have c: "c \<in> set (take 1000 (L ?p))"
    "base_addr (blocks s c) = get_buddy_addr (base_addr (blocks s b)) (blk_order (blocks s b))"
    by (auto dest: find_Some_split)
  then show "c \<in> set (L ?p)" by (auto dest: in_set_takeD)
  show "base_addr (blocks s c) = get_buddy_addr (base_addr (blocks s b)) (blk_order (blocks s b))"
    by (rule c)
qed

lemma merge_buddy_spec:
  assumes inv: "inv_at s L" and lo: "loose s L b" and ord: "blk_order (blocks s b) < MAX_ORDER"
    and f: "find_buddy s b = Some c"
  obtains L' where "inv_at (merge_buddy s b c) L'" "loose (merge_buddy s b c) L' b"
    "L' AllocHead = L AllocHead" "\<And>d. d \<noteq> b \<Longrightarrow> blocks (merge_buddy s b c) d = blocks s d"
    "allocated (blocks (merge_buddy s b c) b) = allocated (blocks s b)"
    "free_frames_of (merge_buddy s b c) L' \<union> blk_frames (blocks (merge_buddy s b c) b) =
       free_frames_of s L \<union> blk_frames (blocks s b)"
proof -
  define x where "x = blk_order (blocks s b)"
  define a where "a = base_addr (blocks s b)"
  define u where "u = get_buddy_addr a x"
  define m where "m = (if a > u then u else a)"
  have x: "x \<le> MAX_ORDER" "Suc x \<le> MAX_ORDER"
    using ord by (simp_all add: x_def)
  have c: "c \<in> set (L (FreeHead x))" "base_addr (blocks s c) = u"
    using find_buddy_some [OF inv _ f] x by (simp_all add: x_def u_def a_def)
  note cf = inv_at_free [OF inv x(1) c(1)]
  have bc: "b \<noteq> c"
    using lo cf(3) by (auto simp: loose_def)
  have "aligned a x"
    using lo by (simp add: loose_def x_def a_def)
  note mb = merged_block [OF this x(2) u_def m_def]
  define s1 where "s1 = set_block (add_count (set_links s (list_remove (pmm_links s) c)) x (-1)) c (blocks s c)"
  define L1 where "L1 = L(FreeHead x := remove1 c (L (FreeHead x)))"
  note d = detach_free [OF inv x(1) c(1) s1_def L1_def]
  define v where "v = (blocks s b)\<lparr>base_addr := m, blk_order := Suc x\<rparr>"
  have s1: "s1 = add_count (set_links s (list_remove (pmm_links s) c)) x (-1)"
    by (simp add: s1_def set_block_def)
  have mg: "merge_buddy s b c = set_block s1 b v"
    by (simp add: merge_buddy_def Let_def s1 v_def m_def u_def x_def a_def set_block_def)
  have nb: "b \<notin> live L1"
    using lo by (simp add: d(2) loose_def)
  have fm: "blk_frames v = blk_frames (blocks s b) \<union> blk_frames (blocks s c)"
    using mb(2) cf(1) c(2) by (simp add: v_def x_def a_def)
  have bl: "blocks (merge_buddy s b c) = (blocks s)(b := v)"
    by (simp add: mg d(6))
  have "blk_frames v \<inter> blk_frames (blocks s e) = {}" if "e \<in> live L1" for e
    using lo d(5) [OF that] that unfolding fm by (auto simp: loose_def d(2,6))
  then have "loose (merge_buddy s b c) L1 b"
    using lo mb(1) x(2) nb unfolding loose_def bl by (auto simp: mg d(7) v_def)
  moreover have "inv_at (merge_buddy s b c) L1"
    unfolding mg by (rule inv_at_set_block [OF d(1) nb])
  moreover have "free_frames_of (merge_buddy s b c) L1 = free_frames_of s1 L1"
    by (rule free_frames_cong) (use nb in \<open>auto simp: mg live_alt\<close>)
  moreover have "blk_frames (blocks s c) \<subseteq> free_frames_of s L"
    using cf(4) by (auto simp: free_frames_of_def)
  moreover have "allocated v = allocated (blocks s b)"
    by (simp add: v_def)
  ultimately show ?thesis
    by (intro that [of L1]) (auto simp: d(3,4) bl fm)
qed

lemma coalesce_loop_spec:
  assumes "inv_at s L" "loose s L b"
  shows "\<exists>L'. inv_at (coalesce_loop s b) L' \<and> loose (coalesce_loop s b) L' b \<and> L' AllocHead = L AllocHead \<and>
    (\<forall>d. d \<noteq> b \<longrightarrow> blocks (coalesce_loop s b) d = blocks s d) \<and>
    free_frames_of (coalesce_loop s b) L' \<union> blk_frames (blocks (coalesce_loop s b) b) =
      free_frames_of s L \<union> blk_frames (blocks s b)"
  using assms
proof (induction s b arbitrary: L rule: coalesce_loop.induct)
  case (1 s b)
  show ?case
  proof (cases "blk_order (blocks s b) < MAX_ORDER \<and> find_buddy s b \<noteq> None")
    case False
    then have "coalesce_loop s b = s"
      by (auto simp: coalesce_loop.simps [of s b])
    with "1.prems" show ?thesis
      by (intro exI [of _ L]) simp
  next
    case True
    then obtain c where ord: "blk_order (blocks s b) < MAX_ORDER" and c: "find_buddy s b = Some c"
      by blast
    let ?s = "merge_buddy s b c"
    have eq: "coalesce_loop s b = coalesce_loop ?s b"
      using ord c by (simp add: coalesce_loop.simps [of s b])
    obtain L1 where L1: "inv_at ?s L1" "loose ?s L1 b" "L1 AllocHead = L AllocHead"
        "\<And>d. d \<noteq> b \<Longrightarrow> blocks ?s d = blocks s d" "allocated (blocks ?s b) = allocated (blocks s b)"
        "free_frames_of ?s L1 \<union> blk_frames (blocks ?s b) = free_frames_of s L \<union> blk_frames (blocks s b)"
      by (rule merge_buddy_spec [OF "1.prems" ord c]) (rule that)
    show ?thesis
      using "1.IH" [OF ord c L1(1,2)] L1(3,4,6) by (simp add: eq)
  qed
qed

lemma coalesce_block_spec:
  assumes inv: "inv_at s L" and lo: "loose s L b"
  obtains L' where "inv_at (coalesce_block s b) L'" "L' AllocHead = L AllocHead"
    "\<And>d. d \<noteq> b \<Longrightarrow> blocks (coalesce_block s b) d = blocks s d"
    "free_frames_of (coalesce_block s b) L' = free_frames_of s L \<union> blk_frames (blocks s b)"
proof -
  let ?s = "coalesce_loop s b"
  obtain M where M: "inv_at ?s M" "loose ?s M b" "M AllocHead = L AllocHead"
      "\<forall>d. d \<noteq> b \<longrightarrow> blocks ?s d = blocks s d"
      "free_frames_of ?s M \<union> blk_frames (blocks ?s b) = free_frames_of s L \<union> blk_frames (blocks s b)"
    using coalesce_loop_spec [OF inv lo] by blast
  define x where "x = blk_order (blocks ?s b)"
  define t where "t = set_block ?s b ((blocks ?s b)\<lparr>allocated := False\<rparr>)"
  have nb: "b \<notin> live M" and x: "x \<le> MAX_ORDER"
    using M(2) by (simp_all add: loose_def x_def)
  have t: "inv_at t M"
    unfolding t_def by (rule inv_at_set_block [OF M(1) nb])
  obtain i where i: "b = Blk i" "i < block_count t"
    using M(2) by (auto simp: loose_def t_def)
  have bt: "blk_order (blocks t b) = x" "base_addr (blocks t b) = base_addr (blocks ?s b)"
      "\<not> allocated (blocks t b)" "\<And>c. c \<in> live M \<Longrightarrow> blocks t c = blocks ?s c"
    using nb by (auto simp: t_def x_def)
  have "inv_at (add_count (set_links t (list_push_back (pmm_links t) (FreeHead x) b)) x 1)
      (M(FreeHead x := M (FreeHead x) @ [b]))" (is "inv_at ?u ?M")
    using M(2) by (intro inv_at_attach_free [OF t nb i]) (auto simp: bt loose_def x_def)
  moreover have cb: "coalesce_block s b = add_free_pages ?u (2 ^ x)"
    by (simp add: coalesce_block_def Let_def t_def x_def)
  moreover have "free_frames_of ?u ?M = blk_frames (blocks ?s b) \<union> free_frames_of ?s M"
    using free_frames_attach [OF x, of t M b] free_frames_cong [of M t ?s] bt
    by (simp add: free_frames_of_def live_alt x_def)
  ultimately show ?thesis
    using M(3-5) by (intro that [of ?M]) (auto simp: t_def free_frames_of_def)
qed

section \<open>Freeing\<close>

lemma find_allocated_block_eq:
  assumes "inv_at s L"
  shows "find_allocated_block s a = Some (find (\<lambda>b. base_addr (blocks s b) = a) (L AllocHead))"
  unfolding find_allocated_block_def
  by (rule ring_find) (use rep_ring [OF inv_at_rep [OF assms], of AllocHead] in simp)

lemma same_base_same_block:
  assumes "inv_at s L" "b \<in> live L" "c \<in> live L" "base_addr (blocks s b) = base_addr (blocks s c)"
  shows "b = c"
proof (rule ccontr)
  assume "b \<noteq> c"
  then have "blk_frames (blocks s b) \<inter> blk_frames (blocks s c) = {}"
    using assms by (intro inv_at_disjoint)
  moreover have "page_no (base_addr (blocks s b)) \<in> blk_frames (blocks s b) \<inter> blk_frames (blocks s c)"
    by (simp add: frames_def assms(4))
  ultimately show False by simp
qed

lemma detach_allocated:
  assumes inv: "inv_at s L" and b: "b \<in> set (L AllocHead)"
    and s': "s' = set_links s (list_remove (pmm_links s) b)"
    and L': "L' = L(AllocHead := remove1 b (L AllocHead))"
  shows "inv_at s' L'" "loose s' L' b" "free_frames_of s' L' = free_frames_of s L"
    "set (L' AllocHead) = set (L AllocHead) - {b}"
proof -
  have live: "b \<in> live L" "live L' = live L - {b}"
    using b live_remove [OF inv_at_rep [OF inv] _ b] by (simp_all add: L' live_alt)
  show "inv_at s' L'"
    unfolding s' L' by (rule inv_at_detach_alloc [OF inv b])
  show "loose s' L' b"
    using inv_at_live [OF inv live(1)] inv_at_disjoint [OF inv live(1)] live(2)
    by (auto simp: loose_def s')
  show "free_frames_of s' L' = free_frames_of s L"
    by (simp add: free_frames_of_def s' L')
  show "set (L' AllocHead) = set (L AllocHead) - {b}"
    using rep_distinct [OF inv_at_rep [OF inv], of AllocHead] by (simp add: L')
qed

lemma pmm_free_correct:
  assumes inv: "pmm_inv s" and a: "(a, ord) \<in> allocs s" and x: "x \<le> MAX_ORDER"
  obtains s' where "pmm_free s a x = Some s'" "pmm_inv s'" "allocs s' = allocs s - {(a, ord)}"
    "free_frames s' = free_frames s \<union> frames a ord"
proof -
  from inv have L: "inv_at s (blocks_on s)" (is "inv_at s ?L")
    by (rule pmm_inv_at)
  from a obtain b where b: "b \<in> set (?L AllocHead)" "base_addr (blocks s b) = a" "blk_order (blocks s b) = ord"
    by (auto simp: allocs_def allocs_of_def)
  have same: "c = e" if "c \<in> set (?L AllocHead)" "e \<in> set (?L AllocHead)"
      "base_addr (blocks s c) = base_addr (blocks s e)" for c e
    by (rule same_base_same_block [OF L _ _ that(3)]) (use that(1,2) in \<open>simp_all add: live_alt\<close>)
  have "find (\<lambda>b. base_addr (blocks s b) = a) (?L AllocHead) \<noteq> None"
    using b unfolding find_None_iff by blast
  then obtain c where c: "find (\<lambda>b. base_addr (blocks s b) = a) (?L AllocHead) = Some c"
    by blast
  then have "c = b"
    by (intro same) (use b find_Some_split [OF c] in auto)
  then have fa: "find_allocated_block s a = Some (Some b)"
    by (simp add: find_allocated_block_eq [OF L] c)
  define s1 where "s1 = set_links s (list_remove (pmm_links s) b)"
  define L1 where "L1 = ?L(AllocHead := remove1 b (?L AllocHead))"
  note d = detach_allocated [OF L b(1) s1_def L1_def]
  obtain L' where L': "inv_at (coalesce_block s1 b) L'" "L' AllocHead = L1 AllocHead"
      "\<And>d. d \<noteq> b \<Longrightarrow> blocks (coalesce_block s1 b) d = blocks s1 d"
      "free_frames_of (coalesce_block s1 b) L' = free_frames_of s1 L1 \<union> blk_frames (blocks s1 b)"
    by (rule coalesce_block_spec [OF d(1,2)]) (rule that)
  note abs = rep_abs(1,2) [OF inv_at_rep [OF L'(1)]]
  have s1: "blocks s1 = blocks s"
    by (simp add: s1_def)
  let ?f = "\<lambda>b. (base_addr (blocks s b), blk_order (blocks s b))"
  have "inj_on ?f (set (?L AllocHead))"
    by (rule inj_onI) (rule same, simp_all)
  then have "?f ` (set (?L AllocHead) - {b}) = ?f ` set (?L AllocHead) - ?f ` {b}"
    by (rule inj_on_image_set_diff) (use b(1) in auto)
  moreover have "allocs_of (coalesce_block s1 b) L' = ?f ` (set (?L AllocHead) - {b})"
    unfolding allocs_of_def L'(2) d(4) by (rule image_cong) (simp_all add: L'(3) s1)
  ultimately have "allocs (coalesce_block s1 b) = allocs s - {(a, ord)}"
    unfolding abs(2) using b(2,3) by (simp add: allocs_def allocs_of_def)
  moreover have "free_frames (coalesce_block s1 b) = free_frames s \<union> frames a ord"
    unfolding abs(1) L'(4) d(3) using b by (simp add: free_frames_def s1)
  moreover have "pmm_free s a x = Some (coalesce_block s1 b)"
    using x by (simp add: pmm_free_def fa s1_def)
  ultimately show ?thesis
    using inv_at_pmm_inv [OF L'(1)] by (intro that)
qed

lemma pmm_free_noop:
  assumes "pmm_inv s" "MAX_ORDER < x \<or> (\<forall>ord. (a, ord) \<notin> allocs s)"
  shows "pmm_free s a x = Some s"
proof -
  have L: "inv_at s (blocks_on s)"
    using assms(1) by (rule pmm_inv_at)
  have "find (\<lambda>b. base_addr (blocks s b) = a) (blocks_on s AllocHead) = None" if "\<forall>ord. (a, ord) \<notin> allocs s"
    using that by (auto simp: find_None_iff allocs_def allocs_of_def)
  then show ?thesis
    using assms(2) by (auto simp: pmm_free_def find_allocated_block_eq [OF L])
qed

end
