(* ===== verification/Pmm_Region.thy ===== *)
theory Pmm_Region
  imports Pmm_Free
begin

text \<open>
  Adding and reserving memory regions: \<open>pmm_add_region\<close> cuts a region into aligned blocks
  that cover it, and \<open>pmm_reserve_region\<close> takes exactly the frames of a region off the free
  lists; both return on every input that does not wrap around the address space.
\<close>

section \<open>Adding a region\<close>

lemma order_fits_iff:
  assumes "ord \<le> MAX_ORDER"
  shows "order_fits a r ord \<longleftrightarrow> 4096 * 2 ^ ord \<le> unat r \<and> aligned a ord"
proof -
  have "block_bytes ord - 1 = mask (12 + ord)"
    by (simp add: block_bytes_pow2 mask_eq_exp_minus_1)
  then have "a AND (block_bytes ord - 1) = 0 \<longleftrightarrow> unat (a AND mask (12 + ord)) = 0"
    by (simp add: unat_eq_0)
  then show ?thesis
    using assms by (auto simp: order_fits_def word_le_nat_alt unat_block_bytes unat_and_mask
        aligned_def power_add mod_eq_0_iff_dvd)
qed

lemma unat_diff: "a \<le> b \<Longrightarrow> unat (b - a) = unat b - unat a" for a b :: u64
  by (rule unat_sub)

lemma add_region_round:
  assumes "addr < end" "4096 dvd unat addr" "4096 dvd unat end"
  obtains ord where "ord \<le> MAX_ORDER" "aligned addr ord" "unat addr + 4096 * 2 ^ ord \<le> unat end"
    "add_region_loop s addr end = add_region_loop (add_free_block s addr ord) (addr + block_bytes ord) end"
proof -
  have lt: "unat addr < unat end" and rem: "unat (end - addr) = unat end - unat addr"
    using assms(1) by (simp_all add: word_less_nat_alt unat_diff order.strict_implies_order)
  show ?thesis
  proof (cases "find (order_fits addr (end - addr)) (rev [1..<MAX_ORDER + 1])")
    case (Some ord)
    then have ord: "ord \<le> MAX_ORDER" "order_fits addr (end - addr) ord"
      by (auto simp: find_Some_iff rev_nth)
    have "add_region_loop s addr end =
        add_region_loop (add_free_block s addr ord) (addr + block_bytes ord) end"
      using assms(1) unfolding add_region_loop.simps [of s addr] Some Let_def by simp
    with ord lt show ?thesis
      by (intro that [of ord]) (auto simp: order_fits_iff rem)
  next
    case None
    have "4096 dvd unat end - unat addr"
      using assms(2,3) by (rule dvd_diff_nat [rotated])
    then have ge: "4096 \<le> unat end - unat addr"
      using lt by (auto dest: dvd_imp_le)
    then have "PAGE_SIZE \<le> end - addr"
      by (simp add: word_le_nat_alt rem)
    then have "add_region_loop s addr end = add_region_loop (add_free_block s addr 0) (addr + PAGE_SIZE) end"
      using assms(1) unfolding add_region_loop.simps [of s addr] None Let_def by simp
    with ge assms(2) show ?thesis
      by (intro that [of 0]) (auto simp: aligned_def block_bytes_def)
  qed
qed

lemma page_no_plus:
  assumes "unat a + 4096 * n \<le> unat (e :: u64)" "unat b = 4096 * n"
  shows "unat (a + b) = unat a + 4096 * n" "page_no (a + b) = page_no a + n"
proof -
  show "unat (a + b) = unat a + 4096 * n"
    using assms unat_less_64 [of e] by (simp add: unat_word_ariths)
  then show "page_no (a + b) = page_no a + n"
    by (simp add: page_no_def)
qed

lemma page_no_mono: "unat a + 4096 * n \<le> unat e \<Longrightarrow> page_no a + n \<le> page_no e"
  using div_le_mono [of "unat a + 4096 * n" "unat e" 4096] by (simp add: page_no_def)

text \<open>
  What a sequence of \<open>add_free_block\<close> calls does: it adds free blocks that lie in \<open>R\<close>, on the
  lists of the orders \<open>X\<close>, and leaves the rest alone. They cover \<open>R\<close> unless the descriptors
  ran out on the way.
\<close>

definition grows :: "nat set \<Rightarrow> nat set \<Rightarrow> pmm_state \<Rightarrow> (pmm_node \<Rightarrow> pmm_node list) \<Rightarrow>
    pmm_state \<Rightarrow> (pmm_node \<Rightarrow> pmm_node list) \<Rightarrow> bool" where
  "grows X R s L s' L' \<longleftrightarrow> inv_at s' L' \<and> L' AllocHead = L AllocHead \<and> block_count s \<le> block_count s' \<and>
     (\<forall>x. x \<notin> X \<longrightarrow> L' (FreeHead x) = L (FreeHead x)) \<and>
     live L \<subseteq> live L' \<and> (\<forall>c\<in>live L. blocks s' c = blocks s c) \<and>
     (\<forall>c\<in>live L' - live L. \<not> allocated (blocks s' c) \<and> blk_frames (blocks s' c) \<subseteq> R) \<and>
     free_frames_of s L \<subseteq> free_frames_of s' L' \<and> free_frames_of s' L' \<subseteq> free_frames_of s L \<union> R \<and>
     (block_count s' < MAX_BLOCK_DESC \<longrightarrow> R \<subseteq> free_frames_of s' L')"

lemma grows_refl: "inv_at s L \<Longrightarrow> grows X {} s L s L"
  by (simp add: grows_def)

lemma grows_trans:
  assumes "grows X R s L t M" "grows X Q t M u N"
  shows "grows X (R \<union> Q) s L u N"
proof -
  have "\<not> allocated (blocks u c) \<and> blk_frames (blocks u c) \<subseteq> R \<union> Q" if "c \<in> live N - live L" for c
    using assms that unfolding grows_def by (cases "c \<in> live M") auto
  moreover have "\<forall>c\<in>live L. blocks u c = blocks s c"
    using assms unfolding grows_def by (metis subsetD)
  ultimately show ?thesis
    using assms unfolding grows_def by auto
qed

lemma grows_mono: "grows X R s L t M \<Longrightarrow> X \<subseteq> Y \<Longrightarrow> grows Y R s L t M"
  by (auto simp: grows_def)

lemma grows_inv: "grows X R s L t M \<Longrightarrow> inv_at t M"
  by (simp add: grows_def)

lemma grows_frames:
  "grows X R s L t M \<Longrightarrow> c \<in> live M \<Longrightarrow>
   \<not> allocated (blocks t c) \<and> blk_frames (blocks t c) \<subseteq> R \<or> c \<in> live L \<and> blocks t c = blocks s c"
  unfolding grows_def by blast

lemma add_free_block_grows:
  assumes "inv_at s L" "ord \<le> MAX_ORDER" "aligned a ord"
    and "\<And>c. c \<in> live L \<Longrightarrow> frames a ord \<inter> blk_frames (blocks s c) = {}"
  shows "\<exists>L'. grows {ord} (frames a ord) s L (add_free_block s a ord) L'"
proof -
  obtain L' where L': "inv_at (add_free_block s a ord) L'" "L' AllocHead = L AllocHead"
      "\<And>x. x \<noteq> ord \<Longrightarrow> L' (FreeHead x) = L (FreeHead x)"
      "\<And>c. c \<in> live L \<Longrightarrow> blocks (add_free_block s a ord) c = blocks s c"
      "\<And>c. c \<in> live L' \<Longrightarrow> c \<notin> live L \<Longrightarrow>
         c = Blk (block_count s) \<and> blk_frames (blocks (add_free_block s a ord) c) = frames a ord"
      "live L \<subseteq> live L'" "free_frames_of (add_free_block s a ord) L' =
         free_frames_of s L \<union> (if block_count s < MAX_BLOCK_DESC then frames a ord else {})"
    by (rule add_free_block_spec [OF assms]) (assumption, rule that)
  have "\<not> allocated (blocks (add_free_block s a ord) c)" if "c \<in> live L'" "c \<notin> live L" for c
  proof -
    have "c \<notin> set (L' AllocHead)"
      using that(2) by (simp add: L'(2) live_alt)
    then show ?thesis
      using that(1) rep_free_blks [OF inv_at_rep [OF L'(1)]] by (simp add: live_alt)
  qed
  then show ?thesis
    using L' add_free_block_count [of s a ord]
    by (intro exI [of _ L']) (auto simp: grows_def split: if_splits)
qed

text \<open>The frames from address \<open>a\<close> up to address \<open>e\<close>.\<close>

abbreviation between :: "u64 \<Rightarrow> u64 \<Rightarrow> nat set" where
  "between a e \<equiv> {page_no a..<page_no e}"

text \<open>One block added at the start of a range, and the rest of the range.\<close>

lemma grows_range:
  assumes inv: "inv_at s L" and ord: "ord \<le> MAX_ORDER" "aligned a ord" "unat a + 4096 * 2 ^ ord \<le> unat e"
    and dis: "\<And>c. c \<in> live L \<Longrightarrow> between a e \<inter> blk_frames (blocks s c) = {}"
    and b: "b = a + block_bytes ord" and t: "t = add_free_block s a ord" and X: "ord \<in> X"
  obtains M where "inv_at t M" "\<And>c. c \<in> live M \<Longrightarrow> between b e \<inter> blk_frames (blocks t c) = {}"
    "\<And>Q u N. grows X Q t M u N \<Longrightarrow> Q = between b e \<Longrightarrow> grows X (between a e) s L u N"
proof -
  note pn = page_no_plus [OF ord(3) unat_block_bytes [OF ord(1)], folded b]
  have fr: "between a e = frames a ord \<union> between b e" "frames a ord \<inter> between b e = {}"
    using page_no_mono [OF ord(3)] by (auto simp: frames_def pn(2))
  have "\<exists>M. grows {ord} (frames a ord) s L t M"
    unfolding t by (rule add_free_block_grows [OF inv ord(1,2)]) (use dis fr in blast)
  then obtain M where M: "grows {ord} (frames a ord) s L t M" ..
  show ?thesis
  proof (rule that)
    show "inv_at t M"
      using M by (rule grows_inv)
    show "between b e \<inter> blk_frames (blocks t c) = {}" if "c \<in> live M" for c
      using grows_frames [OF M that] dis [of c] fr by (elim disjE conjE) (blast, simp add: Int_Un_distrib2)
    show "grows X (between a e) s L u N" if "grows X Q t M u N" "Q = between b e" for Q u N
      using grows_trans [OF grows_mono [OF M] that(1)] X that(2) by (simp add: fr(1))
  qed
qed

lemma add_region_loop_spec:
  assumes "inv_at s L" "4096 dvd unat addr" "4096 dvd unat end" "addr \<le> end"
    and "\<And>c. c \<in> live L \<Longrightarrow> between addr end \<inter> blk_frames (blocks s c) = {}"
  shows "\<exists>L'. grows UNIV (between addr end) s L (add_region_loop s addr end) L'"
  using assms
proof (induction "unat end - unat addr" arbitrary: s L addr rule: less_induct)
  case less
  show ?case
  proof (cases "addr < end")
    case False
    with less.prems(4) have "addr = end"
      by simp
    then show ?thesis
      using grows_refl [OF less.prems(1)] by (intro exI [of _ L]) (simp add: add_region_loop.simps)
  next
    case True
    obtain ord where ord: "ord \<le> MAX_ORDER" "aligned addr ord" "unat addr + 4096 * 2 ^ ord \<le> unat end"
        "add_region_loop s addr end = add_region_loop (add_free_block s addr ord) (addr + block_bytes ord) end"
      by (rule add_region_round [OF True less.prems(2,3)]) (rule that)
    let ?s = "add_free_block s addr ord" and ?a = "addr + block_bytes ord"
    note a = page_no_plus [OF ord(3) unat_block_bytes [OF ord(1)]]
    obtain M where M: "inv_at ?s M" "\<And>c. c \<in> live M \<Longrightarrow> between ?a end \<inter> blk_frames (blocks ?s c) = {}"
        "\<And>Q u N. grows UNIV Q ?s M u N \<Longrightarrow> Q = between ?a end \<Longrightarrow> grows UNIV (between addr end) s L u N"
      by (rule grows_range [OF less.prems(1) ord(1-3) less.prems(5) refl refl UNIV_I]) (assumption, rule that)
    have "unat end - unat ?a < unat end - unat addr"
      using ord(3) zero_less_power [of "2::nat" ord] unfolding a(1) by linarith
    moreover have "4096 dvd unat ?a" "?a \<le> end"
      using less.prems(2) ord(3) by (simp_all add: a(1) word_le_nat_alt)
    ultimately show ?thesis
      using less.hyps [OF _ M(1) _ less.prems(3) _ M(2)] M(3) [OF _ refl] unfolding ord(4) by blast
  qed
qed

end
