(* ===== verification/Pmm_Reserve.thy ===== *)
theory Pmm_Reserve
  imports Pmm_Region
begin

text \<open>
  Reserving a region: the loop over the free lists takes every block that meets the region
  off its list and gives the frames outside the region back, one page at a time.
\<close>

section \<open>Giving back a range\<close>

lemma readd_round:
  assumes "4096 dvd unat addr" "4096 \<le> unat sz"
  shows "readd_blocks ord addr sz s =
    readd_blocks ord (addr + block_bytes 0) (sz - block_bytes 0) (add_free_block s addr 0)"
proof -
  have "[0..<ord + 1] = 0 # [1..<ord + 1]"
    by (simp add: upt_rec)
  moreover have "order_fits addr sz 0"
    using assms by (simp add: order_fits_iff aligned_def)
  ultimately have "find (order_fits addr sz) [0..<ord + 1] = Some 0"
    by simp
  moreover have "PAGE_SIZE \<le> sz"
    using assms(2) by (simp add: word_le_nat_alt)
  ultimately show ?thesis
    by (simp add: readd_blocks.simps [of ord addr sz s])
qed

lemma readd_blocks_spec:
  assumes "inv_at s L" "4096 dvd unat addr" "unat addr + 4096 * n = unat e" "unat sz = 4096 * n"
    and "\<And>c. c \<in> live L \<Longrightarrow> between addr e \<inter> blk_frames (blocks s c) = {}"
  shows "\<exists>s' M. readd_blocks ord addr sz s = Some s' \<and> grows {0} (between addr e) s L s' M"
  using assms
proof (induction n arbitrary: s L addr sz)
  case 0
  then have "\<not> PAGE_SIZE \<le> sz" "page_no addr = page_no e"
    by (simp_all add: word_le_nat_alt page_no_def)
  then show ?case
    using grows_refl [OF "0.prems"(1)] by (intro exI [of _ s] exI [of _ L]) (simp add: readd_blocks.simps)
next
  case (Suc n)
  let ?s = "add_free_block s addr 0" and ?a = "addr + block_bytes 0"
  have le: "unat addr + 4096 * 2 ^ 0 \<le> unat e" and al: "aligned addr 0"
    using Suc.prems(2,3) by (simp_all add: aligned_def)
  obtain M where M: "inv_at ?s M" "\<And>c. c \<in> live M \<Longrightarrow> between ?a e \<inter> blk_frames (blocks ?s c) = {}"
      "\<And>Q u N. grows {0} Q ?s M u N \<Longrightarrow> Q = between ?a e \<Longrightarrow> grows {0} (between addr e) s L u N"
    by (rule grows_range [OF Suc.prems(1) _ al le Suc.prems(5) refl refl, of "{0}"]) (assumption | rule that | simp)+
  note a = page_no_plus(1) [OF le unat_block_bytes, simplified]
  have "4096 dvd unat ?a" "unat ?a + 4096 * n = unat e"
    using Suc.prems(2,3) by (simp_all add: a)
  moreover have "unat (sz - block_bytes 0) = 4096 * n"
    using Suc.prems(4) by (simp add: unat_sub word_le_nat_alt unat_block_bytes)
  ultimately have "\<exists>s' N. readd_blocks ord ?a (sz - block_bytes 0) ?s = Some s' \<and> grows {0} (between ?a e) ?s M s' N"
    by (rule Suc.IH [OF M(1)]) (rule M(2))
  moreover have "readd_blocks ord addr sz s = readd_blocks ord ?a (sz - block_bytes 0) ?s"
    using Suc.prems(2,4) by (intro readd_round) simp_all
  ultimately show ?case
    using M(3) [OF _ refl] by auto
qed

section \<open>Reserving a block\<close>

text \<open>
  Taking blocks off the lists: every block on the lists afterwards was there before or is a
  new free block outside \<open>W\<close>, no frame is added, and outside \<open>W\<close> none is lost unless the
  descriptors ran out on the way.
\<close>

definition carved :: "nat set \<Rightarrow> pmm_state \<Rightarrow> (pmm_node \<Rightarrow> pmm_node list) \<Rightarrow>
    pmm_state \<Rightarrow> (pmm_node \<Rightarrow> pmm_node list) \<Rightarrow> bool" where
  "carved W s L s' L' \<longleftrightarrow> inv_at s' L' \<and> L' AllocHead = L AllocHead \<and> block_count s \<le> block_count s' \<and>
     (\<forall>c\<in>live L'. c \<in> live L \<and> blocks s' c = blocks s c \<or>
        \<not> allocated (blocks s' c) \<and> blk_frames (blocks s' c) \<inter> W = {}) \<and>
     free_frames_of s' L' \<subseteq> free_frames_of s L \<and>
     (block_count s' < MAX_BLOCK_DESC \<longrightarrow> free_frames_of s L - W \<subseteq> free_frames_of s' L')"

lemma carved_refl: "inv_at s L \<Longrightarrow> carved W s L s L"
  by (simp add: carved_def)

lemma carved_trans:
  assumes "carved W s L t M" "carved W t M u N"
  shows "carved W s L u N"
proof -
  have "c \<in> live L \<and> blocks u c = blocks s c \<or> \<not> allocated (blocks u c) \<and> blk_frames (blocks u c) \<inter> W = {}"
    if "c \<in> live N" for c
    using assms that unfolding carved_def by metis
  then show ?thesis
    using assms unfolding carved_def by auto
qed

lemma carved_inv: "carved W s L t M \<Longrightarrow> inv_at t M"
  by (simp add: carved_def)

lemma carved_detach:
  assumes inv: "inv_at s L" and ord: "ord \<le> MAX_ORDER" and b: "b \<in> set (L (FreeHead ord))"
    and t: "t = add_count (set_links s (list_remove (pmm_links s) b)) ord (-1)"
    and M: "M = L(FreeHead ord := remove1 b (L (FreeHead ord)))"
    and g: "grows X R t M u N" and R: "blk_frames (blocks s b) - W \<subseteq> R" "R \<subseteq> blk_frames (blocks s b)" "R \<inter> W = {}"
  shows "carved W s L u N"
proof -
  have t': "t = set_block (add_count (set_links s (list_remove (pmm_links s) b)) ord (-1)) b (blocks s b)"
    by (simp add: t set_block_def)
  note d = detach_free [OF inv ord b t' M]
  have bt: "blocks t = blocks s"
    using d(6) by simp
  have "c \<in> live L \<and> blocks u c = blocks s c \<or> \<not> allocated (blocks u c) \<and> blk_frames (blocks u c) \<inter> W = {}"
    if "c \<in> live N" for c
    using grows_frames [OF g that] R(3) unfolding bt d(2) by blast
  moreover have "blk_frames (blocks s b) \<subseteq> free_frames_of s L"
    using inv_at_free(4) [OF inv ord b] by (auto simp: free_frames_of_def)
  ultimately show ?thesis
    using g R d(3,4,7) unfolding carved_def grows_def by auto
qed

lemma grows_free_pages [simp]: "grows X R (add_free_pages s d) L t M = grows X R s L t M"
  by (simp add: grows_def free_frames_of_def)

lemma page_less_iff: "4096 dvd unat a \<Longrightarrow> 4096 dvd unat b \<Longrightarrow> a < b \<longleftrightarrow> page_no a < page_no b"
  by (auto simp: page_no_def word_less_nat_alt elim!: dvdE)

lemma readd_if:
  assumes "inv_at s L" "4096 dvd unat a" "4096 dvd unat e"
    and "\<And>c. c \<in> live L \<Longrightarrow> between a e \<inter> blk_frames (blocks s c) = {}"
  obtains s' M where "(if a < e then readd_blocks ord a (e - a) s else Some s) = Some s'"
    "grows {0} (between a e) s L s' M" "\<not> a < e \<Longrightarrow> M = L"
proof (cases "a < e")
  case False
  then have "between a e = {}"
    using page_less_iff [OF assms(2,3)] by simp
  with False grows_refl [OF assms(1)] show ?thesis
    by (intro that [of s L]) simp_all
next
  case True
  have le: "unat a \<le> unat e"
    using True by (simp add: word_less_nat_alt)
  obtain n where n: "unat e - unat a = 4096 * n"
    using dvd_diff_nat [OF assms(3,2)] by (auto elim!: dvdE)
  have "\<exists>s' M. readd_blocks ord a (e - a) s = Some s' \<and> grows {0} (between a e) s L s' M"
    by (rule readd_blocks_spec [OF assms(1,2) _ _ assms(4), where n = n])
       (use le n True in \<open>simp_all add: unat_diff order.strict_implies_order\<close>)
  with True show ?thesis
    by (auto intro: that)
qed

lemma block_end:
  assumes "aligned a ord" "ord \<le> MAX_ORDER" "2 ^ 52 - 1 \<notin> frames a ord"
  shows "unat (a + block_bytes ord) = unat a + 4096 * 2 ^ ord" "frames a ord = between a (a + block_bytes ord)"
proof -
  have le: "4096 * page_no a + 4096 * 2 ^ ord \<le> 2 ^ 64"
    using aligned_no_wrap [OF assms(1,2)] page_no_aligned [OF assms(1)] by simp
  have "(0::nat) < 2 ^ ord"
    by simp
  then have "page_no a + 2 ^ ord \<noteq> 2 ^ 52"
    using assms(3) unfolding frames_def atLeastLessThan_iff by linarith
  moreover have "page_no a + 2 ^ ord \<le> 2 ^ 52"
    using le by simp
  ultimately have "page_no a + 2 ^ ord < 2 ^ 52"
    by simp
  then have "4096 * page_no a + 4096 * 2 ^ ord < 2 ^ 64"
    by simp
  then show "unat (a + block_bytes ord) = unat a + 4096 * 2 ^ ord"
    unfolding page_no_aligned [OF assms(1)] using assms(2) by (simp add: unat_word_ariths unat_block_bytes)
  then show "frames a ord = between a (a + block_bytes ord)"
    by (simp add: frames_def page_no_def add.commute)
qed

text \<open>The middle of \<open>reserve_block\<close>: both ends of a block that was taken off its list.\<close>

lemma readd_ends:
  assumes inv: "inv_at t M" and dvd: "4096 dvd unat bs" "4096 dvd unat be" "4096 dvd unat addr" "4096 dvd unat end"
    and pg: "page_no addr < page_no end" "page_no addr < page_no be" "page_no bs < page_no end"
    and dj: "\<And>c. c \<in> live M \<Longrightarrow> between bs be \<inter> blk_frames (blocks t c) = {}"
  obtains u N where
    "Option.bind (if bs < addr then readd_blocks ord bs (addr - bs) t else Some t)
       (\<lambda>s. if end < be then readd_blocks ord end (be - end) s else Some s) = Some u"
    "grows {0} (between bs addr \<union> between end be) t M u N" "\<not> bs < addr \<Longrightarrow> \<not> end < be \<Longrightarrow> N = M"
proof -
  have sub: "between bs addr \<subseteq> between bs be" "between end be \<subseteq> between bs be"
      "between end be \<inter> between bs addr = {}"
    using pg by auto
  have "between bs addr \<inter> blk_frames (blocks t c) = {}" if "c \<in> live M" for c
    using dj [OF that] sub(1) by blast
  then obtain u N where u: "(if bs < addr then readd_blocks ord bs (addr - bs) t else Some t) = Some u"
      "grows {0} (between bs addr) t M u N" "\<not> bs < addr \<Longrightarrow> N = M"
    by (rule readd_if [OF inv dvd(1,3)]) (assumption, rule that)
  have "between end be \<inter> blk_frames (blocks u c) = {}" if "c \<in> live N" for c
    using grows_frames [OF u(2) that]
  proof (elim disjE conjE)
    assume "blk_frames (blocks u c) \<subseteq> between bs addr"
    with sub(3) show ?thesis by blast
  next
    assume "c \<in> live M" "blocks u c = blocks t c"
    then have "between bs be \<inter> blk_frames (blocks u c) = {}"
      using dj [of c] by simp
    with sub(2) show ?thesis by blast
  qed
  then obtain w K where w: "(if end < be then readd_blocks ord end (be - end) u else Some u) = Some w"
      "grows {0} (between end be) u N w K" "\<not> end < be \<Longrightarrow> K = N"
    by (rule readd_if [OF grows_inv [OF u(2)] dvd(4,2)]) (assumption, rule that)
  show ?thesis
    using u w grows_trans [OF u(2) w(2)] by (intro that [of w K]) simp_all
qed

lemma reserve_block_spec:
  assumes inv: "inv_at s L" and ord: "ord \<le> MAX_ORDER" and b: "b \<in> set (L (FreeHead ord))"
    and al: "4096 dvd unat addr" "4096 dvd unat end" "addr < end"
    and top: "2 ^ 52 - 1 \<notin> blk_frames (blocks s b)"
  obtains s' L' where "reserve_block ord addr end b s = Some s'" "carved (between addr end) s L s' L'"
    "blk_frames (blocks s b) \<inter> between addr end = {} \<and> L' = L \<or>
     L' (FreeHead ord) = remove1 b (L (FreeHead ord))"
proof -
  define bs where "bs = base_addr (blocks s b)"
  define be where "be = bs + block_bytes ord"
  note bf = inv_at_free [OF inv ord b]
  have bal: "aligned bs ord" and blk: "blk_frames (blocks s b) = frames bs ord"
    using inv_at_live(2) [OF inv bf(3)] bf(1) by (simp_all add: bs_def)
  note be = block_end [OF bal ord top [unfolded blk], folded be_def]
  have dvd: "4096 dvd unat bs" "4096 dvd unat be"
    using bal be(1) by (auto simp: aligned_def dest: dvd_mult_left)
  note less = page_less_iff [OF al(1) dvd(2)] page_less_iff [OF dvd(1) al(2)] page_less_iff [OF al(1,2)]
    page_less_iff [OF dvd(1) al(1)] page_less_iff [OF al(2) dvd(2)]
  show ?thesis
  proof (cases "addr < be \<and> bs < end")
    case False
    then have "reserve_block ord addr end b s = Some s"
      by (auto simp: reserve_block_def Let_def bs_def be_def)
    moreover have "blk_frames (blocks s b) \<inter> between addr end = {}"
      using False unfolding blk be(2) less by auto
    ultimately show ?thesis
      using carved_refl [OF inv] by (intro that [of s L]) simp_all
  next
    case True
    define t where "t = add_count (set_links s (list_remove (pmm_links s) b)) ord (-1)"
    define M where "M = L(FreeHead ord := remove1 b (L (FreeHead ord)))"
    define t1 where "t1 = add_free_pages t (- (2 ^ ord))"
    have t: "t = set_block (add_count (set_links s (list_remove (pmm_links s) b)) ord (-1)) b (blocks s b)"
      by (simp add: t_def set_block_def)
    note d = detach_free [OF inv ord b t M_def]
    have inv1: "inv_at t1 M"
      using d(1) by (simp add: t1_def)
    have dj: "between bs be \<inter> blk_frames (blocks t1 c) = {}" if "c \<in> live M" for c
      using d(5) [OF that] by (simp add: t1_def blk be(2))
    have pg: "page_no addr < page_no end" "page_no addr < page_no be" "page_no bs < page_no end"
      using True al(3) by (simp_all only: less)
    obtain u N where u: "Option.bind (if bs < addr then readd_blocks ord bs (addr - bs) t1 else Some t1)
         (\<lambda>s. if end < be then readd_blocks ord end (be - end) s else Some s) = Some u"
        "grows {0} (between bs addr \<union> between end be) t1 M u N" "\<not> bs < addr \<Longrightarrow> \<not> end < be \<Longrightarrow> N = M"
      by (rule readd_ends [OF inv1 dvd al(1,2) pg dj]) (assumption, rule that)
    have "reserve_block ord addr end b s = Some u"
      using True u(1) by (simp only: reserve_block_def Let_def bs_def be_def t_def t1_def) simp
    moreover have "carved (between addr end) s L u N"
      by (rule carved_detach [OF inv ord b t_def M_def u(2) [unfolded t1_def grows_free_pages]])
         (use pg in \<open>auto simp: blk be(2)\<close>)
    moreover have "N (FreeHead ord) = remove1 b (L (FreeHead ord))"
    proof (cases "ord = 0")
      case True
      then have "page_no be = Suc (page_no bs)"
        using be(1) by (simp add: page_no_def)
      then have "\<not> bs < addr" "\<not> end < be"
        using pg unfolding less by auto
      then show ?thesis
        using u(3) by (simp add: M_def)
    next
      case False
      then show ?thesis
        using u(2) by (simp add: grows_def M_def)
    qed
    ultimately show ?thesis
      by (intro that [of u N]) simp_all
  qed
qed

section \<open>Reserving over the lists\<close>

lemma carved_cases:
  "carved W s L t M \<Longrightarrow> c \<in> live M \<Longrightarrow>
   c \<in> live L \<and> blocks t c = blocks s c \<or> \<not> allocated (blocks t c) \<and> blk_frames (blocks t c) \<inter> W = {}"
  by (simp add: carved_def)

lemma carved_free_frames: "carved W s L t M \<Longrightarrow> free_frames_of t M \<subseteq> free_frames_of s L"
  by (simp add: carved_def)

lemma free_list_iff:
  assumes "inv_at s L" "x \<le> MAX_ORDER"
  shows "c \<in> set (L (FreeHead x)) \<longleftrightarrow> c \<in> live L \<and> \<not> allocated (blocks s c) \<and> blk_order (blocks s c) = x"
proof
  assume "c \<in> live L \<and> \<not> allocated (blocks s c) \<and> blk_order (blocks s c) = x"
  then have "c \<in> free_blks L" and x: "blk_order (blocks s c) = x"
    by (simp_all add: free_blks_live [OF inv_at_rep [OF assms(1)]])
  then obtain y where "y \<le> MAX_ORDER" "c \<in> set (L (FreeHead y))"
    by (auto simp: free_blks_def)
  then show "c \<in> set (L (FreeHead x))"
    using inv_at_free(1) [OF assms(1)] x by metis
qed (use inv_at_free [OF assms] in simp)

definition clean :: "nat set \<Rightarrow> pmm_state \<Rightarrow> pmm_node set \<Rightarrow> bool" where
  "clean W s B \<longleftrightarrow> (\<forall>c\<in>B. blk_frames (blocks s c) \<inter> W = {})"

lemma carved_clean:
  assumes "carved W s L t M" "inv_at s L" "x \<le> MAX_ORDER" "clean W s (set (L (FreeHead x)))"
  shows "clean W t (set (M (FreeHead x)))"
  unfolding clean_def
proof
  fix c assume "c \<in> set (M (FreeHead x))"
  then have c: "c \<in> live M" "\<not> allocated (blocks t c)" "blk_order (blocks t c) = x"
    using free_list_iff [OF carved_inv [OF assms(1)] assms(3)] by auto
  from carved_cases [OF assms(1) c(1)] show "blk_frames (blocks t c) \<inter> W = {}"
  proof (elim disjE conjE)
    assume same: "c \<in> live L" "blocks t c = blocks s c"
    then have "c \<in> set (L (FreeHead x))"
      using c(2,3) by (simp add: free_list_iff [OF assms(2,3)])
    with assms(4) same(2) show ?thesis
      by (simp add: clean_def)
  qed
qed

lemma reserve_list_spec:
  assumes "inv_at s L" "ord \<le> MAX_ORDER" "4096 dvd unat addr" "4096 dvd unat end" "addr < end"
    and "2 ^ 52 - 1 \<notin> free_frames_of s L"
    and "L (FreeHead ord) = ds @ ts" "clean (between addr end) s (set ds)"
    and "pos = hd (ts @ [FreeHead ord])" "n = nxt (pmm_links s) pos"
  shows "\<exists>s' L'. reserve_list ord addr end pos n s = Some s' \<and> carved (between addr end) s L s' L' \<and>
    clean (between addr end) s' (set (L' (FreeHead ord)))"
  using assms(1,6-10)
proof (induction ts arbitrary: s L ds pos n)
  case Nil
  then show ?case
    using carved_refl [of s L] by (auto simp: reserve_list.simps)
next
  case (Cons b ts)
  let ?W = "between addr end"
  have b: "b \<in> set (L (FreeHead ord))" and pos: "pos = b"
    using Cons.prems(3,5) by simp_all
  note bf = inv_at_free [OF Cons.prems(1) assms(2) b]
  have ring: "ring (pmm_links s) (FreeHead ord) (ds @ b # ts)"
    using rep_ring [OF inv_at_rep [OF Cons.prems(1)], of "FreeHead ord"] assms(2) Cons.prems(3) by simp
  have n: "n = hd (ts @ [FreeHead ord])" and dist: "distinct (ds @ b # ts)" and ne: "b \<noteq> FreeHead ord"
    using ring_next_cell [OF ring] Cons.prems(6) pos ring_distinct [OF ring] by auto
  have "2 ^ 52 - 1 \<notin> blk_frames (blocks s b)"
    using Cons.prems(2) bf(4) by (auto simp: free_frames_of_def)
  then obtain s1 L1 where s1: "reserve_block ord addr end b s = Some s1" "carved ?W s L s1 L1"
      "blk_frames (blocks s b) \<inter> ?W = {} \<and> L1 = L \<or> L1 (FreeHead ord) = remove1 b (L (FreeHead ord))"
    by (rule reserve_block_spec [OF Cons.prems(1) assms(2) b assms(3-5)]) (rule that)
  from s1(3) obtain ds' where ds': "L1 (FreeHead ord) = ds' @ ts" "clean ?W s (set ds')"
  proof (elim disjE conjE)
    assume "blk_frames (blocks s b) \<inter> ?W = {}" "L1 = L"
    then show ?thesis
      using Cons.prems(3,4) by (intro that [of "ds @ [b]"]) (simp_all add: clean_def)
  next
    assume "L1 (FreeHead ord) = remove1 b (L (FreeHead ord))"
    then show ?thesis
      using Cons.prems(3,4) dist by (intro that [of ds]) (simp_all add: remove1_append)
  qed
  have "clean ?W s1 (set ds')"
    unfolding clean_def
  proof
    fix c assume c: "c \<in> set ds'"
    then have "c \<in> live L1"
      using free_list_iff [OF carved_inv [OF s1(2)] assms(2), of c] ds'(1) by simp
    from carved_cases [OF s1(2) this] show "blk_frames (blocks s1 c) \<inter> ?W = {}"
      using ds'(2) c unfolding clean_def by (elim disjE conjE) simp_all
  qed
  moreover have "2 ^ 52 - 1 \<notin> free_frames_of s1 L1"
    using Cons.prems(2) carved_free_frames [OF s1(2)] by blast
  ultimately obtain s' L' where "reserve_list ord addr end n (nxt (pmm_links s1) n) s1 = Some s'"
      "carved ?W s1 L1 s' L'" "clean ?W s' (set (L' (FreeHead ord)))"
    using Cons.IH [OF carved_inv [OF s1(2)] _ ds'(1) _ n refl] by blast
  then show ?case
    using carved_trans [OF s1(2)] ne s1(1) pos
    by (intro exI [of _ s'] exI [of _ L']) (simp add: reserve_list.simps [of ord addr "end" b])
qed

lemma reserve_orders_spec:
  assumes "4096 dvd unat addr" "4096 dvd unat end" "addr < end"
    and "inv_at s L" "set ords \<subseteq> {..MAX_ORDER}" "2 ^ 52 - 1 \<notin> free_frames_of s L"
  shows "\<exists>s' L'. reserve_orders addr end ords s = Some s' \<and> carved (between addr end) s L s' L' \<and>
    (\<forall>x\<in>set ords. clean (between addr end) s' (set (L' (FreeHead x))))"
  using assms(4-6)
proof (induction ords arbitrary: s L)
  case Nil
  then show ?case
    using carved_refl [of s L] by auto
next
  case (Cons ord ords)
  let ?W = "between addr end"
  let ?pos = "nxt (pmm_links s) (FreeHead ord)"
  have ord: "ord \<le> MAX_ORDER"
    using Cons.prems(2) by simp
  have "ring (pmm_links s) (FreeHead ord) (L (FreeHead ord))"
    using rep_ring [OF inv_at_rep [OF Cons.prems(1)], of "FreeHead ord"] ord by simp
  then have pos: "?pos = hd (L (FreeHead ord) @ [FreeHead ord])"
    by (rule ring_next_head)
  obtain t M where t: "reserve_list ord addr end ?pos (nxt (pmm_links s) ?pos) s = Some t"
      "carved ?W s L t M" "clean ?W t (set (M (FreeHead ord)))"
    using reserve_list_spec [OF Cons.prems(1) ord assms(1-3) Cons.prems(3) _ _ pos refl, of "[]"]
    by (auto simp: clean_def)
  have "2 ^ 52 - 1 \<notin> free_frames_of t M"
    using Cons.prems(3) carved_free_frames [OF t(2)] by blast
  then obtain s' L' where s': "reserve_orders addr end ords t = Some s'" "carved ?W t M s' L'"
      "\<forall>x\<in>set ords. clean ?W s' (set (L' (FreeHead x)))"
    using Cons.IH [OF carved_inv [OF t(2)]] Cons.prems(2) by auto
  show ?case
    using carved_trans [OF t(2) s'(2)] carved_clean [OF s'(2) carved_inv [OF t(2)] ord t(3)] t(1) s'(1,3)
    by (intro exI [of _ s'] exI [of _ L']) (simp add: Let_def)
qed

end
