(* ===== verification/Pmm_Props.thy ===== *)
theory Pmm_Props
  imports Pmm_Reserve
begin

text \<open>
  The contract of the physical memory manager: what its public operations do to the free
  frames and to the blocks handed out, the interface \<open>page_allocator\<close> that the rest of the
  kernel relies on, and its interpretation on the model.
\<close>

section \<open>Initialisation\<close>

lemma list_init_links: "nxt (list_init h p) = (nxt h)(p := p)" "prv (list_init h p) = (prv h)(p := p)"
  by (simp_all add: list_init_def Let_def)

lemma fold_list_init:
  "nxt (fold (\<lambda>i h. list_init h (f i)) xs h) p = (if p \<in> f ` set xs then p else nxt h p)"
  "prv (fold (\<lambda>i h. list_init h (f i)) xs h) p = (if p \<in> f ` set xs then p else prv h p)"
  by (induction xs arbitrary: h) (auto simp: list_init_links)

lemma pmm_reset_spec:
  "inv_at (pmm_reset s) (\<lambda>_. [])" "block_count (pmm_reset s) = 0"
proof -
  have "nxt (pmm_links (pmm_reset s)) p = p \<and> prv (pmm_links (pmm_reset s)) p = p" if "p \<in> heads" for p
    using that by (auto simp: pmm_reset_def Let_def list_init_links fold_list_init heads_def)
  then show "inv_at (pmm_reset s) (\<lambda>_. [])"
    by (simp add: inv_at_def rep_def rings_def ring_Nil cells_def live_def counts_def)
       (simp add: pmm_reset_def Let_def)
  show "block_count (pmm_reset s) = 0"
    by (simp add: pmm_reset_def Let_def)
qed

lemma pmm_reset_abs: "pmm_inv (pmm_reset s)" "free_frames (pmm_reset s) = {}" "allocs (pmm_reset s) = {}"
  using pmm_reset_spec(1) [of s] rep_abs [OF inv_at_rep [OF pmm_reset_spec(1) [of s]]]
  by (simp_all add: inv_at_def free_frames_of_def free_blks_def allocs_of_def)

section \<open>Regions\<close>

text \<open>The frames of the blocks handed out.\<close>

definition used_frames :: "pmm_state \<Rightarrow> nat set" where
  "used_frames s = (\<Union>(a, ord)\<in>allocs s. frames a ord)"

lemma live_frames:
  assumes "inv_at s L" "c \<in> live L"
  shows "blk_frames (blocks s c) \<subseteq> free_frames s \<union> used_frames s"
  using assms(2) unfolding live_alt used_frames_def rep_abs(1,2) [OF inv_at_rep [OF assms(1)]]
  by (auto simp: free_frames_of_def allocs_of_def)

lemma used_free_disjoint:
  assumes "pmm_inv s"
  shows "used_frames s \<inter> free_frames s = {}"
proof -
  have inv: "inv_at s (blocks_on s)"
    using assms by (rule pmm_inv_at)
  have "blk_frames (blocks s b) \<inter> blk_frames (blocks s c) = {}"
    if "b \<in> set (blocks_on s AllocHead)" "c \<in> free_blks (blocks_on s)" for b c
    using that rep_free_blks [OF inv_at_rep [OF inv], of c] rep_alloc_blks [OF inv_at_rep [OF inv], of b]
    by (intro inv_at_disjoint [OF inv]) (auto simp: live_alt)
  then show ?thesis
    by (auto simp: used_frames_def free_frames_def free_frames_of_def allocs_def allocs_of_def)
qed

lemma used_disjoint:
  assumes "pmm_inv s" "(a, x) \<in> allocs s" "(b, y) \<in> allocs s" "(a, x) \<noteq> (b, y)"
  shows "frames a x \<inter> frames b y = {}"
proof -
  have inv: "inv_at s (blocks_on s)"
    using assms(1) by (rule pmm_inv_at)
  from assms(2,3) obtain c d where "c \<in> live (blocks_on s)" "d \<in> live (blocks_on s)"
      "base_addr (blocks s c) = a" "blk_order (blocks s c) = x"
      "base_addr (blocks s d) = b" "blk_order (blocks s d) = y"
    by (auto simp: allocs_def allocs_of_def live_alt)
  with assms(4) show ?thesis
    using inv_at_disjoint [OF inv, of c d] by auto
qed

text \<open>The frames \<open>pmm_add_region\<close> adds: as many whole pages as the region's length holds,
  from the first page boundary in or after it.\<close>

definition region_frames :: "u64 \<Rightarrow> u64 \<Rightarrow> nat set" where
  "region_frames base sz = {(unat base + 4095) div 4096..<(unat base + 4095) div 4096 + unat sz div 4096}"

lemma pmm_add_region_grows:
  assumes inv: "pmm_inv s" and nw: "unat base + unat sz + 4095 < 2 ^ 64"
    and dis: "region_frames base sz \<inter> (free_frames s \<union> used_frames s) = {}"
  obtains L' where "grows UNIV (region_frames base sz) s (blocks_on s) (pmm_add_region s base sz) L'"
proof -
  define a where "a = page_up base"
  define z where "z = page_down sz"
  have inv': "inv_at s (blocks_on s)"
    using inv by (rule pmm_inv_at)
  have ua: "unat a = (unat base + 4095) div 4096 * 4096" and uz: "unat z = unat sz div 4096 * 4096"
    using nw by (simp_all add: a_def z_def unat_page_up unat_page_down minus_mod_eq_div_mult)
  have "unat a + unat z \<le> unat base + 4095 + unat sz"
    unfolding ua uz by (intro add_mono div_times_less_eq_dividend)
  then have uaz: "unat (a + z) = unat a + unat z"
    using nw by (intro unat_plus_no_wrap) simp
  have fr: "region_frames base sz = between a (a + z)"
    by (simp add: region_frames_def page_no_def uaz ua uz add.commute)
  show ?thesis
  proof (cases "z < PAGE_SIZE")
    case True
    then have "region_frames base sz = {}"
      using uz by (simp add: region_frames_def word_less_nat_alt)
    with True grows_refl [OF inv'] show ?thesis
      by (intro that [of "blocks_on s"]) (simp add: pmm_add_region_def Let_def z_def)
  next
    case False
    let ?t = "add_region_loop s a (a + z)"
    have "\<exists>L'. grows UNIV (between a (a + z)) s (blocks_on s) ?t L'"
    proof (rule add_region_loop_spec [OF inv'])
      show "4096 dvd unat a" "4096 dvd unat (a + z)" "a \<le> a + z"
        by (simp_all add: uaz ua uz word_le_nat_alt)
      show "between a (a + z) \<inter> blk_frames (blocks s c) = {}" if "c \<in> live (blocks_on s)" for c
        using live_frames [OF inv' that] dis unfolding fr by blast
    qed
    then obtain L' where L': "grows UNIV (region_frames base sz) s (blocks_on s) ?t L'"
      unfolding fr by blast
    have "pmm_add_region s base sz = ?t\<lparr>total_pages := total_pages ?t + z div PAGE_SIZE\<rparr>"
      using False by (simp add: pmm_add_region_def Let_def a_def z_def)
    with L' show ?thesis
      by (intro that [of L']) (simp add: grows_def inv_at_def rep_def counts_def free_frames_of_def)
  qed
qed

lemma pmm_add_region_spec:
  assumes "pmm_inv s" and "unat base + unat sz + 4095 < 2 ^ 64"
    and "region_frames base sz \<inter> (free_frames s \<union> used_frames s) = {}"
    and "s' = pmm_add_region s base sz"
  shows "pmm_inv s' \<and> allocs s' = allocs s \<and> free_frames s \<subseteq> free_frames s' \<and>
    free_frames s' \<subseteq> free_frames s \<union> region_frames base sz \<and>
    (block_count s' < MAX_BLOCK_DESC \<longrightarrow> free_frames s' = free_frames s \<union> region_frames base sz)"
proof -
  obtain L' where g: "grows UNIV (region_frames base sz) s (blocks_on s) s' L'"
    using pmm_add_region_grows [OF assms(1-3)] assms(4) by blast
  have i: "inv_at s (blocks_on s)"
    using assms(1) by (rule pmm_inv_at)
  note abs = rep_abs(1,2) [OF inv_at_rep [OF i]] rep_abs(1,2) [OF inv_at_rep [OF grows_inv [OF g]]]
  have "allocs s' = allocs s"
    unfolding abs allocs_of_def using g by (auto simp: grows_def live_alt)
  then show ?thesis
    using g inv_at_pmm_inv [OF grows_inv [OF g]] by (auto simp: abs grows_def)
qed

lemma pmm_add_region_count:
  assumes "pmm_inv s" and "unat base + unat sz + 4095 < 2 ^ 64"
    and "region_frames base sz \<inter> (free_frames s \<union> used_frames s) = {}"
  shows "block_count s \<le> block_count (pmm_add_region s base sz)"
  by (rule pmm_add_region_grows [OF assms]) (simp add: grows_def)


lemma pmm_reserve_region_spec:
  assumes inv: "pmm_inv s" and nw: "unat base + unat sz + 4095 < 2 ^ 64"
    and top: "2 ^ 52 - 1 \<notin> free_frames s"
  shows "\<exists>s'. pmm_reserve_region s base sz = Some s' \<and> pmm_inv s' \<and> allocs s' = allocs s \<and>
    free_frames s' \<subseteq> free_frames s - whole_pages base sz \<and>
    (block_count s' < MAX_BLOCK_DESC \<longrightarrow> free_frames s' = free_frames s - whole_pages base sz) \<and>
    block_count s \<le> block_count s'"
proof (cases "page_down (base + sz) \<le> page_up base")
  case True
  then have "page_no (page_down (base + sz)) \<le> page_no (page_up base)"
    unfolding page_no_def word_le_nat_alt by (rule div_le_mono)
  then have "whole_pages base sz = {}"
    by (simp only: whole_pages_range [OF nw]) simp
  with True inv show ?thesis
    by (simp add: pmm_reserve_region_def)
next
  case False
  let ?a = "page_up base" and ?e = "page_down (base + sz)"
  have i: "inv_at s (blocks_on s)"
    using inv by (rule pmm_inv_at)
  have al: "4096 dvd unat ?a" "4096 dvd unat ?e" "?a < ?e"
    using False by (simp_all add: dvd_eq_mod_eq_0 not_le)
  have ords: "set [0..<MAX_ORDER + 1] \<subseteq> {..MAX_ORDER}"
    by auto
  have "2 ^ 52 - 1 \<notin> free_frames_of s (blocks_on s)"
    using top by (simp add: free_frames_def)
  then obtain s' L' where r: "reserve_orders ?a ?e [0..<MAX_ORDER + 1] s = Some s'"
      "carved (between ?a ?e) s (blocks_on s) s' L'"
      "\<forall>x\<in>set [0..<MAX_ORDER + 1]. clean (between ?a ?e) s' (set (L' (FreeHead x)))"
    using reserve_orders_spec [OF al i ords] by blast
  note abs = rep_abs(1,2) [OF inv_at_rep [OF i]] rep_abs(1,2) [OF inv_at_rep [OF carved_inv [OF r(2)]]]
  have W: "whole_pages base sz = between ?a ?e"
    by (rule whole_pages_range [OF nw])
  have "clean (between ?a ?e) s' (set (L' (FreeHead x)))" if "x \<le> MAX_ORDER" for x
    using r(3) that by (simp del: page_no_page_down)
  then have "clean (between ?a ?e) s' (free_blks L')"
    unfolding clean_def free_blks_def by blast
  then have "free_frames s' \<inter> between ?a ?e = {}"
    unfolding abs clean_def free_frames_of_def by blast
  moreover have "free_frames s' \<subseteq> free_frames s"
      "block_count s' < MAX_BLOCK_DESC \<longrightarrow> free_frames s - between ?a ?e \<subseteq> free_frames s'"
    unfolding abs using r(2) by (simp_all add: carved_def)
  moreover have "blocks s' c = blocks s c" if "c \<in> set (blocks_on s AllocHead)" for c
    using r(2) that carved_cases [OF r(2), of c] rep_alloc_blks [OF inv_at_rep [OF carved_inv [OF r(2)]], of c]
    by (auto simp: carved_def live_alt)
  then have "allocs s' = allocs s"
    unfolding abs allocs_of_def using r(2) by (simp add: carved_def)
  moreover have "block_count s \<le> block_count s'"
    using r(2) by (simp add: carved_def)
  moreover have "pmm_reserve_region s base sz = Some s'"
    using False r(1) by (simp add: pmm_reserve_region_def Let_def)
  ultimately show ?thesis
    using inv_at_pmm_inv [OF carved_inv [OF r(2)]] unfolding W by (intro exI [of _ s']) blast
qed

lemma pmm_reserve_inv:
  assumes "pmm_inv s" "unat base + unat sz + 4095 < 2 ^ 64" "2 ^ 52 - 1 \<notin> free_frames s"
    and "pmm_reserve_region s base sz = Some s'"
  shows "pmm_inv s'"
  using pmm_reserve_region_spec [OF assms(1-3)] assms(4) by auto

text \<open>C4: reserving a region. \<open>pmm_reserve_region\<close> always returns; it keeps the invariant and
  the blocks handed out, no page wholly inside the region is free afterwards, no frame
  becomes free, and every other free frame stays free unless the block descriptors run out.\<close>

theorem pmm_reserve_region_reserves:
  assumes "pmm_inv s" and "unat base + unat sz + 4095 < 2 ^ 64"
    and "2 ^ 52 - 1 \<notin> free_frames s"
  shows "\<exists>s'. pmm_reserve_region s base sz = Some s' \<and> pmm_inv s' \<and> allocs s' = allocs s \<and>
    free_frames s' \<subseteq> free_frames s - whole_pages base sz \<and>
    (block_count s' < MAX_BLOCK_DESC \<longrightarrow> free_frames s' = free_frames s - whole_pages base sz)"
  using pmm_reserve_region_spec [OF assms] by blast

section \<open>The interface\<close>

text \<open>
  What the clients of a page allocator rely on: \<open>ok\<close> is its invariant, \<open>free\<close> the free
  frames, \<open>used\<close> the blocks handed out (address and order), \<open>ord_of\<close> reads the order as the
  operations take it, and address 0 is the null result.
\<close>

locale page_allocator =
  fixes ok :: "'s \<Rightarrow> bool"
    and free :: "'s \<Rightarrow> nat set"
    and used :: "'s \<Rightarrow> (u64 \<times> nat) set"
    and ord_of :: "'x \<Rightarrow> nat"
    and alloc :: "'s \<Rightarrow> 'x \<Rightarrow> u64 \<times> 's"
    and release :: "'s \<Rightarrow> u64 \<Rightarrow> 'x \<Rightarrow> 's option"
  assumes apart: "ok s \<Longrightarrow> (a, n) \<in> used s \<Longrightarrow> frames a n \<inter> free s = {}"
    and separate: "ok s \<Longrightarrow> (a, n) \<in> used s \<Longrightarrow> (b, k) \<in> used s \<Longrightarrow> (a, n) \<noteq> (b, k) \<Longrightarrow>
      frames a n \<inter> frames b k = {}"
    and alloc_ok: "ok s \<Longrightarrow> alloc s x = (a, s') \<Longrightarrow> ok s'"
    and alloc_block: "ok s \<Longrightarrow> alloc s x = (a, s') \<Longrightarrow> a \<noteq> 0 \<Longrightarrow>
      aligned a (ord_of x) \<and> frames a (ord_of x) \<subseteq> free s \<and> free s' \<subseteq> free s - frames a (ord_of x) \<and>
      used s' = insert (a, ord_of x) (used s)"
    and alloc_null: "ok s \<Longrightarrow> 0 \<notin> free s \<Longrightarrow> alloc s x = (0, s') \<Longrightarrow> free s' = free s \<and> used s' = used s"
    and release_block: "ok s \<Longrightarrow> (a, ord_of x) \<in> used s \<Longrightarrow> \<exists>s'. release s a x = Some s' \<and> ok s' \<and>
      used s' = used s - {(a, ord_of x)} \<and> free s' = free s \<union> frames a (ord_of x)"
begin

text \<open>A new block is apart from every block in use.\<close>

lemma alloc_fresh:
  assumes "ok s" "alloc s x = (a, s')" "a \<noteq> 0" "(b, n) \<in> used s"
  shows "frames a (ord_of x) \<inter> frames b n = {}"
  using alloc_block [OF assms(1-3)] apart [OF assms(1,4)] by blast

lemma alloc_new: "ok s \<Longrightarrow> alloc s x = (a, s') \<Longrightarrow> a \<noteq> 0 \<Longrightarrow> (a, ord_of x) \<notin> used s"
  using alloc_fresh [of s x a s' a "ord_of x"] by (auto simp: frames_def)

text \<open>Two allocations in a row do not overlap.\<close>

lemma alloc_twice:
  assumes "ok s" "alloc s x = (a, t)" "a \<noteq> 0" "alloc t y = (b, u)" "b \<noteq> 0"
  shows "frames a (ord_of x) \<inter> frames b (ord_of y) = {}"
  using alloc_block [OF assms(1-3)] alloc_block [OF alloc_ok [OF assms(1,2)] assms(4,5)] by blast

text \<open>Releasing a block that was just allocated gives its frames back.\<close>

lemma alloc_release:
  assumes "ok s" "alloc s x = (a, t)" "a \<noteq> 0"
  shows "\<exists>u. release t a x = Some u \<and> ok u \<and> used u = used s \<and> frames a (ord_of x) \<subseteq> free u \<and> free u \<subseteq> free s"
proof -
  note b = alloc_block [OF assms]
  then obtain u where "release t a x = Some u" "ok u" "used u = used t - {(a, ord_of x)}"
      "free u = free t \<union> frames a (ord_of x)"
    using release_block [OF alloc_ok [OF assms(1,2)], of a x] by auto
  then show ?thesis
    using b alloc_new [OF assms] by (intro exI [of _ u]) auto
qed

end

text \<open>\<open>pmm_free\<close> on the allocator and the page type table together; the table stays.\<close>

definition phys_free :: "phys_state \<Rightarrow> u64 \<Rightarrow> nat \<Rightarrow> phys_state option" where
  "phys_free m a ord = map_option (\<lambda>s. m\<lparr>pmm := s\<rparr>) (pmm_free (pmm m) a ord)"

lemma allocs_order: "pmm_inv s \<Longrightarrow> (a, x) \<in> allocs s \<Longrightarrow> x \<le> MAX_ORDER"
  using inv_at_live(1) [OF pmm_inv_at] by (auto simp: allocs_def allocs_of_def live_alt)

lemma pmm_alloc_null:
  assumes "pmm_inv (pmm m)" "0 \<notin> free_frames (pmm m)" "pmm_alloc m x = (0, m')"
  shows "m' = m"
proof (cases "x \<le> MAX_ORDER \<and> has_free (pmm m) x")
  case True
  have "page_no 0 \<in> frames 0 x"
    by (simp add: frames_def)
  then show ?thesis
    using pmm_alloc_correct(3) [OF assms(1) _ _ assms(3)] True assms(2) by (auto simp: page_no_def)
next
  case False
  then show ?thesis
    using pmm_alloc_none [OF assms(1), of x] assms(3) by auto
qed

interpretation pa: page_allocator "\<lambda>m. pmm_inv (pmm m)" "\<lambda>m. free_frames (pmm m)" "\<lambda>m. allocs (pmm m)"
  "\<lambda>x. x" pmm_alloc phys_free
proof
  fix m m' :: phys_state and a b :: u64 and x y :: nat
  assume inv: "pmm_inv (pmm m)"
  show "frames a x \<inter> free_frames (pmm m) = {}" if "(a, x) \<in> allocs (pmm m)"
    using used_free_disjoint [OF inv] that by (auto simp: used_frames_def)
  show "frames a x \<inter> frames b y = {}" if "(a, x) \<in> allocs (pmm m)" "(b, y) \<in> allocs (pmm m)" "(a, x) \<noteq> (b, y)"
    using that by (rule used_disjoint [OF inv])
  have none: "(a, m') = (0, m)" if "pmm_alloc m x = (a, m')" "\<not> (x \<le> MAX_ORDER \<and> has_free (pmm m) x)"
    using pmm_alloc_none [OF inv, of x] that by auto
  show "pmm_inv (pmm m')" if "pmm_alloc m x = (a, m')"
    using none [OF that] pmm_alloc_correct(1) [OF inv _ _ that] inv by auto
  show "aligned a x \<and> frames a x \<subseteq> free_frames (pmm m) \<and> free_frames (pmm m') \<subseteq> free_frames (pmm m) - frames a x \<and>
      allocs (pmm m') = insert (a, x) (allocs (pmm m))" if "pmm_alloc m x = (a, m')" "a \<noteq> 0"
    using none [OF that(1)] pmm_alloc_correct(2-5) [OF inv _ _ that(1)] that(2) by auto
  show "free_frames (pmm m') = free_frames (pmm m) \<and> allocs (pmm m') = allocs (pmm m)"
    if "0 \<notin> free_frames (pmm m)" "pmm_alloc m x = (0, m')"
    using pmm_alloc_null [OF inv that] by simp
  assume ax: "(a, x) \<in> allocs (pmm m)"
  obtain s' where "pmm_free (pmm m) a x = Some s'" "pmm_inv s'" "allocs s' = allocs (pmm m) - {(a, x)}"
      "free_frames s' = free_frames (pmm m) \<union> frames a x"
    by (rule pmm_free_correct [OF inv ax allocs_order [OF inv ax]])
  then show "\<exists>m'. phys_free m a x = Some m' \<and> pmm_inv (pmm m') \<and>
      allocs (pmm m') = allocs (pmm m) - {(a, x)} \<and> free_frames (pmm m') = free_frames (pmm m) \<union> frames a x"
    by (simp add: phys_free_def)
qed

section \<open>Runs of the allocator\<close>

text \<open>
  The states the allocator can reach: from \<open>pmm_reset\<close> by adding regions that are not managed
  yet, reserving regions, allocating, freeing and changing page types.
\<close>

inductive pmm_reach :: "phys_state \<Rightarrow> bool" where
  reset: "pmm_reach \<lparr>pmm = pmm_reset s, pcd = p\<rparr>"
| add_region: "pmm_reach m \<Longrightarrow> unat base + unat sz + 4095 < 2 ^ 64 \<Longrightarrow>
    region_frames base sz \<inter> (free_frames (pmm m) \<union> used_frames (pmm m)) = {} \<Longrightarrow>
    pmm_reach (m\<lparr>pmm := pmm_add_region (pmm m) base sz\<rparr>)"
| reserve: "pmm_reach m \<Longrightarrow> unat base + unat sz + 4095 < 2 ^ 64 \<Longrightarrow> 2 ^ 52 - 1 \<notin> free_frames (pmm m) \<Longrightarrow>
    pmm_reserve_region (pmm m) base sz = Some s \<Longrightarrow> pmm_reach (m\<lparr>pmm := s\<rparr>)"
| alloc: "pmm_reach m \<Longrightarrow> pmm_alloc m ord = (a, m') \<Longrightarrow> pmm_reach m'"
| free: "pmm_reach m \<Longrightarrow> phys_free m a ord = Some m' \<Longrightarrow> pmm_reach m'"
| set_type: "pmm_reach m \<Longrightarrow> pmm_reach (m\<lparr>pcd := p\<rparr>)"

lemma pmm_free_inv:
  assumes "pmm_inv s" "pmm_free s a x = Some s'"
  shows "pmm_inv s'"
proof (cases "x \<le> MAX_ORDER \<and> (\<exists>ord. (a, ord) \<in> allocs s)")
  case True
  then obtain ord where "(a, ord) \<in> allocs s" "x \<le> MAX_ORDER"
    by blast
  then show ?thesis
    using pmm_free_correct [OF assms(1), of a ord x] assms(2) by (metis option.inject)
next
  case False
  then show ?thesis
    using pmm_free_noop [OF assms(1), of x a] assms by auto
qed

lemma pmm_add_region_inv:
  assumes "pmm_inv s" "unat base + unat sz + 4095 < 2 ^ 64"
    "region_frames base sz \<inter> (free_frames s \<union> used_frames s) = {}"
  shows "pmm_inv (pmm_add_region s base sz)"
  using pmm_add_region_grows [OF assms] grows_inv inv_at_pmm_inv by metis

lemma pmm_reach_inv: "pmm_reach m \<Longrightarrow> pmm_inv (pmm m)"
proof (induction rule: pmm_reach.induct)
  case (reserve m base sz s)
  then show ?case
    using pmm_reserve_inv [of "pmm m" base sz s] by simp
next
  case (free m a ord m')
  then show ?case
    using pmm_free_inv [of "pmm m" a ord] by (auto simp: phys_free_def)
qed (use pmm_reset_abs(1) pmm_add_region_inv pa.alloc_ok in auto)

section \<open>Properties\<close>

text \<open>A state with one free block of 2 MB at 4 MB.\<close>

definition pmm_zero :: pmm_state where
  "pmm_zero = \<lparr>pmm_links = \<lparr>nxt = (\<lambda>p. p), prv = (\<lambda>p. p)\<rparr>, free_count = (\<lambda>_. 0), total_pages = 0,
     free_pages = 0, blocks = (\<lambda>_. \<lparr>base_addr = 0, blk_order = 0, allocated = False\<rparr>), block_count = 0\<rparr>"

definition pmm_example :: pmm_state where
  "pmm_example = pmm_add_region (pmm_reset pmm_zero) 0x400000 0x200000"

definition phys_example :: phys_state where
  "phys_example = \<lparr>pmm = pmm_example, pcd = pcd_example\<rparr>"

lemma used_frames_reset: "used_frames (pmm_reset s) = {}"
  by (simp add: used_frames_def pmm_reset_abs)

lemma add_region_loop_end [simp]: "add_region_loop s e e = s"
  by (simp add: add_region_loop.simps)

text \<open>A region that is one block.\<close>

lemma pmm_add_region_one:
  assumes "page_up base = base" "page_down sz = sz" "PAGE_SIZE \<le> sz" "unat base + unat sz + 4095 < 2 ^ 64"
    and "ord \<le> MAX_ORDER" "block_bytes ord = sz"
    and "find (order_fits base sz) (rev [1..<MAX_ORDER + 1]) = (if ord = 0 then None else Some ord)"
  shows "block_count (pmm_add_region (pmm_reset s) base sz) = 1"
proof -
  have "base < base + sz"
    using assms(3,4) unat_plus_no_wrap [of base sz] by (simp add: word_less_nat_alt word_le_nat_alt)
  moreover have "base + sz - base = sz"
    by simp
  ultimately have "add_region_loop (pmm_reset s) base (base + sz) = add_free_block (pmm_reset s) base ord"
    unfolding add_region_loop.simps [of _ base "base + sz"] using assms(3,6,7)
    by (cases "ord = 0") (simp_all add: block_bytes_def)
  then show ?thesis
    using assms(1-3) pmm_reset_spec(2) [of s]
    by (simp add: pmm_add_region_def Let_def not_less add_free_block_fields)
qed

lemma pmm_example_facts:
  "pmm_inv pmm_example" "block_count pmm_example = 1" "free_frames pmm_example = {1024..<1536}" "allocs pmm_example = {}"
proof -
  have bc: "block_count pmm_example = 1"
    unfolding pmm_example_def
    by (rule pmm_add_region_one [where ord = 9])
       (simp_all add: page_up_def page_down_def order_fits_iff aligned_def upt_rec block_bytes_def)
  have "region_frames 0x400000 0x200000 = {1024..<1536}"
    by (simp add: region_frames_def)
  then show "pmm_inv pmm_example" "block_count pmm_example = 1" "free_frames pmm_example = {1024..<1536}"
      "allocs pmm_example = {}"
    using pmm_add_region_spec [OF pmm_reset_abs(1) _ _ pmm_example_def] bc
    by (simp_all add: pmm_reset_abs used_frames_reset)
qed

lemma has_free_0: "free_frames s \<noteq> {} \<Longrightarrow> has_free s 0"
  by (force simp: free_frames_def free_frames_of_def free_blks_def has_free_def)

lemma phys_example_facts:
  "pmm_inv (pmm phys_example)" "has_free (pmm phys_example) 0" "block_count (pmm phys_example) = 1"
  "free_frames (pmm phys_example) = {1024..<1536}" "allocs (pmm phys_example) = {}"
  "pcd_wf (pcd phys_example)" "pcd_initialized (pcd phys_example)"
  using pmm_example_facts has_free_0 [of pmm_example]
  by (simp_all add: phys_example_def pcd_example_def pcd_wf_def)

lemma phys_example_reach: "pmm_reach phys_example"
proof -
  have "pmm_reach (\<lparr>pmm = pmm_reset pmm_zero, pcd = pcd_example\<rparr>
      \<lparr>pmm := pmm_add_region (pmm \<lparr>pmm = pmm_reset pmm_zero, pcd = pcd_example\<rparr>) 0x400000 0x200000\<rparr>)"
    by (rule pmm_reach.add_region [OF pmm_reach.reset]) (simp_all add: pmm_reset_abs used_frames_reset)
  then show ?thesis
    by (simp only: phys_example_def pmm_example_def phys_state.simps phys_state.update_convs)
qed

lemma phys_example_alloc:
  obtains a m where "pmm_alloc phys_example 0 = (a, m)" "pmm_inv (pmm m)" "(a, 0) \<in> allocs (pmm m)" "a \<noteq> 0"
proof -
  obtain a m where m: "pmm_alloc phys_example 0 = (a, m)"
    by (cases "pmm_alloc phys_example 0")
  note c = pmm_alloc_correct [OF phys_example_facts(1) _ phys_example_facts(2) m]
  have "page_no a \<in> {1024..<1536}"
    using c(3) by (simp add: phys_example_facts(4))
  then have "a \<noteq> 0"
    by (auto simp: page_no_def)
  with m c(1,5) show ?thesis
    by (intro that) auto
qed

text \<open>C1: in every reachable state of the allocator the free lists and the list of allocated
  blocks are well formed and their counters right, two blocks handed out never share a page
  frame, and no frame of a block handed out is free.\<close>

theorem pmm_reach_safe:
  assumes "pmm_reach m"
  shows "pmm_inv (pmm m) \<and> used_frames (pmm m) \<inter> free_frames (pmm m) = {} \<and>
    (\<forall>a x b y. (a, x) \<in> allocs (pmm m) \<longrightarrow> (b, y) \<in> allocs (pmm m) \<longrightarrow> (a, x) \<noteq> (b, y) \<longrightarrow>
       frames a x \<inter> frames b y = {})"
proof -
  have inv: "pmm_inv (pmm m)"
    using assms by (rule pmm_reach_inv)
  show ?thesis
    using inv used_free_disjoint [OF inv] used_disjoint [OF inv] by (intro conjI allI impI)
qed

theorem pmm_reach_safe_witness:
  "\<exists>m a. pmm_alloc phys_example 0 = (a, m) \<and> pmm_reach m \<and> (a, 0) \<in> allocs (pmm m) \<and> pmm_inv (pmm m) \<and>
    used_frames (pmm m) \<inter> free_frames (pmm m) = {}"
proof -
  obtain a m where m: "pmm_alloc phys_example 0 = (a, m)" "pmm_inv (pmm m)" "(a, 0) \<in> allocs (pmm m)" "a \<noteq> 0"
    by (rule phys_example_alloc)
  have "pmm_reach m"
    using phys_example_reach m(1) by (rule pmm_reach.alloc)
  with m(1,3) pmm_reach_safe [OF this] show ?thesis
    by (intro exI [of _ m] exI [of _ a]) simp
qed

text \<open>C2: \<open>pmm_alloc\<close> with a free block of sufficient order returns the address of a block of
  the order asked for, aligned to its size and made of free frames, which are free no more;
  the block is recorded as allocated and no frame is added. Nothing else is lost while the
  splitting has descriptors for the halves it creates.\<close>

theorem pmm_alloc_block:
  assumes "pmm_inv (pmm m)" and "ord \<le> MAX_ORDER" and "has_free (pmm m) ord"
    and "pmm_alloc m ord = (a, m')"
  shows "pmm_inv (pmm m') \<and> aligned a ord \<and> frames a ord \<subseteq> free_frames (pmm m) \<and>
    allocs (pmm m') = insert (a, ord) (allocs (pmm m)) \<and>
    free_frames (pmm m') \<subseteq> free_frames (pmm m) - frames a ord \<and>
    (block_count (pmm m) + (MAX_ORDER - ord) \<le> MAX_BLOCK_DESC \<longrightarrow>
       free_frames (pmm m') = free_frames (pmm m) - frames a ord)"
  using pmm_alloc_correct [OF assms] by blast

theorem pmm_alloc_block_witness:
  "\<exists>a m'. pmm_alloc phys_example 0 = (a, m') \<and> has_free (pmm phys_example) 0 \<and> pmm_inv (pmm m') \<and>
    allocs (pmm m') = {(a, 0)} \<and> free_frames (pmm m') = {1024..<1536} - {page_no a}"
proof -
  obtain a m' where m': "pmm_alloc phys_example 0 = (a, m')"
    by (cases "pmm_alloc phys_example 0")
  from pmm_alloc_block [OF phys_example_facts(1) _ phys_example_facts(2) m'] m' show ?thesis
    by (intro exI [of _ a] exI [of _ m']) (simp add: phys_example_facts)
qed



text \<open>The null result is ambiguous. With page 0 as the only free frame \<open>pmm_alloc\<close> returns
  null although it allocated the page: the caller takes this for a failure and the page is
  lost.\<close>

lemma pmm_alloc_page_zero:
  assumes "pmm_inv (pmm m)" and "free_frames (pmm m) = {0}"
  shows "\<exists>m'. pmm_alloc m 0 = (0, m') \<and> (0, 0) \<in> allocs (pmm m') \<and> free_frames (pmm m') = {}"
proof -
  obtain a m' where m': "pmm_alloc m 0 = (a, m')"
    by (cases "pmm_alloc m 0")
  note c = pmm_alloc_correct [OF assms(1) _ has_free_0 m']
  have "page_no a = 0" "aligned a 0"
    using c(2,3) assms(2) by auto
  then have "a = 0"
    using page_no_aligned [of a 0] by (simp add: unat_eq_0)
  with c(4,5) assms(2) m' show ?thesis
    by (auto simp: page_no_def)
qed

definition page_zero_example :: phys_state where
  "page_zero_example = \<lparr>pmm = pmm_add_region (pmm_reset pmm_zero) 0 0x1000, pcd = pcd_example\<rparr>"

lemma page_zero_facts: "pmm_inv (pmm page_zero_example)" "free_frames (pmm page_zero_example) = {0}"
proof -
  have "block_count (pmm page_zero_example) = 1"
    unfolding page_zero_example_def pmm_state.simps phys_state.simps
    by (rule pmm_add_region_one [where ord = 0])
       (simp_all add: page_up_def page_down_def order_fits_iff aligned_def upt_rec block_bytes_def)
  then show "pmm_inv (pmm page_zero_example)" "free_frames (pmm page_zero_example) = {0}"
    using pmm_add_region_spec [OF pmm_reset_abs(1) _ _ refl, of 0 "0x1000" pmm_zero]
    by (simp_all add: pmm_reset_abs used_frames_reset region_frames_def page_zero_example_def)
qed

lemma pmm_alloc_page_zero_witness:
  "\<exists>m'. pmm_alloc page_zero_example 0 = (0, m') \<and> (0, 0) \<in> allocs (pmm m')"
  using pmm_alloc_page_zero [OF page_zero_facts] by blast

text \<open>After \<open>pmm_alloc\<close> on an initialised page type table every page of the new block has
  type \<open>NK_NORMAL\<close> and every other page keeps its type.\<close>

lemma pmm_alloc_page_types:
  assumes "pmm_inv (pmm m)" and "ord \<le> MAX_ORDER" and "has_free (pmm m) ord"
    and "pmm_alloc m ord = (a, m')" and "pcd_wf (pcd m)" and "pcd_initialized (pcd m)"
  shows "pcd_get_type (pcd m') b =
    (if page_no b \<in> frames a ord then PCD_TYPE_NK_NORMAL else pcd_get_type (pcd m) b)"
  using pmm_alloc_correct(2,7) [OF assms(1-4)] init_page_types_spec(3) [OF assms(5,6) _ assms(2)] assms(6)
  by simp

lemma pmm_alloc_page_types_witness:
  "\<exists>a m'. pmm_alloc phys_example 0 = (a, m') \<and> pcd_get_type (pcd m') a = PCD_TYPE_NK_NORMAL \<and>
     pcd_get_type (pcd phys_example) 0x400000 = PCD_TYPE_OK_NORMAL"
proof -
  obtain a m' where m': "pmm_alloc phys_example 0 = (a, m')"
    by (cases "pmm_alloc phys_example 0")
  have "pcd_get_type (pcd phys_example) 0x400000 = PCD_TYPE_OK_NORMAL"
    unfolding pcd_get_type_eq [OF phys_example_facts(6,7)] managed_page_def page_type_def
    by (simp add: phys_example_def pcd_example_def page_no_def)
  with pmm_alloc_page_types [OF phys_example_facts(1) _ phys_example_facts(2) m' phys_example_facts(6,7), of a] m'
  show ?thesis
    by auto
qed

text \<open>C3: freeing a block that was handed out always succeeds, whatever order (in range) the
  caller passes: its frames, as many as were allocated, become free, it is no longer recorded
  as allocated, and no other frame changes.\<close>

theorem pmm_free_block:
  assumes "pmm_inv s" and "(a, ord) \<in> allocs s" and "x \<le> MAX_ORDER"
  shows "\<exists>s'. pmm_free s a x = Some s' \<and> pmm_inv s' \<and> allocs s' = allocs s - {(a, ord)} \<and>
    free_frames s' = free_frames s \<union> frames a ord"
  by (rule pmm_free_correct [OF assms]) blast

theorem pmm_free_block_witness:
  "\<exists>a m s'. pmm_alloc phys_example 0 = (a, m) \<and> pmm_free (pmm m) a 3 = Some s' \<and> pmm_inv s' \<and>
     allocs s' = allocs (pmm m) - {(a, 0)}"
proof -
  obtain a m where m: "pmm_alloc phys_example 0 = (a, m)" "pmm_inv (pmm m)" "(a, 0) \<in> allocs (pmm m)" "a \<noteq> 0"
    by (rule phys_example_alloc)
  from pmm_free_block [OF m(2,3), of 3] obtain s' where
      "pmm_free (pmm m) a 3 = Some s'" "pmm_inv s'" "allocs s' = allocs (pmm m) - {(a, 0)}"
    by auto
  with m(1) show ?thesis
    by blast
qed

text \<open>Freeing an address that was not handed out, or with an order out of range, returns and
  changes nothing; in particular a second free of the same block is harmless.\<close>

lemma pmm_free_unallocated:
  assumes "pmm_inv s" and "MAX_ORDER < x \<or> (\<forall>ord. (a, ord) \<notin> allocs s)"
  shows "pmm_free s a x = Some s"
  using assms by (rule pmm_free_noop)

lemma pmm_free_unallocated_witness:
  "allocs pmm_example = {} \<and> pmm_free pmm_example 0x400000 0 = Some pmm_example"
  using pmm_free_unallocated [OF pmm_example_facts(1), of 0 "0x400000"] by (simp add: pmm_example_facts(4))

text \<open>Allocating a block and freeing it again leaves the set of allocated blocks as it was
  and makes exactly frames free that were free before, the block's among them.\<close>

lemma pmm_alloc_free_roundtrip:
  assumes "pmm_inv (pmm m)" and "pmm_alloc m ord = (a, m')" and "a \<noteq> 0"
  shows "\<exists>m''. phys_free m' a ord = Some m'' \<and> pmm_inv (pmm m'') \<and> allocs (pmm m'') = allocs (pmm m) \<and>
    frames a ord \<subseteq> free_frames (pmm m'') \<and> free_frames (pmm m'') \<subseteq> free_frames (pmm m)"
  using assms by (rule pa.alloc_release)

lemma pmm_alloc_free_roundtrip_witness:
  "\<exists>a m m''. pmm_alloc phys_example 0 = (a, m) \<and> phys_free m a 0 = Some m'' \<and> allocs (pmm m'') = {}"
proof -
  obtain a m where m: "pmm_alloc phys_example 0 = (a, m)" "pmm_inv (pmm m)" "(a, 0) \<in> allocs (pmm m)" "a \<noteq> 0"
    by (rule phys_example_alloc)
  from pmm_alloc_free_roundtrip [OF phys_example_facts(1) m(1,4)] m(1) show ?thesis
    by (auto simp: phys_example_facts(5))
qed


theorem pmm_reserve_region_reserves_witness:
  "\<exists>s'. pmm_reserve_region pmm_example 0x400000 0x1800 = Some s' \<and> pmm_inv s' \<and> 1024 \<notin> free_frames s'"
proof -
  have "1024 \<in> whole_pages 0x400000 0x1800"
    by (simp add: whole_pages_def)
  then show ?thesis
    using pmm_reserve_region_reserves [OF pmm_example_facts(1), of "0x400000" "0x1800"]
    by (auto simp: pmm_example_facts(3))
qed

lemma split_block_exact:
  assumes "blk_order (blocks s b) = ord" "split_block s b ord = (b', s')"
  shows "free_pages s' = free_pages s"
  using assms by (auto simp: split_block_def Let_def split_loop.simps)

lemma find_free_block_exact:
  assumes "inv_at s L" "ord \<le> MAX_ORDER" "L (FreeHead ord) \<noteq> []" "find_free_block s ord = (r, s')"
  shows "free_pages s' = free_pages s"
proof -
  have "[ord..<MAX_ORDER + 1] = ord # [Suc ord..<MAX_ORDER + 1]"
    using assms(2) by (intro upt_conv_Cons) simp
  then have f: "find (\<lambda>x. L (FreeHead x) \<noteq> []) [ord..<MAX_ORDER + 1] = Some ord"
    using assms(3) by simp
  obtain b t where sp: "split_block s (hd (L (FreeHead ord))) ord = (b, t)"
    by (cases "split_block s (hd (L (FreeHead ord))) ord")
  have "set [ord..<MAX_ORDER + 1] \<subseteq> {..MAX_ORDER}"
    by auto
  from find_free_from_eq [OF inv_at_rep [OF assms(1)] this, unfolded f] sp have "s' = t"
    using assms(4) by (simp add: find_free_block_def)
  moreover have "blk_order (blocks s (hd (L (FreeHead ord)))) = ord"
    using inv_at_free(1) [OF assms(1,2)] assms(3) by simp
  ultimately show ?thesis
    using split_block_exact [OF _ sp] by simp
qed

text \<open>The statistics drift. Taking a block off the free list of the very order asked for
  makes its frames unavailable, but \<open>pmm_alloc\<close> leaves the free page count as it was.\<close>

lemma pmm_alloc_free_count_drift:
  assumes "pmm_inv (pmm m)" and "ord \<le> MAX_ORDER" and "blocks_on (pmm m) (FreeHead ord) \<noteq> []"
    and "pmm_alloc m ord = (a, m')"
  shows "pmm_get_free_pages (pmm m') = pmm_get_free_pages (pmm m) \<and> frames a ord \<subseteq> free_frames (pmm m) \<and>
    free_frames (pmm m') \<inter> frames a ord = {}"
proof -
  have h: "has_free (pmm m) ord"
    using assms(2,3) by (auto simp: has_free_def)
  obtain b s' where f: "find_free_block (pmm m) ord = (Some b, s')"
    by (rule find_free_block_spec [OF assms(1) h])
  have "free_pages s' = free_pages (pmm m)"
    by (rule find_free_block_exact [OF pmm_inv_at [OF assms(1)] assms(2,3) f])
  moreover have "pmm m' = s'"
    using assms(4) by (auto simp: pmm_alloc_found [OF assms(2) f])
  ultimately show ?thesis
    using pmm_alloc_correct(3,4) [OF assms(1,2) h assms(4)] by (auto simp: pmm_get_free_pages_def)
qed

lemma phys_example_list: "blocks_on (pmm phys_example) (FreeHead 9) \<noteq> []"
proof -
  let ?s = "add_free_block (pmm_reset pmm_zero) 0x400000 9"
  have r: "inv_at (pmm_reset pmm_zero) (\<lambda>_. [])" "block_count (pmm_reset pmm_zero) = 0"
    by (rule pmm_reset_spec)+
  have "find (order_fits 0x400000 0x200000) (rev [1..<MAX_ORDER + 1]) = Some 9"
    by (simp add: order_fits_iff upt_rec aligned_def)
  then have eq: "pmm_example = ?s\<lparr>total_pages := total_pages ?s + 512\<rparr>"
    unfolding pmm_example_def pmm_add_region_def Let_def
    by (simp add: page_up_def page_down_def add_region_loop.simps [of _ "0x400000"] block_bytes_def)
  have on: "blocks_on pmm_example p = blocks_on ?s p" for p
    unfolding blocks_on_def eq by simp
  have "inv_at ?s ((\<lambda>_. [])(FreeHead 9 := (\<lambda>_. []) (FreeHead 9) @ [Blk (block_count (pmm_reset pmm_zero))]))"
    by (rule inv_at_add_free_block [OF r(1)]) (simp_all add: r(2) aligned_def live_def)
  then show ?thesis
    using rep_blocks_on [OF inv_at_rep, of ?s _ "FreeHead 9"] by (simp add: phys_example_def on)
qed

lemma pmm_alloc_free_count_drift_witness:
  "\<exists>a m'. pmm_alloc phys_example 9 = (a, m') \<and>
     pmm_get_free_pages (pmm m') = pmm_get_free_pages (pmm phys_example) \<and> free_frames (pmm m') \<inter> frames a 9 = {}"
proof -
  obtain a m' where m': "pmm_alloc phys_example 9 = (a, m')"
    by (cases "pmm_alloc phys_example 9")
  from pmm_alloc_free_count_drift [OF phys_example_facts(1) _ phys_example_list m'] m' show ?thesis
    by auto
qed

text \<open>Base and size of a region are rounded apart from each other, so a region that starts
  off a page boundary is shifted up: the region of one page's length from \<open>0x800\<close> contains no
  whole page, yet \<open>pmm_add_region\<close> hands page 1, whose second half lies beyond it, to the
  allocator.\<close>

lemma pmm_add_region_overshoot:
  "free_frames (pmm_add_region (pmm_reset s) 0x800 0x1000) = {1} \<and> whole_pages 0x800 0x1000 = {}"
proof -
  have eq: "pmm_add_region (pmm_reset s) 0x800 0x1000 = pmm_add_region (pmm_reset s) 0x1000 0x1000"
    by (simp add: pmm_add_region_def page_up_def page_down_def)
  have "block_count (pmm_add_region (pmm_reset s) 0x1000 0x1000) = 1"
    by (rule pmm_add_region_one [where ord = 0])
       (simp_all add: page_up_def page_down_def order_fits_iff aligned_def upt_rec block_bytes_def)
  then have "free_frames (pmm_add_region (pmm_reset s) 0x1000 0x1000) = {1}"
    using pmm_add_region_spec [OF pmm_reset_abs(1) _ _ refl, of "0x1000" "0x1000" s]
    by (simp add: pmm_reset_abs used_frames_reset region_frames_def)
  moreover have "whole_pages 0x800 0x1000 = {}"
    by (auto simp: whole_pages_def)
  ultimately show ?thesis
    by (simp add: eq)
qed

end
