(* ===== verification/Monitor.thy ===== *)
theory Monitor
  imports Pmm_Props
begin

text \<open>
  The nested kernel's monitor, \<^verbatim>\<open>src/kernel/monitor/monitor.c\<close>, with the trampoline of
  \<^verbatim>\<open>src/arch/x86_64/monitor/monitor_call.S\<close>: the page tables of the two views, the calls by which
  the outer kernel asks for memory, page types and mappings, and the CR0.WP toggle around
  them.

  Memory that holds page tables is a map from addresses to 64-bit words (the monitor runs
  identity mapped); entry \<open>i\<close> of the table at \<open>t\<close> is the word at \<open>t + 8 * i\<close>, with no bound on
  \<open>i\<close>, as in C. The addresses the linker assigns to symbols of \<^verbatim>\<open>boot.S\<close> are the record
  \<open>boot_syms\<close>, an argument. \<open>tlb_log\<close> collects the addresses whose TLB entries were invalidated.
  \<open>saved_cr0\<close> is the per-CPU slot \<^verbatim>\<open>GS:40\<close>. Debug output is not modelled.
\<close>

section \<open>State\<close>

abbreviation X86_PTE_PRESENT :: u64 where "X86_PTE_PRESENT \<equiv> 0x1"
abbreviation X86_PTE_WRITABLE :: u64 where "X86_PTE_WRITABLE \<equiv> 0x2"
abbreviation X86_PTE_USER :: u64 where "X86_PTE_USER \<equiv> 0x4"
abbreviation X86_PTE_PS :: u64 where "X86_PTE_PS \<equiv> 0x80"

record boot_syms =
  boot_pml4 :: u64
  boot_pdpt :: u64
  boot_pd :: u64
  boot_pd_apic :: u64
  boot_pt_apic :: u64
  nk_boot_stack_bottom :: u64
  nk_boot_stack_top :: u64

record mon_state =
  phys :: phys_state
  ptmem :: "u64 \<Rightarrow> u64"
  tlb_log :: "u64 list"
  cr0 :: u64
  cr3 :: u64
  saved_cr0 :: u64
  monitor_pml4_phys :: u64
  unpriv_pml4_phys :: u64
  monitor_pml4 :: u64
  monitor_pdpt :: u64
  monitor_pd :: u64
  unpriv_pml4 :: u64
  unpriv_pdpt :: u64
  unpriv_pd :: u64
  g_unpriv_pd_ptr :: u64
  monitor_pt_0_2mb :: u64
  unpriv_pt_0_2mb :: u64

definition pt_read :: "mon_state \<Rightarrow> u64 \<Rightarrow> u64 \<Rightarrow> u64" where
  "pt_read m t i = ptmem m (t + 8 * i)"

definition pt_write :: "mon_state \<Rightarrow> u64 \<Rightarrow> u64 \<Rightarrow> u64 \<Rightarrow> mon_state" where
  "pt_write m t i v = m\<lparr>ptmem := (ptmem m)(t + 8 * i := v)\<rparr>"

definition set_pcd :: "mon_state \<Rightarrow> pcd_state \<Rightarrow> mon_state" where
  "set_pcd m p = m\<lparr>phys := (phys m)\<lparr>pcd := p\<rparr>\<rparr>"

definition arch_tlb_invalidate_page :: "mon_state \<Rightarrow> u64 \<Rightarrow> mon_state" where
  "arch_tlb_invalidate_page m addr = m\<lparr>tlb_log := tlb_log m @ [addr]\<rparr>"

definition PML4_INDEX :: "u64 \<Rightarrow> u64" where "PML4_INDEX vaddr = drop_bit 39 vaddr AND 0x1FF"
definition PDPT_INDEX :: "u64 \<Rightarrow> u64" where "PDPT_INDEX vaddr = drop_bit 30 vaddr AND 0x1FF"
definition PD_INDEX :: "u64 \<Rightarrow> u64" where "PD_INDEX vaddr = drop_bit 21 vaddr AND 0x1FF"
definition PT_INDEX :: "u64 \<Rightarrow> u64" where "PT_INDEX vaddr = drop_bit 12 vaddr AND 0x1FF"

section \<open>Protection of page table pages\<close>

definition virt_to_phys :: "u64 \<Rightarrow> u64" where
  "virt_to_phys virt = virt"

definition monitor_invalidate_page :: "mon_state \<Rightarrow> u64 \<Rightarrow> mon_state" where
  "monitor_invalidate_page m addr = arch_tlb_invalidate_page m addr"

definition monitor_find_pd_entry :: "u64 \<Rightarrow> u64" where
  "monitor_find_pd_entry phys_addr = drop_bit 21 phys_addr AND 0x1FF"

text \<open>\<open>pte_idx\<close> is a C \<open>int\<close>: the page number cut to 32 bits.\<close>

definition protect_ptp :: "mon_state \<Rightarrow> nat \<Rightarrow> mon_state" where
  "protect_ptp m i =
     (let addr = push_bit PAGE_SHIFT (of_nat i :: u64)
      in if pcd_get_type (pcd (phys m)) addr = PCD_TYPE_NK_PGTABLE
         then let pte_idx = (ucast (drop_bit 12 addr) :: u32)
              in if sint pte_idx < 512
                 then pt_write m (unpriv_pt_0_2mb m) (scast pte_idx)
                        (pt_read m (unpriv_pt_0_2mb m) (scast pte_idx) AND NOT X86_PTE_WRITABLE)
                 else m
         else m)"

definition invalidate_protected :: "mon_state \<Rightarrow> nat \<Rightarrow> mon_state" where
  "invalidate_protected m i =
     (if pt_read m (unpriv_pt_0_2mb m) (of_nat i) AND X86_PTE_WRITABLE = 0
      then monitor_invalidate_page m (push_bit 12 (of_nat i)) else m)"

definition monitor_protect_all_ptps :: "mon_state \<Rightarrow> mon_state" where
  "monitor_protect_all_ptps m =
     (let m = fold (\<lambda>i m. protect_ptp m i) [0..<unat (pcd_get_max_pages (pcd (phys m)))] m
      in fold (\<lambda>i m. invalidate_protected m i) [0..<512] m)"

definition monitor_protect_state :: "mon_state \<Rightarrow> mon_state" where
  "monitor_protect_state m =
     (let m = monitor_invalidate_page m (virt_to_phys (monitor_pml4 m))
      in monitor_protect_all_ptps m)"

definition monitor_is_privileged :: "mon_state \<Rightarrow> bool" where
  "monitor_is_privileged m \<longleftrightarrow> cr0 m AND push_bit 16 1 = 0"

text \<open>The verdict \<open>monitor_verify_invariants\<close> logs.\<close>

definition monitor_verify_invariants :: "mon_state \<Rightarrow> bool" where
  "monitor_verify_invariants m \<longleftrightarrow>
     (let unpriv_pd_phys = virt_to_phys (g_unpriv_pd_ptr m);
          pd_index = monitor_find_pd_entry unpriv_pd_phys;
          unpriv_entry = pt_read m (g_unpriv_pd_ptr m) pd_index;
          unpriv_writable = (unpriv_entry AND X86_PTE_WRITABLE \<noteq> 0);
          cr0_wp_enabled = (cr0 m AND push_bit 16 1 \<noteq> 0);
          context_switch_available = (unpriv_pml4_phys m \<noteq> 0);
          shared_page_table_loaded = (cr3 m = unpriv_pml4_phys m)
      in \<not> unpriv_writable \<and> cr0_wp_enabled \<and> shared_page_table_loaded \<and> context_switch_available)"

section \<open>Read-only mappings for the outer kernel\<close>

definition NESTED_KERNEL_RO_BASE :: u64 where
  "NESTED_KERNEL_RO_BASE = 0xFFFF880000000000"

text \<open>\<open>pmm_alloc\<close> on the allocator inside the monitor's state.\<close>

definition mon_pmm_alloc :: "mon_state \<Rightarrow> nat \<Rightarrow> u64 \<times> mon_state" where
  "mon_pmm_alloc m ord = (case pmm_alloc (phys m) ord of (a, p) \<Rightarrow> (a, m\<lparr>phys := p\<rparr>))"

definition clear_table :: "mon_state \<Rightarrow> u64 \<Rightarrow> mon_state" where
  "clear_table m table = fold (\<lambda>i m. pt_write m table (of_nat i) 0) [0..<512] m"

text \<open>The table, or 0 where the function returns \<open>NULL\<close>.\<close>

definition create_or_get_table :: "mon_state \<Rightarrow> u64 \<times> mon_state" where
  "create_or_get_table m =
     (case mon_pmm_alloc m 0 of
        (table, m) \<Rightarrow>
          if table = 0 then (0, m)
          else if table \<in> {unpriv_pd m, unpriv_pdpt m, unpriv_pml4 m, monitor_pd m, monitor_pdpt m, monitor_pml4 m}
          then (0, m)
          else let m = clear_table m table
               in (table, set_pcd m (pcd_set_type_internal (pcd (phys m)) (virt_to_phys table) PCD_TYPE_NK_PGTABLE)))"

text \<open>A fresh table linked into entry \<open>i\<close> of the table at \<open>t\<close>.\<close>

definition link_new_table :: "mon_state \<Rightarrow> u64 \<Rightarrow> u64 \<Rightarrow> u64 option \<times> mon_state" where
  "link_new_table m t i =
     (case create_or_get_table m of
        (table, m) \<Rightarrow>
          if table = 0 then (None, m)
          else (Some table, pt_write m t i (table OR X86_PTE_PRESENT OR X86_PTE_WRITABLE)))"

definition valid_table :: "u64 \<Rightarrow> u64 option" where
  "valid_table addr = (if addr = 0 \<or> addr < 0x100000 then None else Some addr)"

text \<open>The three steps down the hierarchy; \<open>None\<close> is the early return of -1.\<close>

definition ro_pdpt :: "mon_state \<Rightarrow> u64 \<Rightarrow> u64 option \<times> mon_state" where
  "ro_pdpt m pml4_idx =
     (let pml4_entry = pt_read m (unpriv_pml4 m) pml4_idx
      in if pml4_entry AND X86_PTE_PRESENT = 0 then link_new_table m (unpriv_pml4 m) pml4_idx
         else let pdpt_addr = pml4_entry AND NOT 0xFFF
              in if pml4_idx \<noteq> 0 \<and> pdpt_addr = virt_to_phys (unpriv_pdpt m)
                 then link_new_table m (unpriv_pml4 m) pml4_idx
                 else (valid_table pdpt_addr, m))"

definition ro_pd :: "mon_state \<Rightarrow> u64 \<Rightarrow> u64 \<Rightarrow> u64 option \<times> mon_state" where
  "ro_pd m pdpt pdpt_idx =
     (let pdpt_entry = pt_read m pdpt pdpt_idx
      in if pdpt_entry AND X86_PTE_PRESENT = 0 then link_new_table m pdpt pdpt_idx
         else let pd_addr = pdpt_entry AND NOT 0xFFF
              in if pd_addr = virt_to_phys (unpriv_pd m) then link_new_table m pdpt pdpt_idx
                 else (valid_table pd_addr, m))"

definition ro_pt :: "mon_state \<Rightarrow> u64 \<Rightarrow> u64 \<Rightarrow> u64 option \<times> mon_state" where
  "ro_pt m pd pd_idx =
     (let pd_entry = pt_read m pd pd_idx
      in if pd = virt_to_phys (unpriv_pd m) then (None, m)
         else if pd_entry AND X86_PTE_PRESENT = 0 then link_new_table m pd pd_idx
         else if pd_entry AND X86_PTE_PS \<noteq> 0 then (None, m)
         else (valid_table (pd_entry AND NOT 0xFFF), m))"

definition create_ro_mapping :: "mon_state \<Rightarrow> u64 \<Rightarrow> u64 \<Rightarrow> int \<times> mon_state" where
  "create_ro_mapping m phys_addr virt_addr =
     (case ro_pdpt m (PML4_INDEX virt_addr) of
        (None, m) \<Rightarrow> (-1, m)
      | (Some pdpt, m) \<Rightarrow>
          (case ro_pd m pdpt (PDPT_INDEX virt_addr) of
             (None, m) \<Rightarrow> (-1, m)
           | (Some pd, m) \<Rightarrow>
               (case ro_pt m pd (PD_INDEX virt_addr) of
                  (None, m) \<Rightarrow> (-1, m)
                | (Some pt, m) \<Rightarrow>
                    let pt_idx = PT_INDEX virt_addr;
                        m = pt_write m pt pt_idx (phys_addr OR X86_PTE_PRESENT)
                    in (0, arch_tlb_invalidate_page m (push_bit 12 pt_idx)))))"

definition ro_map_one :: "mon_state \<Rightarrow> nat \<Rightarrow> mon_state" where
  "ro_map_one m i =
     (let phys_addr = push_bit PAGE_SHIFT (of_nat i);
          t = pcd_get_type (pcd (phys m)) phys_addr
      in if t = PCD_TYPE_NK_NORMAL \<or> t = PCD_TYPE_NK_PGTABLE
         then snd (create_ro_mapping m phys_addr (NESTED_KERNEL_RO_BASE + phys_addr)) else m)"

definition monitor_create_ro_mappings :: "mon_state \<Rightarrow> int \<times> mon_state" where
  "monitor_create_ro_mappings m =
     (0, fold (\<lambda>i m. ro_map_one m i) [0..<unat (pcd_get_max_pages (pcd (phys m)))] m)"

section \<open>Initialisation\<close>

definition alloc_tables :: "mon_state \<Rightarrow> (u64 \<times> u64 \<times> u64) \<times> mon_state" where
  "alloc_tables m =
     (case mon_pmm_alloc m 0 of (a, m) \<Rightarrow>
      case mon_pmm_alloc m 0 of (b, m) \<Rightarrow>
      case mon_pmm_alloc m 0 of (c, m) \<Rightarrow> ((a, b, c), m))"

definition copy_boot_entries :: "boot_syms \<Rightarrow> mon_state \<Rightarrow> nat \<Rightarrow> mon_state" where
  "copy_boot_entries bs m i =
     (let j = of_nat i;
          m = pt_write m (monitor_pml4 m) j (pt_read m (boot_pml4 bs) j);
          m = pt_write m (monitor_pdpt m) j (pt_read m (boot_pdpt bs) j);
          m = pt_write m (monitor_pd m) j (pt_read m (boot_pd bs) j);
          m = pt_write m (unpriv_pml4 m) j (pt_read m (boot_pml4 bs) j);
          m = pt_write m (unpriv_pdpt m) j (pt_read m (boot_pdpt bs) j)
      in pt_write m (unpriv_pd m) j (pt_read m (boot_pd bs) j))"

definition is_table_page :: "boot_syms \<Rightarrow> mon_state \<Rightarrow> u64 \<Rightarrow> bool" where
  "is_table_page bs m phys_addr \<longleftrightarrow>
     phys_addr \<in> {virt_to_phys (boot_pml4 bs), virt_to_phys (boot_pdpt bs), virt_to_phys (boot_pd bs),
       virt_to_phys (boot_pd_apic bs), virt_to_phys (boot_pt_apic bs),
       virt_to_phys (monitor_pml4 m), virt_to_phys (monitor_pdpt m), virt_to_phys (monitor_pd m),
       virt_to_phys (unpriv_pml4 m), virt_to_phys (unpriv_pdpt m), virt_to_phys (unpriv_pd m)}"

definition setup_low_page :: "boot_syms \<Rightarrow> mon_state \<Rightarrow> nat \<Rightarrow> mon_state" where
  "setup_low_page bs m i =
     (let phys_addr = of_nat i * 4096;
          m = pt_write m (monitor_pt_0_2mb m) (of_nat i) (phys_addr OR X86_PTE_PRESENT OR X86_PTE_WRITABLE)
      in if is_table_page bs m phys_addr
         then pt_write m (unpriv_pt_0_2mb m) (of_nat i) (phys_addr OR X86_PTE_PRESENT)
         else pt_write m (unpriv_pt_0_2mb m) (of_nat i)
                (phys_addr OR X86_PTE_PRESENT OR X86_PTE_WRITABLE OR X86_PTE_USER))"

text \<open>The loop over the pages of the boot stack, up to and including the one that \<open>stack_end\<close>
  names; the index is a C \<open>int\<close>.\<close>

partial_function (option) fix_stack_pages :: "u64 \<Rightarrow> u64 \<Rightarrow> mon_state \<Rightarrow> mon_state option" where
  "fix_stack_pages stack_end addr m =
     (if addr \<le> stack_end then
        let pte_index = scast (ucast (drop_bit 12 addr) :: u32);
            pte = pt_read m (unpriv_pt_0_2mb m) pte_index
        in fix_stack_pages stack_end (addr + 0x1000)
             (if pte AND X86_PTE_WRITABLE = 0
              then pt_write m (unpriv_pt_0_2mb m) pte_index (addr OR X86_PTE_PRESENT OR X86_PTE_WRITABLE)
              else m)
      else Some m)"

text \<open>The redirection of the two hierarchies to the new tables.\<close>

definition link_hierarchies :: "boot_syms \<Rightarrow> mon_state \<Rightarrow> mon_state" where
  "link_hierarchies bs m =
     (let m = pt_write m (monitor_pd m) 0 (virt_to_phys (monitor_pt_0_2mb m) OR X86_PTE_PRESENT OR X86_PTE_WRITABLE);
          m = pt_write m (g_unpriv_pd_ptr m) 0 (virt_to_phys (unpriv_pt_0_2mb m) OR X86_PTE_PRESENT OR X86_PTE_WRITABLE);
          boot_pml4_entry0 = pt_read m (boot_pml4 bs) 0;
          m = pt_write m (unpriv_pml4 m) 0 ((boot_pml4_entry0 AND 0xFFF) OR virt_to_phys (unpriv_pdpt m));
          boot_pdpt_entry0 = pt_read m (boot_pdpt bs) 0;
          m = pt_write m (unpriv_pdpt m) 0 ((boot_pdpt_entry0 AND 0xFFF) OR virt_to_phys (unpriv_pd m));
          m = pt_write m (monitor_pml4 m) 0 ((boot_pml4_entry0 AND 0xFFF) OR virt_to_phys (monitor_pdpt m));
          m = pt_write m (monitor_pdpt m) 0 ((boot_pdpt_entry0 AND 0xFFF) OR virt_to_phys (monitor_pd m))
      in m\<lparr>monitor_pml4_phys := virt_to_phys (monitor_pml4 m), unpriv_pml4_phys := virt_to_phys (unpriv_pml4 m)\<rparr>)"

definition mark_tables :: "boot_syms \<Rightarrow> mon_state \<Rightarrow> mon_state" where
  "mark_tables bs m =
     set_pcd m (fold (\<lambda>a p. pcd_set_type_internal p (virt_to_phys a) PCD_TYPE_NK_PGTABLE)
       [boot_pml4 bs, boot_pdpt bs, boot_pd bs, boot_pd_apic bs, boot_pt_apic bs,
        monitor_pml4 m, monitor_pdpt m, monitor_pd m, unpriv_pml4 m, unpriv_pdpt m, unpriv_pd m]
       (pcd (phys m)))"

definition monitor_build_views :: "boot_syms \<Rightarrow> mon_state \<Rightarrow> mon_state option" where
  "monitor_build_views bs m =
     (let m = fold (\<lambda>i m. copy_boot_entries bs m i) [0..<512] m;
          m = pt_write m (unpriv_pd m) 1 (pt_read m (unpriv_pd m) 1 OR X86_PTE_USER);
          m = fold (\<lambda>i m. setup_low_page bs m i) [0..<512] m;
          stack_start = nk_boot_stack_bottom bs AND NOT 0xFFF;
          stack_end = nk_boot_stack_top bs AND NOT 0xFFF
      in map_option (\<lambda>m. mark_tables bs (link_hierarchies bs m)) (fix_stack_pages stack_end stack_start m))"

definition monitor_enforce :: "mon_state \<Rightarrow> mon_state option" where
  "monitor_enforce m =
     (let m = monitor_protect_state m
      in map_option (\<lambda>(_, p). snd (monitor_create_ro_mappings (set_pcd m p)))
           (pcd_mark_region (pcd (phys m)) 0xFEE00000 0x1000 PCD_TYPE_NK_IO))"

definition monitor_init :: "boot_syms \<Rightarrow> mon_state \<Rightarrow> mon_state option" where
  "monitor_init bs m =
     (case alloc_tables m of ((pml4, pdpt, pd), m) \<Rightarrow>
      let m = m\<lparr>monitor_pml4 := pml4, monitor_pdpt := pdpt, monitor_pd := pd\<rparr>
      in if pml4 = 0 \<or> pdpt = 0 \<or> pd = 0 then Some m
      else case alloc_tables m of ((pml4, pdpt, pd), m) \<Rightarrow>
      let m = m\<lparr>unpriv_pml4 := pml4, unpriv_pdpt := pdpt, unpriv_pd := pd\<rparr>
      in if pml4 = 0 \<or> pdpt = 0 \<or> pd = 0 then Some m
      else let m = m\<lparr>g_unpriv_pd_ptr := unpriv_pd m\<rparr>
      in case mon_pmm_alloc m 0 of (pt, m) \<Rightarrow>
      let m = m\<lparr>monitor_pt_0_2mb := pt\<rparr>
      in case mon_pmm_alloc m 0 of (pt_u, m) \<Rightarrow>
      let m = m\<lparr>unpriv_pt_0_2mb := pt_u\<rparr>
      in if pt = 0 \<or> pt_u = 0 then Some m
      else Option.bind (monitor_build_views bs m) monitor_enforce)"

definition monitor_get_unpriv_cr3 :: "mon_state \<Rightarrow> u64" where
  "monitor_get_unpriv_cr3 m = unpriv_pml4_phys m"

section \<open>Monitor calls\<close>

record monitor_ret_t =
  mc_result :: u64
  mc_error :: int

text \<open>\<open>MONITOR_CALL_OTHER\<close> stands for the numbers without a name, which C allows in the enum.\<close>

datatype monitor_call_t =
  MONITOR_CALL_ALLOC_PHYS | MONITOR_CALL_FREE_PHYS | MONITOR_CALL_SET_PAGE_TYPE | MONITOR_CALL_GET_PAGE_TYPE
| MONITOR_CALL_MAP_PAGE | MONITOR_CALL_UNMAP_PAGE | MONITOR_CALL_ALLOC_PGTABLE | MONITOR_CALL_OTHER u32

text \<open>The two halves of \<open>nk_entry_trampoline\<close> around the call of the handler.\<close>

definition nk_entry :: "mon_state \<Rightarrow> mon_state" where
  "nk_entry m = m\<lparr>saved_cr0 := cr0 m, cr0 := cr0 m AND NOT (push_bit 16 1)\<rparr>"

definition nk_exit :: "mon_state \<Rightarrow> mon_state" where
  "nk_exit m = m\<lparr>cr0 := saved_cr0 m\<rparr>"

definition call_direct :: "mon_state \<Rightarrow> bool" where
  "call_direct m \<longleftrightarrow> monitor_pml4_phys m = 0 \<or> monitor_is_privileged m"

definition call_alloc :: "mon_state \<Rightarrow> u64 \<Rightarrow> monitor_ret_t \<times> mon_state" where
  "call_alloc m arg1 =
     (case mon_pmm_alloc m (unat (ucast arg1 :: u8)) of
        (a, m) \<Rightarrow> (\<lparr>mc_result = a, mc_error = (if a = 0 then -1 else 0)\<rparr>, m))"

text \<open>The pages are marked one by one; the count \<open>1 << arg1\<close> is at the width of the shift.\<close>

definition call_alloc_pgtable :: "mon_state \<Rightarrow> u64 \<Rightarrow> monitor_ret_t \<times> mon_state" where
  "call_alloc_pgtable m arg1 =
     (case mon_pmm_alloc m (unat (ucast arg1 :: u8)) of
        (a, m) \<Rightarrow>
          if a = 0 then (\<lparr>mc_result = 0, mc_error = -1\<rparr>, m)
          else (\<lparr>mc_result = a, mc_error = 0\<rparr>,
                set_pcd m (fold (\<lambda>i p. pcd_set_type_internal p (a + push_bit PAGE_SHIFT (of_nat i)) PCD_TYPE_NK_PGTABLE)
                  [0..<2 ^ (unat arg1 mod 64)] (pcd (phys m)))))"

definition monitor_alloc_pgtable :: "mon_state \<Rightarrow> u8 \<Rightarrow> u64 \<times> mon_state" where
  "monitor_alloc_pgtable m ord =
     (let handler = (\<lambda>m. if \<not> monitor_is_privileged m then (\<lparr>mc_result = 0, mc_error = -1\<rparr>, m)
                          else call_alloc_pgtable m (ucast ord))
      in if call_direct m then (case handler m of (r, m) \<Rightarrow> (mc_result r, m))
         else (case handler (nk_entry m) of (r, m) \<Rightarrow> (mc_result r, nk_exit m)))"

text \<open>\<open>entry\<close> is entry \<open>i\<close> of the table at \<open>t\<close>.\<close>

definition get_or_create_table :: "mon_state \<Rightarrow> u64 \<Rightarrow> u64 \<Rightarrow> u64 \<times> mon_state" where
  "get_or_create_table m t i =
     (let e = pt_read m t i
      in if e AND X86_PTE_PRESENT \<noteq> 0 then (e AND NOT 0xFFF, m)
         else case monitor_alloc_pgtable m 0 of
                (table, m) \<Rightarrow>
                  if table = 0 then (0, m)
                  else (table, pt_write m t i (virt_to_phys table OR X86_PTE_PRESENT OR X86_PTE_WRITABLE)))"

definition monitor_map_page :: "mon_state \<Rightarrow> u64 \<Rightarrow> u64 \<Rightarrow> u64 \<Rightarrow> int \<times> mon_state" where
  "monitor_map_page m phys_addr virt_addr flags =
     (let type = pcd_get_type (pcd (phys m)) phys_addr;
          nk = (type = PCD_TYPE_NK_NORMAL \<or> type = PCD_TYPE_NK_PGTABLE)
      in if nk \<and> flags AND X86_PTE_WRITABLE \<noteq> 0 then (-1, m)
         else
           let flags = (if nk then flags AND NOT X86_PTE_WRITABLE else flags)
           in case get_or_create_table m (unpriv_pml4 m) (PML4_INDEX virt_addr) of (pdpt, m) \<Rightarrow>
              if pdpt = 0 then (-1, m)
              else case get_or_create_table m pdpt (PDPT_INDEX virt_addr) of (pd, m) \<Rightarrow>
              if pd = 0 then (-1, m)
              else case get_or_create_table m pd (PD_INDEX virt_addr) of (pt, m) \<Rightarrow>
              if pt = 0 then (-1, m)
              else let m = pt_write m pt (PT_INDEX virt_addr) (phys_addr OR flags OR X86_PTE_PRESENT)
                   in (0, monitor_invalidate_page m virt_addr))"

definition monitor_unmap_page :: "mon_state \<Rightarrow> u64 \<Rightarrow> int \<times> mon_state" where
  "monitor_unmap_page m virt_addr = (0, m)"

definition int_ret :: "int \<times> mon_state \<Rightarrow> monitor_ret_t \<times> mon_state" where
  "int_ret r = (\<lparr>mc_result = of_int (fst r), mc_error = (if of_int (fst r) = (0 :: u64) then 0 else -1)\<rparr>, snd r)"

text \<open>\<open>None\<close> is a \<open>pmm_free\<close> that does not return.\<close>

definition monitor_call_handler ::
    "mon_state \<Rightarrow> monitor_call_t \<Rightarrow> u64 \<Rightarrow> u64 \<Rightarrow> u64 \<Rightarrow> (monitor_ret_t \<times> mon_state) option" where
  "monitor_call_handler m call arg1 arg2 arg3 =
     (let ret = \<lparr>mc_result = 0, mc_error = 0\<rparr>
      in if \<not> monitor_is_privileged m then Some (ret\<lparr>mc_error := -1\<rparr>, m)
         else case call of
                MONITOR_CALL_ALLOC_PHYS \<Rightarrow> Some (call_alloc m arg1)
              | MONITOR_CALL_FREE_PHYS \<Rightarrow>
                  map_option (\<lambda>p. (ret, m\<lparr>phys := p\<rparr>)) (phys_free (phys m) arg1 (unat (ucast arg2 :: u8)))
              | MONITOR_CALL_SET_PAGE_TYPE \<Rightarrow>
                  if \<not> monitor_is_privileged m then Some (ret\<lparr>mc_error := -1\<rparr>, m)
                  else Some (ret, set_pcd m (pcd_set_type_internal (pcd (phys m)) arg1 (ucast arg2)))
              | MONITOR_CALL_GET_PAGE_TYPE \<Rightarrow> Some (ret\<lparr>mc_result := ucast (pcd_get_type (pcd (phys m)) arg1)\<rparr>, m)
              | MONITOR_CALL_MAP_PAGE \<Rightarrow> Some (int_ret (monitor_map_page m arg1 arg2 arg3))
              | MONITOR_CALL_UNMAP_PAGE \<Rightarrow> Some (int_ret (monitor_unmap_page m arg1))
              | MONITOR_CALL_ALLOC_PGTABLE \<Rightarrow> Some (call_alloc_pgtable m arg1)
              | MONITOR_CALL_OTHER _ \<Rightarrow> Some (ret\<lparr>mc_error := -1\<rparr>, m))"

definition nk_entry_trampoline ::
    "mon_state \<Rightarrow> monitor_call_t \<Rightarrow> u64 \<Rightarrow> u64 \<Rightarrow> u64 \<Rightarrow> (monitor_ret_t \<times> mon_state) option" where
  "nk_entry_trampoline m call arg1 arg2 arg3 =
     map_option (\<lambda>(r, m). (r, nk_exit m)) (monitor_call_handler (nk_entry m) call arg1 arg2 arg3)"

definition monitor_call ::
    "mon_state \<Rightarrow> monitor_call_t \<Rightarrow> u64 \<Rightarrow> u64 \<Rightarrow> u64 \<Rightarrow> (monitor_ret_t \<times> mon_state) option" where
  "monitor_call m call arg1 arg2 arg3 =
     (if monitor_pml4_phys m = 0 then monitor_call_handler m call arg1 arg2 arg3
      else if monitor_is_privileged m then monitor_call_handler m call arg1 arg2 arg3
      else nk_entry_trampoline m call arg1 arg2 arg3)"

definition monitor_pmm_alloc :: "mon_state \<Rightarrow> u8 \<Rightarrow> (u64 \<times> mon_state) option" where
  "monitor_pmm_alloc m ord =
     (if monitor_pml4_phys m = 0 then Some (mon_pmm_alloc m (unat ord))
      else map_option (\<lambda>(r, m). (mc_result r, m))
             (monitor_call m MONITOR_CALL_ALLOC_PHYS (ucast ord) (ucast PCD_TYPE_OK_NORMAL) 0))"

definition monitor_pmm_free :: "mon_state \<Rightarrow> u64 \<Rightarrow> u8 \<Rightarrow> mon_state option" where
  "monitor_pmm_free m addr ord =
     (if monitor_pml4_phys m = 0 then map_option (\<lambda>p. m\<lparr>phys := p\<rparr>) (phys_free (phys m) addr (unat ord))
      else map_option snd (monitor_call m MONITOR_CALL_FREE_PHYS addr (ucast ord) 0))"

definition monitor_pcd_set_type :: "mon_state \<Rightarrow> u64 \<Rightarrow> u8 \<Rightarrow> mon_state option" where
  "monitor_pcd_set_type m phys_addr type =
     map_option snd (monitor_call m MONITOR_CALL_SET_PAGE_TYPE phys_addr (ucast type) 0)"

definition monitor_pcd_get_type :: "mon_state \<Rightarrow> u64 \<Rightarrow> u8" where
  "monitor_pcd_get_type m phys_addr = pcd_get_type (pcd (phys m)) phys_addr"

end
