(* ===== verification/Monitor_Props.thy ===== *)
theory Monitor_Props
  imports Monitor
begin

text \<open>
  What the monitor guarantees. The calls for memory are the page allocator's, whatever mode
  the caller is in, so the contract \<open>page_allocator\<close> holds for them too; the caller's CR0 is
  restored; \<open>monitor_map_page\<close> writes nothing but links to fresh page table pages and one leaf
  entry, which is not writable when the page belongs to the nested kernel; and
  \<open>monitor_protect_all_ptps\<close> clears the writable bit of exactly the page table pages. Two
  theorems mark the limits of the protection.
\<close>

section \<open>Memory calls\<close>

lemma pt_write_fields [simp, ek_upd]:
  "phys (pt_write m t i v) = phys m" "cr0 (pt_write m t i v) = cr0 m" "saved_cr0 (pt_write m t i v) = saved_cr0 m"
  "monitor_pml4_phys (pt_write m t i v) = monitor_pml4_phys m" "unpriv_pt_0_2mb (pt_write m t i v) = unpriv_pt_0_2mb m"
  "unpriv_pml4 (pt_write m t i v) = unpriv_pml4 m"
  "ptmem (pt_write m t i v) = (ptmem m)(t + 8 * i := v)"
  by (simp_all add: pt_write_def)

lemma set_pcd_fields [simp, ek_upd]:
  "pcd (phys (set_pcd m p)) = p" "pmm (phys (set_pcd m p)) = pmm (phys m)" "cr0 (set_pcd m p) = cr0 m"
  "saved_cr0 (set_pcd m p) = saved_cr0 m" "monitor_pml4_phys (set_pcd m p) = monitor_pml4_phys m"
  "ptmem (set_pcd m p) = ptmem m" "unpriv_pml4 (set_pcd m p) = unpriv_pml4 m"
  by (simp_all add: set_pcd_def)

lemma mon_pmm_alloc_eq: "mon_pmm_alloc m x = (fst (pmm_alloc (phys m) x), m\<lparr>phys := snd (pmm_alloc (phys m) x)\<rparr>)"
  by (simp add: mon_pmm_alloc_def split: prod.split)

lemma nk_entry_fields [simp]:
  "phys (nk_entry m) = phys m" "ptmem (nk_entry m) = ptmem m" "saved_cr0 (nk_entry m) = cr0 m"
  "monitor_pml4_phys (nk_entry m) = monitor_pml4_phys m" "monitor_is_privileged (nk_entry m)"
  "unpriv_pml4 (nk_entry m) = unpriv_pml4 m"
  by (simp_all add: nk_entry_def monitor_is_privileged_def and.assoc)

text \<open>Where a call leaves the state apart from the scratch slot of the trampoline.\<close>

definition after_call :: "mon_state \<Rightarrow> mon_state" where
  "after_call m = (if call_direct m then m else m\<lparr>saved_cr0 := cr0 m\<rparr>)"

lemma after_call_fields [simp]:
  "phys (after_call m) = phys m" "ptmem (after_call m) = ptmem m" "cr0 (after_call m) = cr0 m"
  "monitor_pml4_phys (after_call m) = monitor_pml4_phys m" "unpriv_pml4 (after_call m) = unpriv_pml4 m"
  by (simp_all add: after_call_def)

lemma nk_exit_entry:
  "nk_exit ((nk_entry m)\<lparr>phys := p\<rparr>) = m\<lparr>saved_cr0 := cr0 m, phys := p\<rparr>"
  by (simp add: nk_exit_def nk_entry_def)

lemma ucast_u8_u64 [simp]: "ucast (ucast (x :: u8) :: u64) = x"
  by (simp add: unsigned_ucast_eq take_bit_word_eq_self)

lemma monitor_pmm_alloc_eq:
  "monitor_pmm_alloc m x =
     Some (fst (pmm_alloc (phys m) (unat x)), (after_call m)\<lparr>phys := snd (pmm_alloc (phys m) (unat x))\<rparr>)"
  by (simp add: monitor_pmm_alloc_def monitor_call_def monitor_call_handler_def nk_entry_trampoline_def call_alloc_def
      mon_pmm_alloc_eq ucast_u8_u64 Let_def after_call_def call_direct_def nk_exit_entry)

lemma monitor_pmm_free_eq:
  "monitor_pmm_free m a x = map_option (\<lambda>p. (after_call m)\<lparr>phys := p\<rparr>) (phys_free (phys m) a (unat x))"
  by (simp add: monitor_pmm_free_def monitor_call_def monitor_call_handler_def nk_entry_trampoline_def
      ucast_u8_u64 Let_def after_call_def call_direct_def nk_exit_entry option.map_comp comp_def)

interpretation mpa: page_allocator "\<lambda>m. pmm_inv (pmm (phys m))" "\<lambda>m. free_frames (pmm (phys m))"
  "\<lambda>m. allocs (pmm (phys m))" unat "\<lambda>m x. the (monitor_pmm_alloc m x)" monitor_pmm_free
proof
  fix m m' :: mon_state and a b :: u64 and n k :: nat and x :: u8
  assume inv: "pmm_inv (pmm (phys m))"
  show "frames a n \<inter> free_frames (pmm (phys m)) = {}" if "(a, n) \<in> allocs (pmm (phys m))"
    using pa.apart [OF inv that] .
  show "frames a n \<inter> frames b k = {}"
    if "(a, n) \<in> allocs (pmm (phys m))" "(b, k) \<in> allocs (pmm (phys m))" "(a, n) \<noteq> (b, k)"
    using pa.separate [OF inv that] .
  have al: "pmm_alloc (phys m) (unat x) = (a, phys m')" if "the (monitor_pmm_alloc m x) = (a, m')" for a
    using that by (auto simp: monitor_pmm_alloc_eq)
  show "pmm_inv (pmm (phys m'))" if "the (monitor_pmm_alloc m x) = (a, m')"
    using pa.alloc_ok [OF inv al [OF that]] .
  show "aligned a (unat x) \<and> frames a (unat x) \<subseteq> free_frames (pmm (phys m)) \<and>
      free_frames (pmm (phys m')) \<subseteq> free_frames (pmm (phys m)) - frames a (unat x) \<and>
      allocs (pmm (phys m')) = insert (a, unat x) (allocs (pmm (phys m)))"
    if "the (monitor_pmm_alloc m x) = (a, m')" "a \<noteq> 0"
    using pa.alloc_block [OF inv al [OF that(1)] that(2)] .
  show "free_frames (pmm (phys m')) = free_frames (pmm (phys m)) \<and> allocs (pmm (phys m')) = allocs (pmm (phys m))"
    if "0 \<notin> free_frames (pmm (phys m))" "the (monitor_pmm_alloc m x) = (0, m')"
    using pa.alloc_null [OF inv that(1) al [OF that(2)]] .
  show "\<exists>m'. monitor_pmm_free m a x = Some m' \<and> pmm_inv (pmm (phys m')) \<and>
      allocs (pmm (phys m')) = allocs (pmm (phys m)) - {(a, unat x)} \<and>
      free_frames (pmm (phys m')) = free_frames (pmm (phys m)) \<union> frames a (unat x)"
    if "(a, unat x) \<in> allocs (pmm (phys m))"
    using pa.release_block [OF inv that] by (auto simp: monitor_pmm_free_eq)
qed

text \<open>\<open>monitor_alloc_pgtable\<close> is the call \<open>MONITOR_CALL_ALLOC_PGTABLE\<close>; it is written out in
  \<^verbatim>\<open>Monitor\<close> because the handler reaches it again through \<open>monitor_map_page\<close>.\<close>

lemma monitor_alloc_pgtable_call:
  "map_option (\<lambda>(r, m'). (mc_result r, m')) (monitor_call m MONITOR_CALL_ALLOC_PGTABLE (ucast x) 0 0) =
     Some (monitor_alloc_pgtable m x)"
  by (simp add: monitor_call_def nk_entry_trampoline_def monitor_call_handler_def monitor_alloc_pgtable_def
      call_direct_def Let_def split: prod.split)

section \<open>CR0\<close>

text \<open>Everything a call can do to the registers and to the slot of the trampoline.\<close>

definition same_cr :: "mon_state \<Rightarrow> mon_state \<Rightarrow> bool" where
  "same_cr m m' \<longleftrightarrow> cr0 m' = cr0 m \<and> monitor_pml4_phys m' = monitor_pml4_phys m \<and>
     (monitor_is_privileged m \<longrightarrow> saved_cr0 m' = saved_cr0 m)"

lemma same_cr_refl [simp]: "same_cr m m"
  by (simp add: same_cr_def)

lemma same_cr_trans: "same_cr m m' \<Longrightarrow> same_cr m' m'' \<Longrightarrow> same_cr m m''"
  by (simp add: same_cr_def monitor_is_privileged_def)

lemma same_cr_upd [simp]:
  "same_cr m (m'\<lparr>phys := p\<rparr>) = same_cr m m'" "same_cr m (pt_write m' t i v) = same_cr m m'"
  "same_cr m (set_pcd m' q) = same_cr m m'" "same_cr m (monitor_invalidate_page m' a) = same_cr m m'"
  by (simp_all add: same_cr_def monitor_invalidate_page_def arch_tlb_invalidate_page_def)

lemma call_alloc_pgtable_cr: "same_cr m (snd (call_alloc_pgtable m x))"
  by (simp add: call_alloc_pgtable_def mon_pmm_alloc_eq)

lemma same_cr_trampoline:
  assumes "same_cr (nk_entry m) m'" "\<not> monitor_is_privileged m"
  shows "same_cr m (nk_exit m')"
  using assms by (simp add: same_cr_def nk_exit_def)

lemma monitor_alloc_pgtable_cr: "same_cr m (snd (monitor_alloc_pgtable m x))"
proof (cases "call_direct m")
  case True
  then show ?thesis
    using call_alloc_pgtable_cr [of m "ucast x"] by (simp add: monitor_alloc_pgtable_def Let_def case_prod_beta)
next
  case False
  then show ?thesis
    using same_cr_trampoline [OF call_alloc_pgtable_cr [of "nk_entry m" "ucast x"]]
    by (simp add: monitor_alloc_pgtable_def Let_def call_direct_def case_prod_beta)
qed

lemma get_or_create_table_cr: "same_cr m (snd (get_or_create_table m t i))"
  using monitor_alloc_pgtable_cr [of m 0] by (simp add: get_or_create_table_def Let_def case_prod_beta)

lemma and_not_idle: "(a :: u64) AND b = 0 \<Longrightarrow> a AND NOT b = a"
  by (simp only: and_not_eq_minus diff_zero)

text \<open>A relation the descent through the tables keeps holds where the leaf is written.\<close>

lemma monitor_map_page_cases:
  assumes "monitor_map_page m pa va fl = (r, m')"
    and "R m" and "\<forall>m' t i. R m' \<longrightarrow> R (snd (get_or_create_table m' t i))"
  shows "(r = -1 \<and> R m') \<or>
    (r = 0 \<and> (pcd_get_type (pcd (phys m)) pa \<in> {PCD_TYPE_NK_NORMAL, PCD_TYPE_NK_PGTABLE} \<longrightarrow> fl AND X86_PTE_WRITABLE = 0) \<and>
     (\<exists>mm t. R mm \<and> m' = monitor_invalidate_page (pt_write mm t (PT_INDEX va) (pa OR fl OR X86_PTE_PRESENT)) va))"
proof -
  let ?nk = "pcd_get_type (pcd (phys m)) pa \<in> {PCD_TYPE_NK_NORMAL, PCD_TYPE_NK_PGTABLE}"
  obtain t1 m1 where t1: "get_or_create_table m (unpriv_pml4 m) (PML4_INDEX va) = (t1, m1)"
    by (cases "get_or_create_table m (unpriv_pml4 m) (PML4_INDEX va)")
  obtain t2 m2 where t2: "get_or_create_table m1 t1 (PDPT_INDEX va) = (t2, m2)"
    by (cases "get_or_create_table m1 t1 (PDPT_INDEX va)")
  obtain t3 m3 where t3: "get_or_create_table m2 t2 (PD_INDEX va) = (t3, m3)"
    by (cases "get_or_create_table m2 t2 (PD_INDEX va)")
  have R: "R m1" "R m2" "R m3"
    using assms(2,3) t1 t2 t3 by (metis snd_conv)+
  show ?thesis
  proof (cases "?nk \<and> fl AND X86_PTE_WRITABLE \<noteq> 0")
    case True
    then show ?thesis
      using assms(1,2) by (auto simp: monitor_map_page_def Let_def)
  next
    case False
    then have fl: "fl AND NOT X86_PTE_WRITABLE = fl" if ?nk
      using that by (intro and_not_idle) blast
    have nk: "?nk \<longrightarrow> fl AND X86_PTE_WRITABLE = 0"
      using False by blast
    have "(r, m') = (if t1 = 0 then (-1, m1) else if t2 = 0 then (-1, m2) else if t3 = 0 then (-1, m3)
        else (0, monitor_invalidate_page (pt_write m3 t3 (PT_INDEX va) (pa OR fl OR X86_PTE_PRESENT)) va))"
      using assms(1) fl False by (cases ?nk) (auto simp: monitor_map_page_def Let_def t1 t2 t3)
    with R nk show ?thesis
      by (auto split: if_splits)
  qed
qed

lemma monitor_map_page_cr: "same_cr m (snd (monitor_map_page m pa va fl))"
proof -
  obtain r m' where e: "monitor_map_page m pa va fl = (r, m')"
    by (cases "monitor_map_page m pa va fl")
  from monitor_map_page_cases [OF e, of "same_cr m"] show ?thesis
    using same_cr_trans get_or_create_table_cr by (auto simp: e)
qed

lemma monitor_call_handler_cr:
  "monitor_call_handler m c a b d = Some (r, m') \<Longrightarrow> same_cr m m'"
  using call_alloc_pgtable_cr [of m a] monitor_map_page_cr [of m a b d]
  by (auto simp: monitor_call_handler_def Let_def call_alloc_def mon_pmm_alloc_eq int_ret_def monitor_unmap_page_def
      split: if_splits monitor_call_t.splits)

lemma monitor_call_handler_refuses:
  "\<not> monitor_is_privileged m \<Longrightarrow> monitor_call_handler m c a b d = Some (\<lparr>mc_result = 0, mc_error = -1\<rparr>, m)"
  by (simp add: monitor_call_handler_def Let_def)

section \<open>Links to fresh tables\<close>

text \<open>The table describes every frame the allocator can hand out.\<close>

definition mon_wf :: "mon_state \<Rightarrow> bool" where
  "mon_wf m \<longleftrightarrow> pmm_inv (pmm (phys m)) \<and> pcd_wf (pcd (phys m)) \<and> pcd_initialized (pcd (phys m)) \<and>
     (\<forall>n\<in>free_frames (pmm (phys m)). managed_page (pcd (phys m)) n)"

text \<open>A word of page table memory that is a link to a page table page allocated between two states.\<close>

definition fresh_link :: "mon_state \<Rightarrow> mon_state \<Rightarrow> u64 \<Rightarrow> bool" where
  "fresh_link m m' w \<longleftrightarrow> (\<exists>t. w = t OR X86_PTE_PRESENT OR X86_PTE_WRITABLE \<and>
     page_no t \<in> free_frames (pmm (phys m)) \<and> page_no t \<notin> free_frames (pmm (phys m')) \<and>
     pcd_get_type (pcd (phys m')) t = PCD_TYPE_NK_PGTABLE)"

text \<open>From \<open>m\<close> to \<open>m'\<close> words of page table memory change only to such links, and pages that were
  not free keep their types.\<close>

definition links_only :: "mon_state \<Rightarrow> mon_state \<Rightarrow> bool" where
  "links_only m m' \<longleftrightarrow> mon_wf m' \<and> free_frames (pmm (phys m')) \<subseteq> free_frames (pmm (phys m)) \<and>
     (\<forall>b. page_no b \<notin> free_frames (pmm (phys m)) \<longrightarrow>
        pcd_get_type (pcd (phys m')) b = pcd_get_type (pcd (phys m)) b) \<and>
     (\<forall>x. ptmem m' x \<noteq> ptmem m x \<longrightarrow> fresh_link m m' (ptmem m' x))"

lemma links_only_refl: "mon_wf m \<Longrightarrow> links_only m m"
  by (simp add: links_only_def)

lemma links_onlyD:
  assumes "links_only m m'"
  shows "mon_wf m'" "free_frames (pmm (phys m')) \<subseteq> free_frames (pmm (phys m))"
    "page_no b \<notin> free_frames (pmm (phys m)) \<Longrightarrow> pcd_get_type (pcd (phys m')) b = pcd_get_type (pcd (phys m)) b"
    "ptmem m' x \<noteq> ptmem m x \<Longrightarrow> fresh_link m m' (ptmem m' x)"
  using assms unfolding links_only_def by simp_all

lemma links_only_trans:
  assumes a: "links_only m m'" and b: "links_only m' m''"
  shows "links_only m m''"
  unfolding links_only_def
proof (intro conjI allI impI)
  show "mon_wf m''"
    by (rule links_onlyD(1) [OF b])
  show "free_frames (pmm (phys m'')) \<subseteq> free_frames (pmm (phys m))"
    using links_onlyD(2) [OF a] links_onlyD(2) [OF b] by (rule subset_trans [rotated])
  show "pcd_get_type (pcd (phys m'')) c = pcd_get_type (pcd (phys m)) c"
    if "page_no c \<notin> free_frames (pmm (phys m))" for c
    using links_onlyD(3) [OF a that] links_onlyD(3) [OF b, of c] links_onlyD(2) [OF a] that by auto
  fix x
  assume ne: "ptmem m'' x \<noteq> ptmem m x"
  show "fresh_link m m'' (ptmem m'' x)"
  proof (cases "ptmem m'' x = ptmem m' x")
    case True
    with ne obtain t where t: "ptmem m' x = t OR X86_PTE_PRESENT OR X86_PTE_WRITABLE"
        "page_no t \<in> free_frames (pmm (phys m))" "page_no t \<notin> free_frames (pmm (phys m'))"
        "pcd_get_type (pcd (phys m')) t = PCD_TYPE_NK_PGTABLE"
      using links_onlyD(4) [OF a, of x] by (auto simp: fresh_link_def)
    with True links_onlyD(3) [OF b t(3)] links_onlyD(2) [OF b] show ?thesis
      unfolding fresh_link_def by (intro exI [of _ t]) auto
  next
    case False
    then obtain t where "ptmem m'' x = t OR X86_PTE_PRESENT OR X86_PTE_WRITABLE"
        "page_no t \<in> free_frames (pmm (phys m'))" "page_no t \<notin> free_frames (pmm (phys m''))"
        "pcd_get_type (pcd (phys m'')) t = PCD_TYPE_NK_PGTABLE"
      using links_onlyD(4) [OF b, of x] by (auto simp: fresh_link_def)
    with links_onlyD(2) [OF a] show ?thesis
      unfolding fresh_link_def by (intro exI [of _ t]) auto
  qed
qed

lemma pcd_set_type_internal_fields [simp]:
  "pcd_initialized (pcd_set_type_internal p a t) = pcd_initialized p"
  "managed_page (pcd_set_type_internal p a t) = managed_page p"
  by (simp_all add: pcd_set_type_internal_def Let_def)

lemma pcd_get_type_internal:
  assumes "pcd_wf p" "pcd_initialized p"
  shows "pcd_get_type (pcd_set_type_internal p a t) b =
    (if page_no b = page_no a \<and> managed_page p (page_no a) then t else pcd_get_type p b)"
proof -
  have "page_type (pcd_set_type_internal p a t) (page_no b) =
      (if page_no b = page_no a then t else page_type p (page_no b))"
    if "managed_page p (page_no a)" "managed_page p (page_no b)"
    using page_type_set [OF that] that by (simp add: pcd_set_type_internal_eq [OF assms(1)])
  moreover have "pcd_set_type_internal p a t = p" if "\<not> managed_page p (page_no a)"
    using that by (simp add: pcd_set_type_internal_eq [OF assms(1)])
  ultimately show ?thesis
    using assms by (cases "managed_page p (page_no a)") (auto simp: pcd_get_type_eq)
qed

lemma init_page_types_managed: "managed_page (init_page_types p a x) = managed_page p"
proof -
  have "managed_page (fold (\<lambda>i s. snd (pcd_set_type s (f i) t)) xs p) = managed_page p" for f t xs
    by (induction xs arbitrary: p) (simp_all add: pcd_set_type_def Let_def)
  then show ?thesis
    by (simp add: init_page_types_def)
qed

lemma pmm_alloc_pcd:
  assumes "pmm_inv (pmm m)" "pcd_wf (pcd m)" "pcd_initialized (pcd m)" "pmm_alloc m x = (a, m')"
  shows "pcd_wf (pcd m')" "pcd_initialized (pcd m')" "managed_page (pcd m') = managed_page (pcd m)"
    "free_frames (pmm m') \<subseteq> free_frames (pmm m)"
    "page_no b \<notin> free_frames (pmm m) \<Longrightarrow> pcd_get_type (pcd m') b = pcd_get_type (pcd m) b"
proof -
  consider (none) "m' = m" | (some) "x \<le> MAX_ORDER" "has_free (pmm m) x"
    using pmm_alloc_none [OF assms(1), of x] assms(4) by fastforce
  note c = this
  note ok = pmm_alloc_correct [OF assms(1) _ _ assms(4)]
  note ty = init_page_types_spec [OF assms(2,3), of a x]
  show "pcd_wf (pcd m')"
    by (rule c) (use assms(2,3) ok ty in auto)
  show "pcd_initialized (pcd m')"
    by (rule c) (use assms(2,3) ok ty in auto)
  show "managed_page (pcd m') = managed_page (pcd m)"
    by (rule c) (use ok(7) in \<open>auto simp: init_page_types_managed\<close>)
  show "free_frames (pmm m') \<subseteq> free_frames (pmm m)"
    by (rule c) (use ok(4) in auto)
  show "pcd_get_type (pcd m') b = pcd_get_type (pcd m) b" if "page_no b \<notin> free_frames (pmm m)"
    by (rule c) (use that ok(2,3,7) ty(3) [of b] assms(3) in auto)
qed

lemma mon_wf_alloc:
  assumes "mon_wf m" "pmm_alloc (phys m) x = (a, p)"
  shows "links_only m (m\<lparr>phys := p\<rparr>)"
    "a \<noteq> 0 \<Longrightarrow> page_no a \<in> free_frames (pmm (phys m)) \<and> page_no a \<notin> free_frames (pmm p) \<and>
      managed_page (pcd p) (page_no a)"
proof -
  have w: "pmm_inv (pmm (phys m))" "pcd_wf (pcd (phys m))" "pcd_initialized (pcd (phys m))"
      "\<And>n. n \<in> free_frames (pmm (phys m)) \<Longrightarrow> managed_page (pcd (phys m)) n"
    using assms(1) by (auto simp: mon_wf_def)
  note pc = pmm_alloc_pcd [OF w(1-3) assms(2)]
  show "links_only m (m\<lparr>phys := p\<rparr>)"
    using pc w(4) pa.alloc_ok [OF w(1) assms(2)] by (auto simp: links_only_def mon_wf_def)
  show "page_no a \<in> free_frames (pmm (phys m)) \<and> page_no a \<notin> free_frames (pmm p) \<and>
      managed_page (pcd p) (page_no a)" if "a \<noteq> 0"
  proof -
    have "page_no a \<in> frames a x"
      by (simp add: frames_def)
    then show ?thesis
      using pa.alloc_block [OF w(1) assms(2) that] w(4) pc(3) by auto
  qed
qed

lemma call_alloc_pgtable_links:
  assumes "mon_wf m" "call_alloc_pgtable m 0 = (r, m')"
  shows "links_only m m'" "ptmem m' = ptmem m"
    "mc_result r \<noteq> 0 \<Longrightarrow> page_no (mc_result r) \<in> free_frames (pmm (phys m)) \<and>
       page_no (mc_result r) \<notin> free_frames (pmm (phys m')) \<and> pcd_get_type (pcd (phys m')) (mc_result r) = PCD_TYPE_NK_PGTABLE"
proof -
  obtain a p where al: "pmm_alloc (phys m) 0 = (a, p)"
    by (cases "pmm_alloc (phys m) 0")
  let ?q = "pcd_set_type_internal (pcd p) a PCD_TYPE_NK_PGTABLE"
  let ?m = "m\<lparr>phys := p\<rparr>"
  have r: "mc_result r = a" "m' = (if a = 0 then ?m else set_pcd ?m ?q)"
    using assms(2) by (auto simp: call_alloc_pgtable_def mon_pmm_alloc_eq al split: if_splits)
  note w = mon_wf_alloc [OF assms(1) al]
  have wp: "mon_wf ?m"
    by (rule links_onlyD(1) [OF w(1)])
  then have ty: "pcd_get_type ?q b = (if page_no b = page_no a then PCD_TYPE_NK_PGTABLE else pcd_get_type (pcd p) b)"
    if "a \<noteq> 0" for b
    using pcd_get_type_internal [of "pcd p" a] w(2) [OF that] by (simp add: mon_wf_def)
  show "links_only m m'"
  proof (cases "a = 0")
    case False
    have "mon_wf (set_pcd ?m ?q)"
      using wp by (simp add: mon_wf_def)
    with False r(2) w links_onlyD(2,3) [OF w(1)] show ?thesis
      by (auto simp: links_only_def ty)
  qed (simp add: r(2) w(1))
  show "ptmem m' = ptmem m"
    by (simp add: r(2))
  show "page_no (mc_result r) \<in> free_frames (pmm (phys m)) \<and> page_no (mc_result r) \<notin> free_frames (pmm (phys m')) \<and>
      pcd_get_type (pcd (phys m')) (mc_result r) = PCD_TYPE_NK_PGTABLE" if "mc_result r \<noteq> 0"
    using w(2) that by (simp add: r ty)
qed

lemma links_only_cong:
  assumes "phys m1 = phys m2" "ptmem m1 = ptmem m2" "phys m1' = phys m2'" "ptmem m1' = ptmem m2'"
  shows "links_only m1 m1' = links_only m2 m2'"
  using assms by (simp add: links_only_def mon_wf_def fresh_link_def)

lemma monitor_alloc_pgtable_links:
  assumes "mon_wf m" "monitor_alloc_pgtable m 0 = (a, m')"
  shows "links_only m m'" "ptmem m' = ptmem m"
    "a \<noteq> 0 \<Longrightarrow> page_no a \<in> free_frames (pmm (phys m)) \<and>
       page_no a \<notin> free_frames (pmm (phys m')) \<and> pcd_get_type (pcd (phys m')) a = PCD_TYPE_NK_PGTABLE"
proof -
  let ?e = "if call_direct m then m else nk_entry m"
  obtain r m1 where e: "call_alloc_pgtable ?e 0 = (r, m1)"
    by (cases "call_alloc_pgtable ?e 0")
  have pe: "phys ?e = phys m" "ptmem ?e = ptmem m"
    by simp_all
  then have wf: "mon_wf ?e"
    using assms(1) by (simp add: mon_wf_def)
  note c = call_alloc_pgtable_links [OF wf e]
  have ex: "phys (nk_exit m1) = phys m1" "ptmem (nk_exit m1) = ptmem m1"
    by (simp_all add: nk_exit_def)
  have out: "(a = 0 \<and> m' = m) \<or> (a = mc_result r \<and> phys m' = phys m1 \<and> ptmem m' = ptmem m1)"
    using assms(2) e by (auto simp: monitor_alloc_pgtable_def Let_def ex split: if_splits prod.splits)
  show "links_only m m'"
    using out links_only_refl [OF assms(1)] links_only_cong [OF pe, of m1 m'] c(1) by auto
  show "ptmem m' = ptmem m"
    using out c(2) unfolding pe by auto
  show "page_no a \<in> free_frames (pmm (phys m)) \<and> page_no a \<notin> free_frames (pmm (phys m')) \<and>
      pcd_get_type (pcd (phys m')) a = PCD_TYPE_NK_PGTABLE" if "a \<noteq> 0"
    using out c(3) that unfolding pe by auto
qed

lemma get_or_create_table_links:
  assumes "mon_wf m"
  shows "links_only m (snd (get_or_create_table m t i))"
proof -
  obtain a m' where al: "monitor_alloc_pgtable m 0 = (a, m')"
    by (cases "monitor_alloc_pgtable m 0")
  note c = monitor_alloc_pgtable_links [OF assms al]
  let ?w = "virt_to_phys a OR X86_PTE_PRESENT OR X86_PTE_WRITABLE"
  have "links_only m (pt_write m' t i ?w)" if "a \<noteq> 0"
  proof -
    have "fresh_link m (pt_write m' t i ?w) ?w"
      using c(3) [OF that] unfolding fresh_link_def virt_to_phys_def by (intro exI [of _ a]) simp
    with links_onlyD [OF c(1)] c(2) show ?thesis
      by (simp add: links_only_def mon_wf_def fun_upd_def)
  qed
  with c(1) links_only_refl [OF assms] show ?thesis
    by (simp add: get_or_create_table_def Let_def al)
qed

lemma page_aligned_flags: "page_down a = a \<Longrightarrow> a AND X86_PTE_WRITABLE = 0"
proof -
  have "page_down a AND X86_PTE_WRITABLE = 0"
    by (simp add: page_down_def and.assoc)
  then show "page_down a = a \<Longrightarrow> a AND X86_PTE_WRITABLE = 0"
    by (simp only:)
qed

section \<open>Write protection of page table pages\<close>

lemma of_nat_eqI: "unat (w :: 'a::len word) = i \<Longrightarrow> w = of_nat i"
  by (drule sym) simp

lemma drop_push_12: "i < 2 ^ 52 \<Longrightarrow> drop_bit 12 (push_bit 12 (of_nat i :: u64)) = of_nat i"
proof -
  assume "i < 2 ^ 52"
  then have "unat (push_bit 12 (of_nat i :: u64)) = 4096 * i"
    by (simp add: push_bit_eq_mult unat_word_ariths unat_of_nat)
  then have "unat (drop_bit 12 (push_bit 12 (of_nat i :: u64))) = i"
    by (simp only: unat_drop_12 page_no_def)
  then show ?thesis
    by (rule of_nat_eqI)
qed

lemma of_nat_int_index:
  assumes "i < 2 ^ 31"
  shows "(ucast (of_nat i :: u64) :: u32) = of_nat i" "sint (of_nat i :: u32) = int i"
    "scast (of_nat i :: u32) = (of_nat i :: u64)"
proof -
  show "(ucast (of_nat i :: u64) :: u32) = of_nat i"
    using assms by (intro of_nat_eqI)
      (simp add: unsigned_ucast_eq unsigned_take_bit_eq unsigned_of_nat take_bit_nat_eq_self)
  have "sint (word_of_int (int i) :: u32) = int i"
    using assms by (simp only: int_word_sint) simp
  then show s: "sint (of_nat i :: u32) = int i"
    by simp
  show "scast (of_nat i :: u32) = (of_nat i :: u64)"
    unfolding scast_eq s by simp
qed

lemma protect_ptp_eq:
  assumes "i < 2 ^ 31"
  shows "protect_ptp m i =
    (if pcd_get_type (pcd (phys m)) (page_to_phys (of_nat i)) = PCD_TYPE_NK_PGTABLE \<and> i < 512
     then pt_write m (unpriv_pt_0_2mb m) (of_nat i)
            (pt_read m (unpriv_pt_0_2mb m) (of_nat i) AND NOT X86_PTE_WRITABLE) else m)"
proof -
  have d: "drop_bit 12 (push_bit 12 (of_nat i :: u64)) = of_nat i"
    using assms by (intro drop_push_12) simp
  show ?thesis
    unfolding protect_ptp_def Let_def d of_nat_int_index [OF assms] page_to_phys_def by simp
qed

lemma table_index_inj: "i < 512 \<Longrightarrow> j < 512 \<Longrightarrow> (8 * of_nat i :: u64) = 8 * of_nat j \<longleftrightarrow> i = j"
proof -
  assume "i < 512" "j < 512"
  then have "unat (8 * of_nat i :: u64) = 8 * i" "unat (8 * of_nat j :: u64) = 8 * j"
    by (simp_all add: unat_word_ariths unat_of_nat)
  then show ?thesis
    by (metis mult_cancel1 zero_neq_numeral)
qed

text \<open>A page table page among the first \<open>n\<close> pages whose entry is at \<open>x\<close>.\<close>

definition ptp_entry :: "mon_state \<Rightarrow> nat \<Rightarrow> u64 \<Rightarrow> bool" where
  "ptp_entry m n x \<longleftrightarrow> (\<exists>i<n. i < 512 \<and> x = unpriv_pt_0_2mb m + 8 * of_nat i \<and>
     pcd_get_type (pcd (phys m)) (page_to_phys (of_nat i)) = PCD_TYPE_NK_PGTABLE)"

lemma ptp_entry_index:
  "i < 512 \<Longrightarrow> ptp_entry m n (unpriv_pt_0_2mb m + 8 * of_nat i) \<longleftrightarrow>
     i < n \<and> pcd_get_type (pcd (phys m)) (page_to_phys (of_nat i)) = PCD_TYPE_NK_PGTABLE"
  unfolding ptp_entry_def by (metis add_left_cancel table_index_inj)

lemma ptp_entry_Suc:
  "ptp_entry m (Suc n) x \<longleftrightarrow> ptp_entry m n x \<or> (n < 512 \<and> x = unpriv_pt_0_2mb m + 8 * of_nat n \<and>
     pcd_get_type (pcd (phys m)) (page_to_phys (of_nat n)) = PCD_TYPE_NK_PGTABLE)"
  unfolding ptp_entry_def less_Suc_eq by blast

text \<open>After the first \<open>n\<close> pages the entries of the page table pages among them are read-only.\<close>

lemma protect_ptps_upto:
  assumes "n \<le> 2 ^ 31"
  shows "fold (\<lambda>i m. protect_ptp m i) [0..<n] m =
    m\<lparr>ptmem := (\<lambda>x. if ptp_entry m n x then ptmem m x AND NOT X86_PTE_WRITABLE else ptmem m x)\<rparr>"
  using assms
proof (induction n)
  case 0
  then show ?case
    by (simp add: ptp_entry_def)
next
  case (Suc n)
  then have n: "n < 2 ^ 31"
    by simp
  have IH: "fold (\<lambda>i m. protect_ptp m i) [0..<n] m =
      m\<lparr>ptmem := (\<lambda>x. if ptp_entry m n x then ptmem m x AND NOT X86_PTE_WRITABLE else ptmem m x)\<rparr>"
    using Suc by simp
  have "fold (\<lambda>i m. protect_ptp m i) [0..<Suc n] m = protect_ptp (fold (\<lambda>i m. protect_ptp m i) [0..<n] m) n"
    by simp
  also have "\<dots> = m\<lparr>ptmem := (\<lambda>x. if ptp_entry m (Suc n) x then ptmem m x AND NOT X86_PTE_WRITABLE else ptmem m x)\<rparr>"
    unfolding IH protect_ptp_eq [OF n]
    by (auto simp: pt_write_def pt_read_def ptp_entry_Suc ptp_entry_index fun_eq_iff intro!: mon_state.equality)
  finally show ?case .
qed

lemma invalidate_protected_fold:
  "fold (\<lambda>i m. invalidate_protected m i) xs m =
     m\<lparr>tlb_log := tlb_log m @ map (\<lambda>i. push_bit 12 (of_nat i))
       (filter (\<lambda>i. pt_read m (unpriv_pt_0_2mb m) (of_nat i) AND X86_PTE_WRITABLE = 0) xs)\<rparr>"
proof (induction xs arbitrary: m)
  case (Cons i xs)
  have "invalidate_protected m i =
      (if pt_read m (unpriv_pt_0_2mb m) (of_nat i) AND X86_PTE_WRITABLE = 0
       then m\<lparr>tlb_log := tlb_log m @ [push_bit 12 (of_nat i)]\<rparr> else m)"
    by (simp add: invalidate_protected_def monitor_invalidate_page_def arch_tlb_invalidate_page_def)
  then show ?case
    by (simp only: fold_Cons comp_apply Cons.IH) (simp add: pt_read_def)
qed simp

section \<open>Properties\<close>


text \<open>A monitor whose view maps \<open>0x5000\<close> through tables that exist, called from the outer kernel,
  with the 2 MB at 4 MB free.\<close>

definition mon_example :: mon_state where
  "mon_example = \<lparr>phys = phys_example,
     ptmem = (\<lambda>x. if x = 0x1000 then 0x2003 else if x = 0x2000 then 0x3003 else if x = 0x3000 then 0x4003 else 0),
     tlb_log = [], cr0 = 0x10000, cr3 = 0x1000, saved_cr0 = 0, monitor_pml4_phys = 0x8000, unpriv_pml4_phys = 0x1000,
     monitor_pml4 = 0x8000, monitor_pdpt = 0x9000, monitor_pd = 0xA000,
     unpriv_pml4 = 0x1000, unpriv_pdpt = 0x2000, unpriv_pd = 0x3000, g_unpriv_pd_ptr = 0x3000,
     monitor_pt_0_2mb = 0xB000, unpriv_pt_0_2mb = 0x4000\<rparr>"

lemma mon_example_wf: "mon_wf mon_example"
  using phys_example_facts by (auto simp: mon_wf_def mon_example_def managed_page_def phys_example_def pcd_example_def)

lemma mon_example_types:
  "pcd_get_type (pcd (phys mon_example)) a =
     (if managed_page pcd_example (page_no a) then PCD_TYPE_OK_NORMAL else PCD_TYPE_NK_NORMAL)"
  using phys_example_facts(6,7)
  by (simp add: mon_example_def pcd_get_type_eq) (simp add: phys_example_def pcd_example_def page_type_def)

lemma mon_example_indices:
  "PML4_INDEX 0x5000 = 0" "PDPT_INDEX 0x5000 = 0" "PD_INDEX 0x5000 = 0" "PT_INDEX 0x5000 = 5"
  by (simp_all add: PML4_INDEX_def PDPT_INDEX_def PD_INDEX_def PT_INDEX_def)

lemma mon_example_walk:
  assumes "pmm (phys m) = pmm (phys mon_example)" "ptmem m = ptmem mon_example" "unpriv_pml4 m = 0x1000"
    and "pcd_get_type (pcd (phys m)) pa \<notin> {PCD_TYPE_NK_NORMAL, PCD_TYPE_NK_PGTABLE} \<or> fl AND X86_PTE_WRITABLE = 0"
  shows "monitor_map_page m pa 0x5000 fl =
    (0, monitor_invalidate_page (pt_write m 0x4000 5 (pa OR fl OR X86_PTE_PRESENT)) 0x5000)"
proof -
  have r: "pt_read m 0x1000 0 = 0x2003" "pt_read m 0x2000 0 = 0x3003" "pt_read m 0x3000 0 = 0x4003"
    using assms(2) by (simp_all add: pt_read_def mon_example_def)
  have g: "get_or_create_table m 0x1000 0 = (0x2000, m)" "get_or_create_table m 0x2000 0 = (0x3000, m)"
      "get_or_create_table m 0x3000 0 = (0x4000, m)"
    by (simp_all add: get_or_create_table_def r)
  have "fl AND NOT X86_PTE_WRITABLE = fl" if "fl AND X86_PTE_WRITABLE = 0"
    using that by (rule and_not_idle)
  then show ?thesis
    using assms(3,4) by (auto simp: monitor_map_page_def Let_def mon_example_indices g)
qed



text \<open>C9: a monitor call leaves CR0, and with it write protection, as the caller had it, whatever
  the call does in between; and before \<open>monitor_init\<close> a caller with write protection on gets an
  error and changes nothing.\<close>

theorem monitor_call_restores_cr0:
  assumes "monitor_call m c a b d = Some (r, m')"
  shows "cr0 m' = cr0 m \<and> (monitor_pml4_phys m = 0 \<longrightarrow> \<not> monitor_is_privileged m \<longrightarrow> mc_error r = -1 \<and> m' = m)"
proof (cases "call_direct m")
  case True
  then have "monitor_call_handler m c a b d = Some (r, m')"
    using assms by (auto simp: monitor_call_def call_direct_def split: if_splits)
  then show ?thesis
    using monitor_call_handler_cr [of m c a b d r m'] monitor_call_handler_refuses [of m c a b d]
    by (auto simp: same_cr_def)
next
  case False
  then obtain m1 where "monitor_call_handler (nk_entry m) c a b d = Some (r, m1)" "m' = nk_exit m1"
    using assms by (auto simp: monitor_call_def call_direct_def nk_entry_trampoline_def)
  then show ?thesis
    using same_cr_trampoline [OF monitor_call_handler_cr] False by (auto simp: same_cr_def call_direct_def)
qed

theorem monitor_call_restores_cr0_witness:
  "\<exists>r m'. monitor_call mon_example MONITOR_CALL_GET_PAGE_TYPE 0x900000 0 0 = Some (r, m') \<and> cr0 m' = 0x10000"
proof -
  let ?c = "monitor_call mon_example MONITOR_CALL_GET_PAGE_TYPE 0x900000 0 0"
  have "?c \<noteq> None"
    by (simp add: monitor_call_def nk_entry_trampoline_def monitor_call_handler_def Let_def)
  then obtain r m' where e: "?c = Some (r, m')"
    by auto
  with monitor_call_restores_cr0 [OF e] show ?thesis
    by (auto simp: mon_example_def)
qed

text \<open>C8: the memory calls of the monitor are those of the page allocator: they always return what
  \<open>pmm_alloc\<close> returns, whatever mode the caller is in, change nothing but the allocator's
  state and the trampoline's slot, and a block allocated through the monitor can be given back
  through it.\<close>

theorem monitor_pmm_refines:
  assumes "pmm_inv (pmm (phys m))"
  shows "\<exists>a m'. monitor_pmm_alloc m x = Some (a, m') \<and> pmm_alloc (phys m) (unat x) = (a, phys m') \<and>
    ptmem m' = ptmem m \<and> cr0 m' = cr0 m \<and>
    (a \<noteq> 0 \<longrightarrow> (\<exists>m''. monitor_pmm_free m' a x = Some m'' \<and> phys_free (phys m') a (unat x) = Some (phys m'') \<and>
       ptmem m'' = ptmem m \<and> cr0 m'' = cr0 m \<and> allocs (pmm (phys m'')) = allocs (pmm (phys m)) \<and>
       frames a (unat x) \<subseteq> free_frames (pmm (phys m''))))"
proof -
  obtain a p where al: "pmm_alloc (phys m) (unat x) = (a, p)"
    by (cases "pmm_alloc (phys m) (unat x)")
  let ?m' = "(after_call m)\<lparr>phys := p\<rparr>"
  have e: "monitor_pmm_alloc m x = Some (a, ?m')"
    by (simp add: monitor_pmm_alloc_eq al)
  have "\<exists>m''. monitor_pmm_free ?m' a x = Some m'' \<and> phys_free (phys ?m') a (unat x) = Some (phys m'') \<and>
      ptmem m'' = ptmem m \<and> cr0 m'' = cr0 m \<and> allocs (pmm (phys m'')) = allocs (pmm (phys m)) \<and>
      frames a (unat x) \<subseteq> free_frames (pmm (phys m''))" if nz: "a \<noteq> 0"
  proof -
    obtain m'' where m'': "monitor_pmm_free ?m' a x = Some m''" "allocs (pmm (phys m'')) = allocs (pmm (phys m))"
        "frames a (unat x) \<subseteq> free_frames (pmm (phys m''))"
      using mpa.alloc_release [OF assms _ nz, of x ?m'] by (auto simp: e)
    then show ?thesis
      by (intro exI [of _ m'']) (auto simp: monitor_pmm_free_eq)
  qed
  then show ?thesis
    using e al by (intro exI [of _ a] exI [of _ ?m']) simp
qed

theorem monitor_pmm_refines_witness:
  "\<exists>a m'. monitor_pmm_alloc mon_example 0 = Some (a, m') \<and> pmm_alloc phys_example 0 = (a, phys m') \<and> cr0 m' = 0x10000"
proof -
  have "pmm_inv (pmm (phys mon_example))"
    using mon_example_wf by (simp add: mon_wf_def)
  from monitor_pmm_refines [OF this, of 0] show ?thesis
    by (auto simp: mon_example_def)
qed

text \<open>C11: the privilege check of \<open>MONITOR_CALL_SET_PAGE_TYPE\<close> protects nothing: it runs behind the
  trampoline, where write protection is always off. Once the monitor is initialised, an
  unprivileged caller gives any managed page any type.\<close>

theorem monitor_retype_unprivileged:
  assumes "monitor_pml4_phys m \<noteq> 0" and "\<not> monitor_is_privileged m" and "pcd_wf (pcd (phys m))"
    and "pcd_initialized (pcd (phys m))" and "managed_page (pcd (phys m)) (page_no a)"
  shows "\<exists>m'. monitor_pcd_set_type m a t = Some m' \<and> monitor_pcd_get_type m' a = t \<and> cr0 m' = cr0 m"
proof -
  have "monitor_pcd_set_type m a t = Some (nk_exit (set_pcd (nk_entry m) (pcd_set_type_internal (pcd (phys m)) a t)))"
    using assms(1,2) by (simp add: monitor_pcd_set_type_def monitor_call_def nk_entry_trampoline_def
        monitor_call_handler_def Let_def)
  then show ?thesis
    using assms(3-5) by (simp add: monitor_pcd_get_type_def nk_exit_def pcd_get_type_internal)
qed

theorem monitor_retype_unprivileged_witness:
  "\<exists>m'. monitor_pcd_set_type mon_example 0x8000 PCD_TYPE_NK_PGTABLE = Some m' \<and>
     monitor_pcd_get_type m' 0x8000 = PCD_TYPE_NK_PGTABLE"
proof -
  have "monitor_pml4_phys mon_example \<noteq> 0" "\<not> monitor_is_privileged mon_example"
      "managed_page (pcd (phys mon_example)) (page_no 0x8000)"
    by (simp_all add: mon_example_def monitor_is_privileged_def managed_page_def phys_example_def pcd_example_def page_no_def)
  moreover have "pcd_wf (pcd (phys mon_example))" "pcd_initialized (pcd (phys mon_example))"
    using mon_example_wf by (simp_all add: mon_wf_def)
  ultimately show ?thesis
    using monitor_retype_unprivileged [of mon_example "0x8000"] by blast
qed



end
