(* ===== verification/Minilibc.thy ===== *)
theory Minilibc
  imports EK_Prelude
begin

text \<open>
  The kernel's C library: \<^verbatim>\<open>src/lib/minilibc/string.c\<close> over a byte memory, where a loop that looks
  for a terminator is \<open>None\<close> when there is none, and \<^verbatim>\<open>src/lib/minilibc/printf.c\<close> over format
  strings. The formatter is compared with a plain rendering of the format.
\<close>

section \<open>Memory and strings\<close>

type_synonym mem = "u64 \<Rightarrow> u8"

partial_function (option) strlen_from :: "mem \<Rightarrow> u64 \<Rightarrow> u64 \<Rightarrow> u64 option" where
  "strlen_from m s len = (if m (s + len) \<noteq> 0 then strlen_from m s (len + 1) else Some len)"

definition strlen :: "mem \<Rightarrow> u64 \<Rightarrow> u64 option" where
  "strlen m s = strlen_from m s 0"

partial_function (option) strcpy_from :: "u64 \<Rightarrow> u64 \<Rightarrow> mem \<Rightarrow> mem option" where
  "strcpy_from d src m =
     (let m' = m(d := m src)
      in if m' d \<noteq> 0 then strcpy_from (d + 1) (src + 1) m' else Some m')"

definition strcpy :: "mem \<Rightarrow> u64 \<Rightarrow> u64 \<Rightarrow> (u64 \<times> mem) option" where
  "strcpy m dest src = map_option (\<lambda>m. (dest, m)) (strcpy_from dest src m)"

primrec strncpy_from :: "nat \<Rightarrow> u64 \<Rightarrow> u64 \<Rightarrow> mem \<Rightarrow> mem" where
  "strncpy_from 0 d src m = m"
| "strncpy_from (Suc n) d src m =
     (let m' = m(d := m src)
      in strncpy_from n (d + 1) (if m' d \<noteq> 0 then src + 1 else src) m')"

definition strncpy :: "mem \<Rightarrow> u64 \<Rightarrow> u64 \<Rightarrow> u64 \<Rightarrow> u64 \<times> mem" where
  "strncpy m dest src n = (dest, strncpy_from (unat n) dest src m)"

partial_function (option) strcmp :: "mem \<Rightarrow> u64 \<Rightarrow> u64 \<Rightarrow> int option" where
  "strcmp m s1 s2 =
     (if m s1 \<noteq> 0 \<and> m s1 = m s2 then strcmp m (s1 + 1) (s2 + 1)
      else Some (uint (m s1) - uint (m s2)))"

primrec strncmp_from :: "nat \<Rightarrow> mem \<Rightarrow> u64 \<Rightarrow> u64 \<Rightarrow> int" where
  "strncmp_from 0 m s1 s2 = 0"
| "strncmp_from (Suc n) m s1 s2 =
     (if m s1 \<noteq> 0 \<and> m s1 = m s2 then strncmp_from n m (s1 + 1) (s2 + 1)
      else uint (m s1) - uint (m s2))"

definition strncmp :: "mem \<Rightarrow> u64 \<Rightarrow> u64 \<Rightarrow> u64 \<Rightarrow> int" where
  "strncmp m s1 s2 n = strncmp_from (unat n) m s1 s2"

primrec memset_from :: "nat \<Rightarrow> u64 \<Rightarrow> u8 \<Rightarrow> mem \<Rightarrow> mem" where
  "memset_from 0 p c m = m"
| "memset_from (Suc n) p c m = memset_from n (p + 1) c (m(p := c))"

definition memset :: "mem \<Rightarrow> u64 \<Rightarrow> u32 \<Rightarrow> u64 \<Rightarrow> u64 \<times> mem" where
  "memset m s c n = (s, memset_from (unat n) s (ucast c) m)"

primrec memcpy_from :: "nat \<Rightarrow> u64 \<Rightarrow> u64 \<Rightarrow> mem \<Rightarrow> mem" where
  "memcpy_from 0 d s m = m"
| "memcpy_from (Suc n) d s m = memcpy_from n (d + 1) (s + 1) (m(d := m s))"

definition memcpy :: "mem \<Rightarrow> u64 \<Rightarrow> u64 \<Rightarrow> u64 \<Rightarrow> u64 \<times> mem" where
  "memcpy m dest src n = (dest, memcpy_from (unat n) dest src m)"

text \<open>The bytes of a null-terminated string, and the addresses of a range.\<close>

fun cstring :: "mem \<Rightarrow> u64 \<Rightarrow> u8 list \<Rightarrow> bool" where
  "cstring m a [] \<longleftrightarrow> m a = 0"
| "cstring m a (c # cs) \<longleftrightarrow> m a = c \<and> c \<noteq> 0 \<and> cstring m (a + 1) cs"

definition range_of :: "u64 \<Rightarrow> nat \<Rightarrow> u64 set" where
  "range_of a n = (\<lambda>i. a + of_nat i) ` {..<n}"

lemma range_of_0 [simp]: "range_of a 0 = {}"
  by (simp add: range_of_def)

lemma range_of_Suc: "range_of a (Suc n) = insert a (range_of (a + 1) n)"
  by (auto simp: range_of_def image_iff lessThan_Suc_eq_insert_0 algebra_simps)

lemma range_of_iff: "n \<le> 2 ^ 64 \<Longrightarrow> b \<in> range_of a n \<longleftrightarrow> unat (b - a) < n"
proof
  assume "n \<le> 2 ^ 64" "b \<in> range_of a n"
  then obtain i where "b = a + of_nat i" "i < n" "i < 2 ^ 64"
    by (auto simp: range_of_def)
  then show "unat (b - a) < n"
    by (simp add: unat_of_nat)
next
  assume "unat (b - a) < n"
  then show "b \<in> range_of a n"
    by (auto simp: range_of_def image_iff intro!: bexI [of _ "unat (b - a)"])
qed

lemma range_of_start: "n < 2 ^ 64 \<Longrightarrow> a \<notin> range_of (a + 1) n"
proof -
  have "unat (a - (a + 1)) = 2 ^ 64 - 1"
    by (simp add: unsigned_minus_1_eq_mask mask_eq_exp_minus_1)
  then show "n < 2 ^ 64 \<Longrightarrow> a \<notin> range_of (a + 1) n"
    by (simp add: range_of_iff)
qed

lemma strlen_from_cstring: "cstring m (s + len) cs \<Longrightarrow> strlen_from m s len = Some (len + of_nat (length cs))"
proof (induction cs arbitrary: len)
  case (Cons c cs)
  then have "strlen_from m s (len + 1) = Some (len + 1 + of_nat (length cs))"
    by (simp add: add.assoc)
  with Cons.prems show ?case
    by (simp add: strlen_from.simps [of m s len])
qed (simp add: strlen_from.simps)

text \<open>Copying and filling, on ranges that do not wrap onto themselves.\<close>

lemma memset_from_eq:
  "n \<le> 2 ^ 64 \<Longrightarrow> memset_from n p c m a = (if a \<in> range_of p n then c else m a)"
proof (induction n arbitrary: p m)
  case (Suc n)
  then show ?case
    using range_of_start [of n p] by (auto simp: range_of_Suc)
qed simp

lemma memcpy_from_eq:
  assumes "n \<le> 2 ^ 64" "range_of d n \<inter> range_of s n = {}"
  shows "memcpy_from n d s m a = (if a \<in> range_of d n then m (a - d + s) else m a)"
  using assms
proof (induction n arbitrary: d s m)
  case (Suc n)
  have dis: "range_of (d + 1) n \<inter> range_of (s + 1) n = {}" "s \<noteq> d" "d \<notin> range_of (s + 1) n"
    using Suc.prems(2) by (auto simp: range_of_Suc)
  have "memcpy_from (Suc n) d s m a =
      (if a \<in> range_of (d + 1) n then (m(d := m s)) (a - (d + 1) + (s + 1)) else (m(d := m s)) a)"
    using Suc.IH [OF _ dis(1)] Suc.prems(1) by simp
  moreover have "a - (d + 1) + (s + 1) \<noteq> d" if "a \<in> range_of (d + 1) n"
    using that dis(3) by (auto simp: range_of_def algebra_simps)
  ultimately show ?case
    using range_of_start [of n d] Suc.prems(1) by (auto simp: range_of_Suc algebra_simps)
qed simp

lemma strcmp_cstring:
  assumes "cstring m a xs" "cstring m b ys"
  shows "\<exists>r. strcmp m a b = Some r \<and> (r = 0 \<longleftrightarrow> xs = ys)"
  using assms
proof (induction xs arbitrary: a b ys)
  case Nil
  then show ?case
    by (cases ys) (auto simp: strcmp.simps [of m a b] uint_0_iff)
next
  case (Cons x xs)
  show ?case
  proof (cases ys)
    case Nil
    with Cons.prems show ?thesis
      by (auto simp: strcmp.simps [of m a b] uint_0_iff)
  next
    case (Cons y zs)
    with Cons.prems Cons.IH [of "a + 1" "b + 1" zs] show ?thesis
      by (cases "x = y") (auto simp: strcmp.simps [of m a b] dest: unsigned_word_eqI)
  qed
qed

section \<open>Formatted output\<close>

text \<open>
  The output of the formatter: the characters stored through \<open>buf\<close>, and \<open>remaining\<close>. An
  argument is a 64-bit slot, of which \<open>va_arg(ap, int)\<close> reads the low half, or a pointer to a
  string (\<open>None\<close> for the null pointer). \<open>None\<close> as a result stands for arguments that do not
  match the format, which C leaves undefined.
\<close>

record fmt_buf =
  fb_out :: string
  fb_remaining :: nat

datatype va_slot = Slot u64 | Str "string option"

definition emit_char :: "fmt_buf \<Rightarrow> char \<Rightarrow> fmt_buf" where
  "emit_char ob c =
     (if fb_remaining ob > 1
      then \<lparr>fb_out = fb_out ob @ [c], fb_remaining = fb_remaining ob - 1\<rparr> else ob)"

primrec emit_string :: "fmt_buf \<Rightarrow> string \<Rightarrow> fmt_buf \<times> nat" where
  "emit_string ob [] = (ob, 0)"
| "emit_string ob (c # cs) = (case emit_string (emit_char ob c) cs of (ob, n) \<Rightarrow> (ob, n + 1))"

definition digit_char :: "bool \<Rightarrow> nat \<Rightarrow> char" where
  "digit_char uppercase d = (if uppercase then ''0123456789ABCDEF'' else ''0123456789abcdef'') ! d"

text \<open>The array \<open>tmp\<close> after the loop that builds the digits in reverse; \<open>base\<close> is 10 or 16.\<close>

fun digits_rev :: "bool \<Rightarrow> nat \<Rightarrow> nat \<Rightarrow> string" where
  "digits_rev uppercase base val =
     (if val = 0 \<or> base < 2 then []
      else digit_char uppercase (val mod base) # digits_rev uppercase base (val div base))"

declare digits_rev.simps [simp del]

definition emit_uint :: "fmt_buf \<Rightarrow> u64 \<Rightarrow> nat \<Rightarrow> bool \<Rightarrow> fmt_buf \<times> nat" where
  "emit_uint ob val base uppercase =
     (if val = 0 then (emit_char ob CHR ''0'', 1)
      else let tmp = digits_rev uppercase base (unat val)
           in (fold (\<lambda>c ob. emit_char ob c) (rev tmp) ob, length tmp))"

definition emit_int :: "fmt_buf \<Rightarrow> u64 \<Rightarrow> fmt_buf \<times> nat" where
  "emit_int ob val =
     (if sint val < 0
      then (case emit_uint (emit_char ob CHR ''-'') (- val) 10 False of (ob, n) \<Rightarrow> (ob, 1 + n))
      else emit_uint ob val 10 False)"

text \<open>One conversion after \<open>%\<close>: the value of an argument and how it is printed.\<close>

fun emit_conv :: "char \<Rightarrow> va_slot list \<Rightarrow> fmt_buf \<Rightarrow> (fmt_buf \<times> nat \<times> va_slot list) option" where
  "emit_conv f args ob =
     (if f = CHR ''%'' then Some (emit_char ob CHR ''%'', 1, args)
      else if f = CHR ''c'' then
        (case args of Slot v # args \<Rightarrow> Some (emit_char ob (char_of (unat v)), 1, args) | _ \<Rightarrow> None)
      else if f = CHR ''s'' then
        (case args of
           Str s # args \<Rightarrow>
             (case emit_string ob (case s of None \<Rightarrow> ''(null)'' | Some s \<Rightarrow> s) of (ob, n) \<Rightarrow> Some (ob, n, args))
         | _ \<Rightarrow> None)
      else if f = CHR ''d'' \<or> f = CHR ''i'' then
        (case args of
           Slot v # args \<Rightarrow> (case emit_int ob (scast (ucast v :: u32)) of (ob, n) \<Rightarrow> Some (ob, n, args))
         | _ \<Rightarrow> None)
      else if f = CHR ''u'' \<or> f = CHR ''x'' \<or> f = CHR ''X'' then
        (case args of
           Slot v # args \<Rightarrow>
             (case emit_uint ob (ucast (ucast v :: u32)) (if f = CHR ''u'' then 10 else 16) (f = CHR ''X'')
              of (ob, n) \<Rightarrow> Some (ob, n, args))
         | _ \<Rightarrow> None)
      else if f = CHR ''p'' then
        (case args of
           Slot v # args \<Rightarrow>
             (case emit_uint (emit_char (emit_char ob CHR ''0'') CHR ''x'') v 16 False
              of (ob, n) \<Rightarrow> Some (ob, 2 + n, args))
         | _ \<Rightarrow> None)
      else Some (emit_char (emit_char ob CHR ''%'') f, 2, args))"

text \<open>The conversions after \<open>%l\<close>.\<close>

fun emit_long :: "char \<Rightarrow> va_slot list \<Rightarrow> fmt_buf \<Rightarrow> (fmt_buf \<times> nat \<times> va_slot list) option" where
  "emit_long f args ob =
     (if f = CHR ''d'' \<or> f = CHR ''i'' then
        (case args of
           Slot v # args \<Rightarrow> (case emit_int ob v of (ob, n) \<Rightarrow> Some (ob, n, args))
         | _ \<Rightarrow> None)
      else if f = CHR ''u'' \<or> f = CHR ''x'' \<or> f = CHR ''X'' then
        (case args of
           Slot v # args \<Rightarrow>
             (case emit_uint ob v (if f = CHR ''u'' then 10 else 16) (f = CHR ''X'') of (ob, n) \<Rightarrow> Some (ob, n, args))
         | _ \<Rightarrow> None)
      else Some (emit_char (emit_char (emit_char ob CHR ''%'') CHR ''l'') f, 3, args))"

text \<open>The loop of \<open>vsnprintf\<close> over the format, and the function.\<close>

fun format_loop :: "string \<Rightarrow> va_slot list \<Rightarrow> fmt_buf \<Rightarrow> nat \<Rightarrow> (fmt_buf \<times> nat) option" where
  "format_loop [] args ob written = Some (ob, written)"
| "format_loop (c # cs) args ob written =
     (if c \<noteq> CHR ''%'' then format_loop cs args (emit_char ob c) (written + 1)
      else case cs of
             [] \<Rightarrow> Some (ob, written)
           | f # cs' \<Rightarrow>
               if f = CHR ''l'' then
                 (case cs' of
                    [] \<Rightarrow> Some (emit_char (emit_char ob CHR ''%'') CHR ''l'', written + 2)
                  | g # cs'' \<Rightarrow>
                      (case emit_long g args ob of
                         None \<Rightarrow> None
                       | Some (ob, n, args) \<Rightarrow> format_loop cs'' args ob (written + n)))
               else
                 (case emit_conv f args ob of
                    None \<Rightarrow> None
                  | Some (ob, n, args) \<Rightarrow> format_loop cs' args ob (written + n)))"

text \<open>The bytes left in the buffer, terminator included, and the returned C \<open>int\<close>.\<close>

definition vsnprintf :: "nat \<Rightarrow> string \<Rightarrow> va_slot list \<Rightarrow> (int \<times> string) option" where
  "vsnprintf sz format args =
     map_option (\<lambda>(ob, written).
        (sint (word_of_nat written :: u32), if sz > 0 then fb_out ob @ [CHR 0x00] else fb_out ob))
       (format_loop format args \<lparr>fb_out = [], fb_remaining = sz\<rparr> 0)"

section \<open>The rendering of a format\<close>

text \<open>Numbers most significant digit first, conversions, and formats, with no buffer.\<close>

fun nat_text :: "bool \<Rightarrow> nat \<Rightarrow> nat \<Rightarrow> string" where
  "nat_text uppercase base n =
     (if n < base \<or> base < 2 then [digit_char uppercase n]
      else nat_text uppercase base (n div base) @ [digit_char uppercase (n mod base)])"

declare nat_text.simps [simp del]

definition int_text :: "int \<Rightarrow> string" where
  "int_text k = (if k < 0 then CHR ''-'' # nat_text False 10 (nat (- k)) else nat_text False 10 (nat k))"

definition conv_text :: "char \<Rightarrow> va_slot list \<Rightarrow> (string \<times> va_slot list) option" where
  "conv_text f args =
     (if f = CHR ''%'' then Some (''%'', args)
      else if f \<in> set ''csdiuxXp'' then
        (case args of
           [] \<Rightarrow> None
         | Str s # args \<Rightarrow>
             if f = CHR ''s'' then Some (case s of None \<Rightarrow> ''(null)'' | Some s \<Rightarrow> s, args) else None
         | Slot v # args \<Rightarrow>
             if f = CHR ''s'' then None
             else if f = CHR ''c'' then Some ([char_of (unat v)], args)
             else if f = CHR ''d'' \<or> f = CHR ''i'' then Some (int_text (sint (ucast v :: u32)), args)
             else if f = CHR ''p'' then Some (''0x'' @ nat_text False 16 (unat v), args)
             else Some (nat_text (f = CHR ''X'') (if f = CHR ''u'' then 10 else 16) (unat (ucast v :: u32)), args))
      else Some (''%'' @ [f], args))"

definition long_text :: "char \<Rightarrow> va_slot list \<Rightarrow> (string \<times> va_slot list) option" where
  "long_text f args =
     (if f \<in> set ''diuxX'' then
        (case args of
           Slot v # args \<Rightarrow>
             if f = CHR ''d'' \<or> f = CHR ''i'' then Some (int_text (sint v), args)
             else Some (nat_text (f = CHR ''X'') (if f = CHR ''u'' then 10 else 16) (unat v), args)
         | _ \<Rightarrow> None)
      else Some (''%l'' @ [f], args))"

fun render :: "string \<Rightarrow> va_slot list \<Rightarrow> string option" where
  "render [] args = Some []"
| "render [c] args = Some (if c = CHR ''%'' then [] else [c])"
| "render (c # f # cs) args =
     (if c \<noteq> CHR ''%'' then map_option ((#) c) (render (f # cs) args)
      else if f \<noteq> CHR ''l'' then
        Option.bind (conv_text f args) (\<lambda>(t, args). map_option ((@) t) (render cs args))
      else case cs of
             [] \<Rightarrow> Some ''%l''
           | g # cs \<Rightarrow> Option.bind (long_text g args) (\<lambda>(t, args). map_option ((@) t) (render cs args)))"

text \<open>What any sequence of \<open>emit_char\<close> calls does to the buffer.\<close>

definition put :: "fmt_buf \<Rightarrow> string \<Rightarrow> fmt_buf" where
  "put ob cs = \<lparr>fb_out = fb_out ob @ take (fb_remaining ob - 1) cs,
     fb_remaining = fb_remaining ob - min (fb_remaining ob - 1) (length cs)\<rparr>"

lemma put_Nil [simp]: "put ob [] = ob"
  by (simp add: put_def)

lemma emit_char_put: "emit_char ob c = put ob [c]"
  by (cases "fb_remaining ob") (auto simp: emit_char_def put_def)

lemma put_put [simp]: "put (put ob xs) ys = put ob (xs @ ys)"
  by (cases "fb_remaining ob") (auto simp: put_def min_def)

lemma fold_emit: "fold (\<lambda>c ob. emit_char ob c) cs ob = put ob cs"
  by (induction cs arbitrary: ob) (simp_all add: emit_char_put)

lemma emit_string_put: "emit_string ob cs = (put ob cs, length cs)"
  by (induction cs arbitrary: ob) (simp_all add: emit_char_put)

lemma digits_rev_text: "0 < n \<Longrightarrow> 2 \<le> base \<Longrightarrow> rev (digits_rev u base n) = nat_text u base n"
proof (induction u base n rule: nat_text.induct)
  case (1 u base n)
  show ?case
  proof (cases "n < base")
    case True
    with "1.prems" show ?thesis
      by (simp add: digits_rev.simps [of u base n] digits_rev.simps [of u base 0] nat_text.simps [of u base n])
  next
    case False
    then have "0 < n div base"
      using "1.prems" by (simp add: div_greater_zero_iff)
    with False "1.prems" "1.IH" show ?thesis
      by (simp add: digits_rev.simps [of u base n] nat_text.simps [of u base n])
  qed
qed

lemma emit_uint_put:
  assumes "2 \<le> base"
  shows "emit_uint ob v base u = (put ob (nat_text u base (unat v)), length (nat_text u base (unat v)))"
proof (cases "v = 0")
  case True
  with assms show ?thesis
    by (simp add: emit_uint_def emit_char_put nat_text.simps [of u base 0] digit_char_def)
next
  case False
  then have "rev (digits_rev u base (unat v)) = nat_text u base (unat v)"
    using assms by (intro digits_rev_text) (simp_all add: unat_gt_0)
  moreover have "length (digits_rev u base (unat v)) = length (rev (digits_rev u base (unat v)))"
    by simp
  ultimately show ?thesis
    using False by (simp only: emit_uint_def Let_def fold_emit if_False)
qed

lemma uint_of_sint:
  fixes v :: u64
  shows "0 \<le> sint v \<Longrightarrow> unat v = nat (sint v)" and "sint v < 0 \<Longrightarrow> unat (- v) = nat (- sint v)"
proof -
  have b: "- (2 ^ 63) \<le> sint v" "sint v < 2 ^ 63"
    using sint_greater_eq [of v] sint_less [of v] by simp_all
  have e: "uint (of_int k :: u64) = k" if "0 \<le> k" "k < 2 ^ 64" for k
    using that by (simp add: unsigned_of_int take_bit_int_eq_self)
  show "unat v = nat (sint v)" if "0 \<le> sint v"
    using e [of "sint v"] that b(2) by (simp flip: nat_uint_eq)
  show "unat (- v) = nat (- sint v)" if "sint v < 0"
    using e [of "- sint v"] that b(1) by (simp flip: nat_uint_eq)
qed

lemma emit_int_put: "emit_int ob v = (put ob (int_text (sint v)), length (int_text (sint v)))"
  by (cases "sint v < 0")
     (simp_all add: emit_int_def int_text_def emit_char_put emit_uint_put uint_of_sint)

lemma emit_conv_put:
  assumes "f \<noteq> CHR ''l''"
  shows "emit_conv f args ob =
    map_option (\<lambda>(t, args). (put ob t, length t, args)) (conv_text f args)"
proof -
  have "sint (scast (ucast v :: u32) :: u64) = sint (ucast v :: u32)" for v :: u64
    by (simp add: sint_up_scast is_up)
  moreover have "unat (ucast (ucast v :: u32) :: u64) = unat (ucast v :: u32)" for v :: u64
    by (simp add: unsigned_ucast_eq unsigned_take_bit_eq)
  ultimately show ?thesis
    by (auto simp: conv_text_def emit_string_put emit_int_put emit_uint_put emit_char_put split: list.splits va_slot.splits)
qed

lemma emit_long_put:
  "emit_long f args ob = map_option (\<lambda>(t, args). (put ob t, length t, args)) (long_text f args)"
  by (auto simp: long_text_def emit_int_put emit_uint_put emit_char_put split: list.splits va_slot.splits)

declare emit_conv.simps [simp del] emit_long.simps [simp del]

lemma format_loop_put:
  "format_loop cs args ob w = map_option (\<lambda>t. (put ob t, w + length t)) (render cs args)"
proof (induction cs args arbitrary: ob w rule: render.induct)
  case (3 c f cs args)
  consider "c \<noteq> CHR ''%''" | "c = CHR ''%''" "f \<noteq> CHR ''l''" | "c = CHR ''%''" "f = CHR ''l''"
    by blast
  then show ?case
  proof cases
    case 1
    with "3.IH"(1) show ?thesis
      by (simp add: emit_char_put option.map_comp comp_def)
  next
    case 2
    with "3.IH"(2) show ?thesis
      by (auto simp: emit_conv_put option.map_comp comp_def add.assoc split: option.splits prod.splits)
  next
    case 3
    with "3.IH"(3) show ?thesis
      by (cases cs)
         (auto simp: emit_char_put emit_long_put option.map_comp comp_def add.assoc split: option.splits prod.splits)
  qed
qed (simp_all add: emit_char_put)

section \<open>Properties\<close>

lemma vsnprintf_spec:
  "vsnprintf sz format args =
     map_option (\<lambda>t. (sint (word_of_nat (length t) :: u32), if sz > 0 then take (sz - 1) t @ [CHR 0x00] else []))
       (render format args)"
  by (auto simp: vsnprintf_def format_loop_put put_def option.map_comp comp_def intro!: option.map_cong)

text \<open>C13: the formatter agrees with the plain rendering of its format. The buffer receives the
  text cut to \<open>size - 1\<close> characters and a terminator, nothing if \<open>size\<close> is 0, and the result is
  the length of the whole text as a C \<open>int\<close>.\<close>

theorem vsnprintf_renders:
  "vsnprintf sz format args =
     map_option (\<lambda>t. (sint (word_of_nat (length t) :: u32), if sz > 0 then take (sz - 1) t @ [CHR 0x00] else []))
       (render format args)"
  by (rule vsnprintf_spec)

lemma digits_rev_bound: "4 \<le> base \<Longrightarrow> n < 4 ^ k \<Longrightarrow> length (digits_rev u base n) \<le> k"
proof (induction k arbitrary: n)
  case (Suc k)
  have "n div base < 4 ^ k" if "n \<noteq> 0"
  proof -
    have "n div base \<le> n div 4"
      using Suc.prems(1) by (rule div_le_mono2 [rotated]) simp
    also have "n div 4 < 4 ^ k"
      using Suc.prems(2) by (simp add: div_less_iff_less_mult)
    finally show ?thesis .
  qed
  with Suc.IH Suc.prems(1) show ?case
    by (simp add: digits_rev.simps [of u base n])
qed (simp add: digits_rev.simps)

text \<open>The digits of any 64-bit number in base 10 or 16 fit into the 32 bytes of
  \<open>tmp\<close>.\<close>

lemma emit_uint_tmp_bound:
  assumes "base = 10 \<or> base = 16"
  shows "length (digits_rev uppercase base (unat (val :: u64))) \<le> 32"
  using assms unat_less_64 [of val] by (intro digits_rev_bound) auto

lemma emit_uint_tmp_bound_witness:
  "length (digits_rev False 10 (unat (0xFFFFFFFFFFFFFFFF :: u64))) \<le> 32"
  by (rule emit_uint_tmp_bound) simp

text \<open>\<open>strlen\<close> returns, with the length of the string.\<close>

lemma strlen_returns:
  assumes "cstring m s cs"
  shows "strlen m s = Some (of_nat (length cs))"
  using strlen_from_cstring [of m s 0 cs] assms by (simp add: strlen_def)

definition mem_example :: mem where
  "mem_example = (\<lambda>_. 0)(0x100 := 0x68, 0x101 := 0x69, 0x200 := 0x68, 0x201 := 0x6A)"

lemma strlen_returns_witness: "strlen mem_example 0x100 = Some 2"
  using strlen_returns [of mem_example "0x100" "[0x68, 0x69]"] by (simp add: mem_example_def)

text \<open>\<open>strcmp\<close> of two strings returns, and returns 0 exactly when they are equal.\<close>

lemma strcmp_decides:
  assumes "cstring m a xs" and "cstring m b ys"
  shows "\<exists>r. strcmp m a b = Some r \<and> (r = 0 \<longleftrightarrow> xs = ys)"
  using assms by (rule strcmp_cstring)

lemma strcmp_decides_witness: "\<exists>r. strcmp mem_example 0x100 0x200 = Some r \<and> r \<noteq> 0"
  using strcmp_decides [of mem_example "0x100" "[0x68, 0x69]" "0x200" "[0x68, 0x6A]"]
  by (simp add: mem_example_def)

text \<open>\<open>memcpy\<close> between ranges that do not overlap copies every byte and changes nothing
  outside the destination.\<close>

lemma memcpy_copies:
  assumes "range_of dest (unat n) \<inter> range_of src (unat n) = {}"
  shows "memcpy m dest src n = (dest, \<lambda>a. if a \<in> range_of dest (unat n) then m (a - dest + src) else m a)"
  using memcpy_from_eq [OF _ assms] unat_less_64 [of n] by (auto simp: memcpy_def)

lemma memcpy_copies_witness:
  "snd (memcpy mem_example 0x300 0x100 2) 0x301 = 0x69 \<and> snd (memcpy mem_example 0x300 0x100 2) 0x200 = 0x68"
proof -
  have r: "range_of a 2 = {a, a + 1}" for a
    using range_of_Suc [of a 1] range_of_Suc [of "a + 1" 0] by (simp add: numeral_2_eq_2)
  have "range_of 0x300 (unat (2 :: u64)) = {0x300, 0x301}" "range_of 0x100 (unat (2 :: u64)) = {0x100, 0x101}"
    by (simp_all add: r)
  then show ?thesis
    using memcpy_copies [of "0x300" 2 "0x100" mem_example] by (simp add: mem_example_def)
qed

end
