(* ===== verification/Spinlock.thy ===== *)
theory Spinlock
  imports EK_Prelude
begin

text \<open>
  Atomic operations (\<^verbatim>\<open>src/include/atomic.h\<close>), nested interrupt control
  (\<^verbatim>\<open>src/arch/x86_64/idt.h\<close>) and spin locks (\<^verbatim>\<open>src/arch/x86_64/spinlock_arch.h\<close>,
  \<^verbatim>\<open>src/include/spinlock.h\<close>). An atomic operation is one step on the value of its object; memory
  orders and barriers are not modelled. The lock protocol is a step relation in which the
  processors interleave at every atomic operation.
\<close>

section \<open>Atomic operations\<close>

text \<open>Each returns its result and the new value of the object.\<close>

definition atomic_load :: "u32 \<Rightarrow> u32" where
  "atomic_load v = v"

definition atomic_store :: "u32 \<Rightarrow> u32 \<Rightarrow> u32" where
  "atomic_store v desired = desired"

definition atomic_exchange :: "u32 \<Rightarrow> u32 \<Rightarrow> u32 \<times> u32" where
  "atomic_exchange v desired = (v, desired)"

text \<open>The result, the new value of \<open>expected\<close> and that of the object. The weak form may also
  fail when the values agree, which \<open>spurious\<close> decides.\<close>

definition atomic_compare_exchange_strong :: "u32 \<Rightarrow> u32 \<Rightarrow> u32 \<Rightarrow> bool \<times> u32 \<times> u32" where
  "atomic_compare_exchange_strong v expected desired =
     (if v = expected then (True, expected, desired) else (False, v, v))"

definition atomic_compare_exchange_weak :: "bool \<Rightarrow> u32 \<Rightarrow> u32 \<Rightarrow> u32 \<Rightarrow> bool \<times> u32 \<times> u32" where
  "atomic_compare_exchange_weak spurious v expected desired =
     (if v = expected \<and> \<not> spurious then (True, expected, desired) else (False, v, v))"

definition atomic_fetch_add :: "u32 \<Rightarrow> u32 \<Rightarrow> u32 \<times> u32" where
  "atomic_fetch_add v arg = (v, v + arg)"

definition atomic_fetch_sub :: "u32 \<Rightarrow> u32 \<Rightarrow> u32 \<times> u32" where
  "atomic_fetch_sub v arg = (v, v - arg)"

definition atomic_fetch_and :: "u32 \<Rightarrow> u32 \<Rightarrow> u32 \<times> u32" where
  "atomic_fetch_and v arg = (v, v AND arg)"

definition atomic_fetch_or :: "u32 \<Rightarrow> u32 \<Rightarrow> u32 \<times> u32" where
  "atomic_fetch_or v arg = (v, v OR arg)"

definition atomic_fetch_xor :: "u32 \<Rightarrow> u32 \<Rightarrow> u32 \<times> u32" where
  "atomic_fetch_xor v arg = (v, v XOR arg)"

definition atomic_add_fetch :: "u32 \<Rightarrow> u32 \<Rightarrow> u32 \<times> u32" where
  "atomic_add_fetch v arg = (v + arg, v + arg)"

definition atomic_sub_fetch :: "u32 \<Rightarrow> u32 \<Rightarrow> u32 \<times> u32" where
  "atomic_sub_fetch v arg = (v - arg, v - arg)"

definition atomic_flag_test_and_set :: "bool \<Rightarrow> bool \<times> bool" where
  "atomic_flag_test_and_set v = (v, True)"

definition atomic_flag_clear :: "bool \<Rightarrow> bool" where
  "atomic_flag_clear v = False"

section \<open>Interrupt control\<close>

text \<open>The interrupt flag of a processor and its nesting depth; the pointer to the depth may be
  null (\<open>None\<close>).\<close>

record irq_state =
  irq_if :: bool
  irq_depth :: "int option"

definition enable_interrupts :: "irq_state \<Rightarrow> irq_state" where
  "enable_interrupts s = s\<lparr>irq_if := True\<rparr>"

definition disable_interrupts :: "irq_state \<Rightarrow> irq_state" where
  "disable_interrupts s = s\<lparr>irq_if := False\<rparr>"

definition irq_disable :: "irq_state \<Rightarrow> irq_state" where
  "irq_disable s =
     (case irq_depth s of
        Some d \<Rightarrow> (let s = s\<lparr>irq_depth := Some (d + 1)\<rparr> in if d + 1 = 1 then s\<lparr>irq_if := False\<rparr> else s)
      | None \<Rightarrow> s\<lparr>irq_if := False\<rparr>)"

definition irq_enable :: "irq_state \<Rightarrow> irq_state" where
  "irq_enable s =
     (case irq_depth s of
        Some d \<Rightarrow> (let s = s\<lparr>irq_depth := Some (d - 1)\<rparr> in if d - 1 = 0 then s\<lparr>irq_if := True\<rparr> else s)
      | None \<Rightarrow> s\<lparr>irq_if := True\<rparr>)"

text \<open>Of the saved flags only bit 9, the interrupt flag, is read again.\<close>

definition irq_save :: "irq_state \<Rightarrow> bool \<Rightarrow> bool \<times> irq_state" where
  "irq_save s disable = (irq_if s, if disable then irq_disable s else s)"

definition irq_restore :: "irq_state \<Rightarrow> bool \<Rightarrow> irq_state" where
  "irq_restore s flags =
     (let s = (case irq_depth s of Some d \<Rightarrow> if d > 0 then s\<lparr>irq_depth := Some (d - 1)\<rparr> else s | None \<Rightarrow> s)
      in if flags \<and> (irq_depth s = None \<or> irq_depth s = Some 0) then s\<lparr>irq_if := True\<rparr> else s)"

section \<open>Locks as one processor sees them\<close>

text \<open>
  The lock operations with no other processor at work; a wait that nobody ends is \<open>None\<close>. The
  weak exchange of \<open>arch_spin_lock\<close> may fail spuriously, which repeats the loop with the same
  word; the loop is written here for the exchange that does not, and \<open>spin_step\<close> below has both.
\<close>

partial_function (option) spin_while_locked :: "u32 \<Rightarrow> u32 option" where
  "spin_while_locked lock = (if atomic_load lock \<noteq> 0 then spin_while_locked lock else Some lock)"

partial_function (option) arch_spin_lock :: "u32 \<Rightarrow> u32 option" where
  "arch_spin_lock lock =
     (case atomic_compare_exchange_strong lock 0 1 of
        (ok, _, lock) \<Rightarrow> if ok then Some lock else Option.bind (spin_while_locked lock) arch_spin_lock)"

definition arch_spin_lock_init :: "u32 \<Rightarrow> u32" where
  "arch_spin_lock_init lock = 0"

definition arch_spin_unlock :: "u32 \<Rightarrow> u32" where
  "arch_spin_unlock lock = atomic_store lock 0"

definition arch_spin_trylock :: "u32 \<Rightarrow> bool \<times> u32" where
  "arch_spin_trylock lock =
     (case atomic_compare_exchange_strong lock 0 1 of (r, _, lock) \<Rightarrow> (r, lock))"

definition arch_spin_lock_irqsave :: "u32 \<Rightarrow> irq_state \<Rightarrow> (bool \<times> u32 \<times> irq_state) option" where
  "arch_spin_lock_irqsave lock s =
     (case irq_save s True of (flags, s) \<Rightarrow> map_option (\<lambda>lock. (flags, lock, s)) (arch_spin_lock lock))"

definition arch_spin_unlock_irqrestore :: "u32 \<Rightarrow> irq_state \<Rightarrow> bool \<Rightarrow> u32 \<times> irq_state" where
  "arch_spin_unlock_irqrestore lock s flags = (arch_spin_unlock lock, irq_restore s flags)"

definition arch_spin_lock_irq :: "u32 \<Rightarrow> irq_state \<Rightarrow> (u32 \<times> irq_state) option" where
  "arch_spin_lock_irq lock s =
     (let s = disable_interrupts s in map_option (\<lambda>lock. (lock, s)) (arch_spin_lock lock))"

definition arch_spin_unlock_irq :: "u32 \<Rightarrow> irq_state \<Rightarrow> u32 \<times> irq_state" where
  "arch_spin_unlock_irq lock s = (arch_spin_unlock lock, enable_interrupts s)"

definition arch_spin_lock_irqsave_disabled :: "u32 \<Rightarrow> u32 option" where
  "arch_spin_lock_irqsave_disabled lock = arch_spin_lock lock"

definition arch_spin_unlock_irqrestore_disabled :: "u32 \<Rightarrow> u32" where
  "arch_spin_unlock_irqrestore_disabled lock = atomic_store lock 0"

text \<open>Read-write locks. The bodies of the two waiting loops are \<open>return\<close>, so both functions return
  after one addition whatever the old value was.\<close>

definition arch_rwlock_init :: "u32 \<Rightarrow> u32" where
  "arch_rwlock_init counter = 0"

definition arch_spin_read_lock :: "u32 \<Rightarrow> u32" where
  "arch_spin_read_lock counter =
     (let (old, counter) = atomic_fetch_add counter 1 in counter)"

definition arch_spin_read_unlock :: "u32 \<Rightarrow> u32" where
  "arch_spin_read_unlock counter = snd (atomic_fetch_sub counter 1)"

definition arch_spin_write_lock :: "u32 \<Rightarrow> u32" where
  "arch_spin_write_lock counter =
     (let (old, counter) = atomic_fetch_add counter (-1) in counter)"

definition arch_spin_write_unlock :: "u32 \<Rightarrow> u32" where
  "arch_spin_write_unlock counter = atomic_store counter 0"

text \<open>The public names of \<^verbatim>\<open>src/include/spinlock.h\<close>.\<close>

definition spin_lock_init :: "u32 \<Rightarrow> u32" where "spin_lock_init lock = arch_spin_lock_init lock"
definition spin_lock :: "u32 \<Rightarrow> u32 option" where "spin_lock lock = arch_spin_lock lock"
definition spin_unlock :: "u32 \<Rightarrow> u32" where "spin_unlock lock = arch_spin_unlock lock"
definition spin_trylock :: "u32 \<Rightarrow> bool \<times> u32" where "spin_trylock lock = arch_spin_trylock lock"
definition spin_lock_irqsave :: "u32 \<Rightarrow> irq_state \<Rightarrow> (bool \<times> u32 \<times> irq_state) option" where
  "spin_lock_irqsave lock s = arch_spin_lock_irqsave lock s"
definition spin_unlock_irqrestore :: "u32 \<Rightarrow> irq_state \<Rightarrow> bool \<Rightarrow> u32 \<times> irq_state" where
  "spin_unlock_irqrestore lock s flags = arch_spin_unlock_irqrestore lock s flags"
definition spin_lock_irq :: "u32 \<Rightarrow> irq_state \<Rightarrow> (u32 \<times> irq_state) option" where
  "spin_lock_irq lock s = arch_spin_lock_irq lock s"
definition spin_unlock_irq :: "u32 \<Rightarrow> irq_state \<Rightarrow> u32 \<times> irq_state" where
  "spin_unlock_irq lock s = arch_spin_unlock_irq lock s"
definition rwlock_init :: "u32 \<Rightarrow> u32" where "rwlock_init counter = arch_rwlock_init counter"
definition spin_read_lock :: "u32 \<Rightarrow> u32" where "spin_read_lock counter = arch_spin_read_lock counter"
definition spin_read_unlock :: "u32 \<Rightarrow> u32" where "spin_read_unlock counter = arch_spin_read_unlock counter"
definition spin_write_lock :: "u32 \<Rightarrow> u32" where "spin_write_lock counter = arch_spin_write_lock counter"
definition spin_write_unlock :: "u32 \<Rightarrow> u32" where "spin_write_unlock counter = arch_spin_write_unlock counter"

section \<open>The protocol between processors\<close>

text \<open>Where a processor is in its use of one lock: outside, about to compare and exchange, in
  the inner loop of \<open>arch_spin_lock\<close>, or inside the critical section.\<close>

datatype spin_pc = Outside | Trying | Spinning | Inside

record 'cpu lock_sys =
  lock_word :: u32
  lock_pc :: "'cpu \<Rightarrow> spin_pc"

definition lock_sys_init :: "'cpu lock_sys" where
  "lock_sys_init = \<lparr>lock_word = arch_spin_lock_init 0, lock_pc = (\<lambda>_. Outside)\<rparr>"

inductive spin_step :: "'cpu lock_sys \<Rightarrow> 'cpu lock_sys \<Rightarrow> bool" where
  call: "lock_pc s c = Outside \<Longrightarrow> spin_step s (s\<lparr>lock_pc := (lock_pc s)(c := Trying)\<rparr>)"
| exchange: "lock_pc s c = Trying \<Longrightarrow> atomic_compare_exchange_weak sp (lock_word s) 0 1 = (ok, e, w) \<Longrightarrow>
    spin_step s (s\<lparr>lock_word := w, lock_pc := (lock_pc s)(c := if ok then Inside else Spinning)\<rparr>)"
| load: "lock_pc s c = Spinning \<Longrightarrow>
    spin_step s (s\<lparr>lock_pc := (lock_pc s)(c := if atomic_load (lock_word s) \<noteq> 0 then Spinning else Trying)\<rparr>)"
| trylock: "lock_pc s c = Outside \<Longrightarrow> arch_spin_trylock (lock_word s) = (ok, w) \<Longrightarrow>
    spin_step s (s\<lparr>lock_word := w, lock_pc := (lock_pc s)(c := if ok then Inside else Outside)\<rparr>)"
| unlock: "lock_pc s c = Inside \<Longrightarrow>
    spin_step s (s\<lparr>lock_word := arch_spin_unlock (lock_word s), lock_pc := (lock_pc s)(c := Outside)\<rparr>)"

definition spin_reach :: "'cpu lock_sys \<Rightarrow> bool" where
  "spin_reach s \<longleftrightarrow> spin_step\<^sup>*\<^sup>* lock_sys_init s"

text \<open>The invariant: the word is 0 and nobody is inside, or it is 1 and one processor is.\<close>

definition lock_inv :: "'cpu lock_sys \<Rightarrow> bool" where
  "lock_inv s \<longleftrightarrow> (lock_word s = 0 \<and> (\<forall>c. lock_pc s c \<noteq> Inside)) \<or>
     (lock_word s = 1 \<and> (\<exists>h. \<forall>c. lock_pc s c = Inside \<longleftrightarrow> c = h))"

lemma lock_inv_outside:
  assumes "lock_inv s" "lock_pc s c \<noteq> Inside" "x \<noteq> Inside"
  shows "lock_inv (s\<lparr>lock_pc := (lock_pc s)(c := x)\<rparr>)"
  using assms(1)
proof (unfold lock_inv_def, elim disjE conjE exE)
  fix h assume w: "lock_word s = 1" and h: "\<forall>c. lock_pc s c = Inside \<longleftrightarrow> c = h"
  then have "h \<noteq> c"
    using assms(2) by blast
  with w h assms(3) show "(lock_word (s\<lparr>lock_pc := (lock_pc s)(c := x)\<rparr>) = 0 \<and>
      (\<forall>d. lock_pc (s\<lparr>lock_pc := (lock_pc s)(c := x)\<rparr>) d \<noteq> Inside)) \<or>
    (lock_word (s\<lparr>lock_pc := (lock_pc s)(c := x)\<rparr>) = 1 \<and>
      (\<exists>h. \<forall>d. lock_pc (s\<lparr>lock_pc := (lock_pc s)(c := x)\<rparr>) d = Inside \<longleftrightarrow> d = h))"
    by (intro disjI2 conjI exI [of _ h]) auto
qed (use assms(3) in auto)

lemma lock_inv_enter:
  "lock_inv s \<Longrightarrow> lock_word s = 0 \<Longrightarrow> lock_inv (s\<lparr>lock_word := 1, lock_pc := (lock_pc s)(c := Inside)\<rparr>)"
  by (auto simp: lock_inv_def)

lemma lock_inv_step: "spin_step s t \<Longrightarrow> lock_inv s \<Longrightarrow> lock_inv t"
proof (induction rule: spin_step.induct)
  case (call s c)
  then show ?case by (simp add: lock_inv_outside)
next
  case (exchange s c sp ok e w)
  then show ?case
    using lock_inv_enter [of s c] lock_inv_outside [of s c Spinning]
    by (auto simp: atomic_compare_exchange_weak_def split: if_splits)
next
  case (load s c)
  then show ?case by (simp add: lock_inv_outside)
next
  case (trylock s c ok w)
  then show ?case
    using lock_inv_enter [of s c] lock_inv_outside [of s c Outside]
    by (auto simp: arch_spin_trylock_def atomic_compare_exchange_strong_def split: if_splits)
next
  case (unlock s c)
  then show ?case
    by (auto simp: lock_inv_def arch_spin_unlock_def atomic_store_def)
qed

lemma lock_inv_reach:
  assumes "spin_reach s"
  shows "lock_inv s"
proof -
  have "spin_step\<^sup>*\<^sup>* lock_sys_init s"
    using assms by (simp add: spin_reach_def)
  then show ?thesis
  proof induction
    case base
    then show ?case by (simp add: lock_inv_def lock_sys_init_def arch_spin_lock_init_def)
  qed (rule lock_inv_step)
qed

section \<open>Properties\<close>

text \<open>C14: mutual exclusion. In every interleaving of \<open>spin_lock\<close>, \<open>spin_trylock\<close> and
  \<open>spin_unlock\<close> calls, spurious failures of the weak exchange included, two processors inside
  the critical section are the same.\<close>

theorem spin_mutual_exclusion:
  assumes "spin_reach s" and "lock_pc s c = Inside" and "lock_pc s d = Inside"
  shows "c = d"
  using lock_inv_reach [OF assms(1)] assms(2,3) by (auto simp: lock_inv_def)

lemma spin_enter:
  assumes "lock_pc s c = Trying" "lock_word s = 0"
  shows "spin_step s (s\<lparr>lock_word := 1, lock_pc := (lock_pc s)(c := Inside)\<rparr>)"
  using spin_step.exchange [of s c False True 0 1] assms by (simp add: atomic_compare_exchange_weak_def)

lemma spin_reach_step: "spin_reach s \<Longrightarrow> spin_step s t \<Longrightarrow> spin_reach t"
  by (simp add: spin_reach_def rtranclp.rtrancl_into_rtrancl)

lemma spin_reach_init: "spin_reach lock_sys_init"
  by (simp add: spin_reach_def)

definition lock_sys_example :: "nat lock_sys" where
  "lock_sys_example = \<lparr>lock_word = 1, lock_pc = (\<lambda>_. Outside)(0 := Inside)\<rparr>"

lemma lock_sys_example_reach: "spin_reach lock_sys_example"
proof -
  have "spin_step (lock_sys_init :: nat lock_sys)
      (lock_sys_init\<lparr>lock_word := 1, lock_pc := (lock_pc lock_sys_init)(0 := if True then Inside else Outside)\<rparr>)"
    by (rule spin_step.trylock)
       (simp_all add: lock_sys_init_def arch_spin_lock_init_def arch_spin_trylock_def atomic_compare_exchange_strong_def)
  then have "spin_step lock_sys_init lock_sys_example"
    by (simp add: lock_sys_init_def lock_sys_example_def)
  then show ?thesis
    by (rule spin_reach_step [OF spin_reach_init])
qed

theorem spin_mutual_exclusion_witness:
  "spin_reach lock_sys_example \<and> {d. lock_pc lock_sys_example d = Inside} = {0}"
proof -
  have "lock_pc lock_sys_example 0 = Inside"
    by (simp add: lock_sys_example_def)
  then show ?thesis
    using lock_sys_example_reach spin_mutual_exclusion [OF lock_sys_example_reach, of 0] by blast
qed



lemma arch_spin_lock_free: "arch_spin_lock 0 = Some 1"
  by (simp add: arch_spin_lock.simps atomic_compare_exchange_strong_def)

text \<open>\<open>spin_lock_irqsave\<close> and \<open>spin_unlock_irqrestore\<close> bracket a critical section: on a free
  lock, with interrupts off whenever disables are nested, the lock is taken with interrupts
  off, and the restore brings lock, interrupt flag and nesting depth back.\<close>

lemma irqsave_roundtrip:
  assumes "irq_depth s = Some d" and "0 \<le> d" and "irq_if s \<longrightarrow> d = 0"
  shows "\<exists>s'. arch_spin_lock_irqsave 0 s = Some (irq_if s, 1, s') \<and> \<not> irq_if s' \<and>
    arch_spin_unlock_irqrestore 1 s' (irq_if s) = (0, s)"
proof -
  define s' where "s' = s\<lparr>irq_depth := Some (d + 1), irq_if := False\<rparr>"
  have "irq_disable s = s'"
    using assms by (cases s) (auto simp: irq_disable_def s'_def Let_def)
  then have "arch_spin_lock_irqsave 0 s = Some (irq_if s, 1, s')"
    by (simp add: arch_spin_lock_irqsave_def irq_save_def arch_spin_lock_free)
  moreover have "irq_restore s' (irq_if s) = s"
    using assms by (cases s) (auto simp: irq_restore_def s'_def Let_def)
  ultimately show ?thesis
    by (auto simp: s'_def arch_spin_unlock_irqrestore_def arch_spin_unlock_def atomic_store_def)
qed

lemma irqsave_roundtrip_witness:
  "\<exists>s'. arch_spin_lock_irqsave 0 \<lparr>irq_if = True, irq_depth = Some 0\<rparr> = Some (True, 1, s') \<and>
     arch_spin_unlock_irqrestore 1 s' True = (0, \<lparr>irq_if = True, irq_depth = Some 0\<rparr>)"
  using irqsave_roundtrip [of "\<lparr>irq_if = True, irq_depth = Some 0\<rparr>" 0] by auto

text \<open>Users of a read-write lock: outside, reading, or writing.\<close>

datatype rw_pc = RwOut | Reading | Writing

inductive rw_step :: "u32 \<times> ('cpu \<Rightarrow> rw_pc) \<Rightarrow> u32 \<times> ('cpu \<Rightarrow> rw_pc) \<Rightarrow> bool" where
  read_lock: "pc c = RwOut \<Longrightarrow> rw_step (w, pc) (arch_spin_read_lock w, pc(c := Reading))"
| read_unlock: "pc c = Reading \<Longrightarrow> rw_step (w, pc) (arch_spin_read_unlock w, pc(c := RwOut))"
| write_lock: "pc c = RwOut \<Longrightarrow> rw_step (w, pc) (arch_spin_write_lock w, pc(c := Writing))"
| write_unlock: "pc c = Writing \<Longrightarrow> rw_step (w, pc) (arch_spin_write_unlock w, pc(c := RwOut))"


end
