(* ===== verification/Slab.thy ===== *)
theory Slab
  imports Monitor_Props
begin

text \<open>
  The slab allocator, \<^verbatim>\<open>src/kernel/slab.c\<close>, on pages from the monitor. The list cells are the
  three heads of a cache, the link at the start of a slab, the head of its free list (40 bytes
  into the page) and the link in a free object. A cache is a number (0 to 7 are the static
  caches of the file, others belong to other components), and \<open>None\<close> the null pointer.
  Operations that hold a cache's lock are one step; \<open>None\<close> as a result would be a call that does
  not return.
\<close>

section \<open>State and operations\<close>

datatype slab_node = CFull nat | CPartial nat | CFree nat | SlabNode u64 | FreeList u64 | Obj u64

record slab_cache =
  object_size :: u64
  objects_per_slab :: u64
  total_objects :: u64
  free_objects :: u64

text \<open>The fields of a slab are memory at the start of its page, so they are maps from pages.\<close>

record slab_state =
  slab_mon :: mon_state
  slab_links :: "slab_node list_store"
  slab_cache_ptr :: "u64 \<Rightarrow> nat option"
  slab_base_addr :: "u64 \<Rightarrow> u64"
  slab_inuse :: "u64 \<Rightarrow> u64"
  caches :: "nat \<Rightarrow> slab_cache"

abbreviation SLAB_NR_CACHES :: nat where "SLAB_NR_CACHES \<equiv> 8"
abbreviation SIZEOF_SLAB :: u64 where "SIZEOF_SLAB \<equiv> 56"

definition cache_sizes :: "u64 list" where
  "cache_sizes = [32, 64, 128, 256, 512, 1024, 2048, 4096]"

definition size_to_cache_index :: "u64 \<Rightarrow> int" where
  "size_to_cache_index sz =
     (if sz \<le> 32 then 0 else if sz \<le> 64 then 1 else if sz \<le> 128 then 2 else if sz \<le> 256 then 3
      else if sz \<le> 512 then 4 else if sz \<le> 1024 then 5 else if sz \<le> 2048 then 6 else if sz \<le> 4096 then 7
      else -1)"

definition set_slab_links :: "slab_state \<Rightarrow> slab_node list_store \<Rightarrow> slab_state" where
  "set_slab_links s h = s\<lparr>slab_links := h\<rparr>"

text \<open>The address of a cell in a page, and the cell at an address. The heads of the caches are in
  no page, and never on a list themselves.\<close>

fun node_addr :: "slab_node \<Rightarrow> u64" where
  "node_addr (SlabNode p) = p"
| "node_addr (FreeList p) = p + 40"
| "node_addr (Obj a) = a"
| "node_addr _ = 0"

definition node_at :: "u64 \<Rightarrow> slab_node" where
  "node_at a =
     (if a AND 0xFFF = 0 then SlabNode a
      else if a AND 0xFFF = 40 then FreeList (a - 40) else Obj a)"

definition slab_new :: "slab_state \<Rightarrow> nat \<Rightarrow> (u64 \<times> slab_state) option" where
  "slab_new s c =
     Option.bind (monitor_pmm_alloc (slab_mon s) 0) (\<lambda>(page_addr, m).
       let s = s\<lparr>slab_mon := m\<rparr>
       in if page_addr = 0 then Some (0, s)
          else let slab = page_addr;
                   s = s\<lparr>slab_cache_ptr := (slab_cache_ptr s)(slab := Some c),
                         slab_base_addr := (slab_base_addr s)(slab := page_addr),
                         slab_inuse := (slab_inuse s)(slab := 0)\<rparr>;
                   h = list_init (slab_links s) (FreeList slab);
                   n = (PAGE_SIZE - SIZEOF_SLAB) div object_size (caches s c);
                   h = fold (\<lambda>i h. list_push_back h (FreeList slab)
                               (Obj (page_addr + SIZEOF_SLAB + of_nat i * object_size (caches s c)))) [0..<unat n] h;
                   k = caches s c
               in Some (slab, s\<lparr>slab_links := h,
                    caches := (caches s)(c := k\<lparr>total_objects := total_objects k + n, free_objects := free_objects k + n\<rparr>)\<rparr>))"

definition slab_cache_create :: "slab_state \<Rightarrow> nat option \<Rightarrow> u64 \<Rightarrow> int \<times> slab_state" where
  "slab_cache_create s cache sz =
     (case cache of
        None \<Rightarrow> (-1, s)
      | Some c \<Rightarrow>
          if sz = 0 \<or> sz > PAGE_SIZE then (-1, s)
          else if sz AND (sz - 1) \<noteq> 0 then (-1, s)
          else let h = list_init (list_init (list_init (slab_links s) (CFull c)) (CPartial c)) (CFree c)
               in (0, s\<lparr>slab_links := h,
                    caches := (caches s)(c := \<lparr>object_size = sz,
                      objects_per_slab = (PAGE_SIZE - SIZEOF_SLAB) div sz, total_objects = 0, free_objects = 0\<rparr>)\<rparr>))"

definition slab_init :: "slab_state \<Rightarrow> slab_state" where
  "slab_init s = fold (\<lambda>i s. snd (slab_cache_create s (Some i) (cache_sizes ! i))) [0..<SLAB_NR_CACHES] s"

text \<open>An object off the free list of a slab, and the counters.\<close>

definition take_object :: "slab_state \<Rightarrow> nat \<Rightarrow> u64 \<Rightarrow> slab_node \<Rightarrow> slab_state" where
  "take_object s c slab obj =
     s\<lparr>slab_links := list_remove (slab_links s) obj,
       slab_inuse := (slab_inuse s)(slab := slab_inuse s slab + 1),
       caches := (caches s)(c := (caches s c)\<lparr>free_objects := free_objects (caches s c) - 1\<rparr>)\<rparr>"

definition move_slab :: "slab_state \<Rightarrow> u64 \<Rightarrow> slab_node \<Rightarrow> slab_state" where
  "move_slab s slab head =
     set_slab_links s (list_push_front (list_remove (slab_links s) (SlabNode slab)) head (SlabNode slab))"

definition slab_alloc :: "slab_state \<Rightarrow> nat option \<Rightarrow> (u64 \<times> slab_state) option" where
  "slab_alloc s cache =
     (case cache of
        None \<Rightarrow> Some (0, s)
      | Some c \<Rightarrow>
          if \<not> list_empty (slab_links s) (CPartial c) then
            let slab = node_addr (nxt (slab_links s) (CPartial c));
                obj = nxt (slab_links s) (FreeList slab);
                s = take_object s c slab obj;
                s = (if list_empty (slab_links s) (FreeList slab) then move_slab s slab (CFull c) else s)
            in Some (node_addr obj, s)
          else if \<not> list_empty (slab_links s) (CFree c) then
            let slab = node_addr (nxt (slab_links s) (CFree c));
                obj = nxt (slab_links s) (FreeList slab);
                s = take_object s c slab obj;
                s = move_slab s slab (CPartial c)
            in Some (node_addr obj, s)
          else
            Option.bind (slab_new s c) (\<lambda>(slab, s).
              if slab = 0 then Some (0, s)
              else let obj = nxt (slab_links s) (FreeList slab);
                       s = take_object s c slab obj;
                       s = set_slab_links s (list_push_front (slab_links s) (CPartial c) (SlabNode slab))
                   in Some (node_addr obj, s)))"

definition slab_free :: "slab_state \<Rightarrow> nat option \<Rightarrow> u64 \<Rightarrow> slab_state" where
  "slab_free s cache obj_ptr =
     (case cache of
        None \<Rightarrow> s
      | Some c \<Rightarrow>
          if obj_ptr = 0 then s
          else let slab = page_down obj_ptr
               in if slab_cache_ptr s slab \<noteq> Some c then s
                  else let obj = node_at obj_ptr;
                           h = slab_links s;
                           was_full = (\<not> list_empty h (SlabNode slab) \<and>
                             (nxt h (SlabNode slab) = CFull c \<or> prv h (SlabNode slab) = CFull c));
                           s = s\<lparr>slab_links := list_push_front h (FreeList slab) obj,
                                 slab_inuse := (slab_inuse s)(slab := slab_inuse s slab - 1),
                                 caches := (caches s)(c := (caches s c)\<lparr>free_objects := free_objects (caches s c) + 1\<rparr>)\<rparr>
                       in if was_full then move_slab s slab (CPartial c)
                          else if slab_inuse s slab = 0 then move_slab s slab (CFree c)
                          else s)"

definition slab_alloc_size :: "slab_state \<Rightarrow> u64 \<Rightarrow> (u64 \<times> slab_state) option" where
  "slab_alloc_size s sz =
     (if sz = 0 then Some (0, s)
      else let idx = size_to_cache_index sz
           in if idx < 0 then Some (0, s) else slab_alloc s (Some (nat idx)))"

definition slab_free_size :: "slab_state \<Rightarrow> u64 \<Rightarrow> u64 \<Rightarrow> slab_state" where
  "slab_free_size s ptr sz =
     (if ptr = 0 \<or> sz = 0 then s
      else let idx = size_to_cache_index sz
           in if idx < 0 then s else slab_free s (Some (nat idx)) ptr)"

text \<open>The figures \<open>slab_dump_stats\<close> prints.\<close>

definition slab_dump_stats :: "slab_state \<Rightarrow> (nat \<times> u64 \<times> u64 \<times> u64) list" where
  "slab_dump_stats s =
     map (\<lambda>i. (i, object_size (caches s i), total_objects (caches s i), free_objects (caches s i))) [0..<SLAB_NR_CACHES]"

end
