(* ===== verification/Slab_Props.thy ===== *)
theory Slab_Props
  imports Slab
begin

text \<open>
  Correctness of the slab allocator for caches of objects between 32 and 1024 bytes. The lists
  of a cache hold the slabs made for it and no others, a slab's page is allocated, its free list
  holds objects of the grid behind the slab header, \<open>inuse\<close> counts the rest, every slab on the
  partial list has a free object and on the free list all of them. A slab on the full list may
  have free objects: \<open>slab_free\<close> recognises a full slab only next to the head of that list. The
  caches of 2048 and 4096 bytes, whose slabs hold one object and none, do not work; this is the
  last theorem.
\<close>

section \<open>Lists\<close>

lemma rings_new_head:
  assumes rs: "rings h P L" and n: "n \<notin> in_rings P L"
  shows "rings (list_init h n) (insert n P) (L(n := []))"
proof -
  have old: "rings (list_init h n) P L"
    by (rule rings_init [OF rs n])
  have np: "n \<notin> P"
    using n by (auto simp: in_rings_def cells_def)
  have "ring (list_init h n) n []"
    by (simp add: ring_Nil list_init_def Let_def)
  moreover have "cells (L(n := [])) n \<inter> cells (L(n := [])) q = {}" if "q \<in> P" for q
    using n that np by (auto simp: in_rings_def cells_def)
  moreover have "cells (L(n := [])) q = cells L q" "(L(n := [])) q = L q" if "q \<in> P" for q
    using that np by (auto simp: cells_def)
  ultimately show ?thesis
    using old by (auto simp: rings_def)
qed

lemma in_rings_upd:
  "p \<in> P \<Longrightarrow> in_rings P (L(p := xs)) \<subseteq> in_rings P L \<union> set xs"
  by (auto simp: in_rings_def cells_def split: if_splits)

lemma rings_push_backs:
  assumes "rings h P L" "p \<in> P" "distinct xs" "set xs \<inter> in_rings P L = {}"
  shows "rings (fold (\<lambda>n h. list_push_back h p n) xs h) P (L(p := L p @ xs))"
  using assms
proof (induction xs arbitrary: h L)
  case (Cons n xs)
  let ?L = "L(p := L p @ [n])"
  have r: "rings (list_push_back h p n) P ?L"
    using Cons.prems by (intro lh.repr_push_back) auto
  have dj: "set xs \<inter> in_rings P ?L = {}"
    using Cons.prems(2,3,4) in_rings_upd [OF Cons.prems(2), of L "L p @ [n]"]
    by (auto simp: in_rings_def cells_def split: if_splits)
  have "distinct xs"
    using Cons.prems(3) by simp
  note Cons.IH [OF r Cons.prems(2) this dj]
  moreover have "?L(p := ?L p @ xs) = L(p := L p @ n # xs)"
    by simp
  ultimately show ?case
    by (simp only: fold_Cons comp_apply)
qed simp

section \<open>The objects of a slab\<close>

definition slab_objs :: "u64 \<Rightarrow> u64 \<Rightarrow> u64 list" where
  "slab_objs p z = map (\<lambda>i. p + SIZEOF_SLAB + of_nat i * z) [0..<4040 div unat z]"

definition good_size :: "u64 \<Rightarrow> bool" where
  "good_size z \<longleftrightarrow> 32 \<le> unat z \<and> unat z \<le> 1024"

lemma slab_objs_length [simp]: "length (slab_objs p z) = 4040 div unat z"
  by (simp add: slab_objs_def)

lemma good_size_count: "good_size z \<Longrightarrow> 3 \<le> 4040 div unat z" "good_size z \<Longrightarrow> 4040 div unat z \<le> 126"
proof -
  assume g: "good_size z"
  have "3 = 4040 div (1024::nat)" by simp
  also have "\<dots> \<le> 4040 div unat z"
    using g by (intro div_le_mono2) (auto simp: good_size_def)
  finally show "3 \<le> 4040 div unat z" .
  have "4040 div unat z \<le> 4040 div 32"
    using g by (intro div_le_mono2) (auto simp: good_size_def)
  then show "4040 div unat z \<le> 126" by simp
qed

lemma slab_objs_unat:
  assumes "aligned p 0" "good_size z" "i < 4040 div unat z"
  shows "unat (p + SIZEOF_SLAB + of_nat i * z) = unat p + 56 + i * unat z"
    "56 + i * unat z + unat z \<le> 4096" "unat p mod 4096 = 0" "unat p + 4096 \<le> 2 ^ 64"
proof -
  have "Suc i * unat z \<le> 4040 div unat z * unat z"
    using assms(3) by (intro mult_le_mono1) simp
  also have "\<dots> \<le> 4040"
    by simp
  finally have le: "Suc i * unat z \<le> 4040" .
  then show sz: "56 + i * unat z + unat z \<le> 4096"
    by simp
  show md: "unat p mod 4096 = 0"
    using assms(1) by (simp add: aligned_def)
  show top: "unat p + 4096 \<le> 2 ^ 64"
  proof -
    obtain k where k: "unat p = 4096 * k"
      using md by auto
    have "4096 * k < 4096 * 2 ^ 52"
      using unat_less_64 [of p] k by simp
    then have "k + 1 \<le> 2 ^ 52"
      by simp
    then show ?thesis
      using k by simp
  qed
  have g: "32 \<le> unat z"
    using assms(2) by (simp add: good_size_def)
  have "i * 1 \<le> i * unat z"
    using g by (intro mult_le_mono2) simp
  then have "i \<le> 4096"
    using sz by linarith
  then have i: "i < 2 ^ 64"
    by simp
  have "unat (of_nat i * z :: u64) = i * unat z"
    using sz i by (simp add: unat_word_ariths unat_of_nat)
  moreover have "unat (p + SIZEOF_SLAB) = unat p + 56"
    using top by (simp add: unat_word_ariths)
  ultimately show "unat (p + SIZEOF_SLAB + of_nat i * z) = unat p + 56 + i * unat z"
    using top sz g by (subst unat_plus_no_wrap) auto
qed

lemma slab_obj_unat:
  assumes "aligned p 0" "good_size z" "a \<in> set (slab_objs p z)"
  obtains i where "i < 4040 div unat z" "a = p + SIZEOF_SLAB + of_nat i * z" "unat a = unat p + 56 + i * unat z"
    "56 + i * unat z + unat z \<le> 4096"
  using assms(3) slab_objs_unat [OF assms(1,2)] by (auto simp: slab_objs_def)

lemma slab_objs_distinct:
  assumes "aligned p 0" "good_size z"
  shows "distinct (slab_objs p z)"
proof -
  have z: "unat z \<noteq> 0"
    using assms(2) by (auto simp: good_size_def)
  have "inj_on (\<lambda>i. p + SIZEOF_SLAB + of_nat i * z) (set [0..<4040 div unat z])"
  proof (rule inj_onI)
    fix i j
    assume ij: "i \<in> set [0..<4040 div unat z]" "j \<in> set [0..<4040 div unat z]"
      and e: "p + SIZEOF_SLAB + of_nat i * z = p + SIZEOF_SLAB + of_nat j * z"
    have "unat p + 56 + i * unat z = unat p + 56 + j * unat z"
      using arg_cong [OF e, of unat] slab_objs_unat(1) [OF assms, of i] slab_objs_unat(1) [OF assms, of j] ij by auto
    with z show "i = j"
      by simp
  qed
  then show ?thesis
    by (simp add: slab_objs_def distinct_map)
qed

lemma slab_obj_page:
  assumes "aligned p 0" "good_size z" "a \<in> set (slab_objs p z)"
  shows "page_down a = p" "node_at a = Obj a" "a \<noteq> 0"
proof -
  obtain i where i: "unat a = unat p + 56 + i * unat z" "56 + i * unat z + unat z \<le> 4096"
    by (rule slab_obj_unat [OF assms])
  have z: "32 \<le> unat z" and md: "unat p mod 4096 = 0"
    using assms(1,2) by (simp_all add: good_size_def aligned_def)
  have lt: "56 + i * unat z < 4096"
    using i(2) z by linarith
  have m: "unat a mod 4096 = 56 + i * unat z"
  proof -
    have "unat a mod 4096 = (unat p mod 4096 + (56 + i * unat z)) mod 4096"
      unfolding i(1) add.assoc by (rule mod_add_left_eq [symmetric])
    with md lt show ?thesis
      by simp
  qed
  have "unat (page_down a) = unat p"
    using i(1) m by (simp add: unat_page_down)
  then show "page_down a = p"
    by (simp add: word_unat_eq_iff)
  have "unat (a AND 0xFFF) = 56 + i * unat z"
    using m by (simp add: unat_and_4095)
  then have "a AND 0xFFF \<noteq> 0" "a AND 0xFFF \<noteq> 40"
    by auto
  then show "node_at a = Obj a"
    by (simp add: node_at_def)
  show "a \<noteq> 0"
    using i(1) by auto
qed

section \<open>The invariant\<close>

definition cache_heads :: "nat \<Rightarrow> slab_node set" where
  "cache_heads c = {CFull c, CPartial c, CFree c}"

definition slab_heads :: "nat set \<Rightarrow> u64 set \<Rightarrow> slab_node set" where
  "slab_heads C pg = (\<Union>c\<in>C. cache_heads c) \<union> FreeList ` pg"

definition cache_slab :: "nat set \<Rightarrow> slab_state \<Rightarrow> (slab_node \<Rightarrow> slab_node list) \<Rightarrow> nat \<Rightarrow> u64 \<Rightarrow> bool" where
  "cache_slab C s L c p \<longleftrightarrow> c \<in> C \<and> slab_cache_ptr s p = Some c \<and> p \<noteq> 0 \<and> aligned p 0 \<and>
     (p, 0) \<in> allocs (pmm (phys (slab_mon s))) \<and>
     set (L (FreeList p)) \<subseteq> Obj ` set (slab_objs p (object_size (caches s c))) \<and>
     unat (slab_inuse s p) + length (L (FreeList p)) = 4040 div unat (object_size (caches s c))"

text \<open>The part every step of an operation keeps.\<close>

definition slab_core :: "nat set \<Rightarrow> slab_state \<Rightarrow> (slab_node \<Rightarrow> slab_node list) \<Rightarrow> u64 set \<Rightarrow> bool" where
  "slab_core C s L pg \<longleftrightarrow> pmm_inv (pmm (phys (slab_mon s))) \<and> rings (slab_links s) (slab_heads C pg) L \<and>
     (\<forall>c\<in>C. good_size (object_size (caches s c))) \<and> (\<forall>p\<in>pg. \<exists>c. cache_slab C s L c p) \<and>
     (\<forall>c\<in>C. \<forall>x\<in>cache_heads c. \<forall>n\<in>set (L x). \<exists>p\<in>pg. n = SlabNode p \<and> slab_cache_ptr s p = Some c)"

text \<open>A slab is on one of the lists of its cache, and what that says of its free list.\<close>

definition placed :: "slab_state \<Rightarrow> (slab_node \<Rightarrow> slab_node list) \<Rightarrow> nat \<Rightarrow> slab_node \<Rightarrow> u64 \<Rightarrow> bool" where
  "placed s L c x p \<longleftrightarrow> x \<in> cache_heads c \<and> SlabNode p \<in> set (L x) \<and>
     (x = CPartial c \<longrightarrow> L (FreeList p) \<noteq> []) \<and>
     (x = CFree c \<longrightarrow> length (L (FreeList p)) = 4040 div unat (object_size (caches s c)))"

definition lists_inv :: "nat set \<Rightarrow> slab_state \<Rightarrow> (slab_node \<Rightarrow> slab_node list) \<Rightarrow> u64 set \<Rightarrow> bool" where
  "lists_inv C s L pg \<longleftrightarrow> (\<forall>p\<in>pg. \<exists>c\<in>C. \<exists>x. placed s L c x p)"

definition slab_inv :: "nat set \<Rightarrow> slab_state \<Rightarrow> (slab_node \<Rightarrow> slab_node list) \<Rightarrow> u64 set \<Rightarrow> bool" where
  "slab_inv C s L pg \<longleftrightarrow> slab_core C s L pg \<and> lists_inv C s L pg"

definition live_objs :: "slab_state \<Rightarrow> (slab_node \<Rightarrow> slab_node list) \<Rightarrow> u64 set \<Rightarrow> u64 set" where
  "live_objs s L pg = {a. \<exists>p\<in>pg. \<exists>c. slab_cache_ptr s p = Some c \<and>
     a \<in> set (slab_objs p (object_size (caches s c))) \<and> Obj a \<notin> set (L (FreeList p))}"

lemma slab_coreD:
  assumes "slab_core C s L pg"
  shows "pmm_inv (pmm (phys (slab_mon s)))" "rings (slab_links s) (slab_heads C pg) L"
    "c \<in> C \<Longrightarrow> good_size (object_size (caches s c))"
    "p \<in> pg \<Longrightarrow> slab_cache_ptr s p = Some c \<Longrightarrow> cache_slab C s L c p"
    "c \<in> C \<Longrightarrow> x \<in> cache_heads c \<Longrightarrow> n \<in> set (L x) \<Longrightarrow> \<exists>p\<in>pg. n = SlabNode p \<and> slab_cache_ptr s p = Some c"
    "p \<in> pg \<Longrightarrow> \<exists>c. cache_slab C s L c p"
proof -
  show "cache_slab C s L c p" if pg: "p \<in> pg" and ptr: "slab_cache_ptr s p = Some c"
  proof -
    obtain d where d: "cache_slab C s L d p"
      using assms pg by (auto simp: slab_core_def)
    then have "d = c"
      using ptr by (simp add: cache_slab_def)
    with d show ?thesis
      by simp
  qed
qed (use assms in \<open>auto simp: slab_core_def\<close>)

lemma heads_in [simp]:
  "c \<in> C \<Longrightarrow> x \<in> cache_heads c \<Longrightarrow> x \<in> slab_heads C pg" "p \<in> pg \<Longrightarrow> FreeList p \<in> slab_heads C pg"
  by (auto simp: slab_heads_def)

lemma cache_heads_simps [simp]:
  "CFull c \<in> cache_heads c" "CPartial c \<in> cache_heads c" "CFree c \<in> cache_heads c"
  "FreeList p \<notin> cache_heads c" "SlabNode p \<notin> cache_heads c" "Obj a \<notin> cache_heads c"
  by (auto simp: cache_heads_def)

lemma cache_head_neq [simp]: "x \<in> cache_heads d \<Longrightarrow> x \<noteq> FreeList p"
  by auto

text \<open>Objects and slabs on lists.\<close>

lemma core_obj_page:
  assumes "slab_core C s L pg" "Obj a \<in> in_rings (slab_heads C pg) L"
  shows "page_down a \<in> pg" "Obj a \<in> set (L (FreeList (page_down a)))"
proof -
  obtain x where x: "x \<in> slab_heads C pg" "Obj a \<in> set (L x)"
    using assms(2) by (auto simp: in_rings_def cells_def slab_heads_def cache_heads_def)
  then obtain p where p: "p \<in> pg" "x = FreeList p"
    using slab_coreD(5) [OF assms(1)] by (force simp: slab_heads_def)
  obtain c where c: "cache_slab C s L c p"
    using slab_coreD(6) [OF assms(1) p(1)] by blast
  then have "a \<in> set (slab_objs p (object_size (caches s c)))" "aligned p 0" "good_size (object_size (caches s c))"
    using x(2) p(2) slab_coreD(3) [OF assms(1), of c] by (auto simp: cache_slab_def)
  then have "page_down a = p"
    by (intro slab_obj_page(1))
  with x(2) p show "page_down a \<in> pg" "Obj a \<in> set (L (FreeList (page_down a)))"
    by simp_all
qed

lemma core_slab_listed:
  assumes "slab_core C s L pg" "SlabNode p \<in> in_rings (slab_heads C pg) L"
  shows "p \<in> pg" "\<exists>c\<in>C. \<exists>x\<in>cache_heads c. SlabNode p \<in> set (L x)"
proof -
  obtain x where x: "x \<in> slab_heads C pg" "SlabNode p \<in> set (L x)"
    using assms(2) by (auto simp: in_rings_def cells_def slab_heads_def cache_heads_def)
  have "x \<notin> FreeList ` pg"
  proof
    assume "x \<in> FreeList ` pg"
    then obtain q where q: "q \<in> pg" "x = FreeList q"
      by auto
    then obtain c where "cache_slab C s L c q"
      using slab_coreD(6) [OF assms(1)] by blast
    with q(2) x(2) show False
      by (auto simp: cache_slab_def)
  qed
  with x obtain c where c: "c \<in> C" "x \<in> cache_heads c"
    by (auto simp: slab_heads_def)
  with x(2) slab_coreD(5) [OF assms(1) c] show "p \<in> pg" "\<exists>c\<in>C. \<exists>x\<in>cache_heads c. SlabNode p \<in> set (L x)"
    by blast+
qed

section \<open>The steps\<close>

text \<open>What a step must not change for the slabs other than the one it works on.\<close>

lemma cache_slab_cong:
  assumes "cache_slab C s L c p" "L' (FreeList p) = L (FreeList p)" "slab_cache_ptr s' p = slab_cache_ptr s p"
    "slab_inuse s' p = slab_inuse s p" "object_size (caches s' c) = object_size (caches s c)"
    "allocs (pmm (phys (slab_mon s))) \<subseteq> allocs (pmm (phys (slab_mon s')))"
  shows "cache_slab C s' L' c p"
  using assms by (auto simp: cache_slab_def)

lemma core_update:
  assumes core: "slab_core C s L pg" and own: "cache_slab C s' L' c p"
    and rings: "rings (slab_links s') (slab_heads C (insert p pg)) L'" and inv: "pmm_inv (pmm (phys (slab_mon s')))"
    and size: "\<And>d. object_size (caches s' d) = object_size (caches s d)"
    and mon: "allocs (pmm (phys (slab_mon s))) \<subseteq> allocs (pmm (phys (slab_mon s')))"
    and frame: "\<And>q. q \<in> pg \<Longrightarrow> q \<noteq> p \<Longrightarrow> L' (FreeList q) = L (FreeList q) \<and>
      slab_cache_ptr s' q = slab_cache_ptr s q \<and> slab_inuse s' q = slab_inuse s q"
    and lists: "\<And>d x n. d \<in> C \<Longrightarrow> x \<in> cache_heads d \<Longrightarrow> n \<in> set (L' x) \<Longrightarrow>
      \<exists>q\<in>insert p pg. n = SlabNode q \<and> slab_cache_ptr s' q = Some d"
  shows "slab_core C s' L' (insert p pg)"
proof -
  have "\<exists>d. cache_slab C s' L' d q" if q: "q \<in> insert p pg" for q
  proof (cases "q = p")
    case False
    with q obtain d where d: "cache_slab C s L d q"
      using slab_coreD(6) [OF core] by blast
    have "cache_slab C s' L' d q"
      by (rule cache_slab_cong [OF d]) (use False q frame [of q] size mon in auto)
    then show ?thesis ..
  qed (use own in blast)
  then show ?thesis
    unfolding slab_core_def using inv rings size slab_coreD(3) [OF core] lists by simp
qed

lemma take_object_fields [simp]:
  "slab_mon (take_object s c p n) = slab_mon s" "slab_cache_ptr (take_object s c p n) = slab_cache_ptr s"
  "slab_links (take_object s c p n) = list_remove (slab_links s) n"
  "object_size (caches (take_object s c p n) d) = object_size (caches s d)"
  "slab_inuse (take_object s c p n) q = (if q = p then slab_inuse s p + 1 else slab_inuse s q)"
  by (simp_all add: take_object_def)

lemma core_take:
  assumes core: "slab_core C s L pg" and pg: "p \<in> pg" and ptr: "slab_cache_ptr s p = Some c"
    and ne: "L (FreeList p) = n # xs"
  shows "slab_core C (take_object s c p n) (L(FreeList p := xs)) pg" "nxt (slab_links s) (FreeList p) = n"
    "\<exists>a. n = Obj a \<and> a \<in> set (slab_objs p (object_size (caches s c))) \<and> Obj a \<notin> set xs"
proof -
  note D = slab_coreD [OF core]
  have cs: "cache_slab C s L c p"
    by (rule D(4) [OF pg ptr])
  note pop = lh.pop_first [OF D(2) heads_in(2) [OF pg] ne]
  show "nxt (slab_links s) (FreeList p) = n"
    by (rule pop(1))
  have "n \<notin> set xs"
    using ring_distinct [OF rings_ring [OF D(2) heads_in(2) [OF pg]]] ne by simp
  then show "\<exists>a. n = Obj a \<and> a \<in> set (slab_objs p (object_size (caches s c))) \<and> Obj a \<notin> set xs"
    using cs ne by (auto simp: cache_slab_def)
  have "unat (slab_inuse s p) < 126"
    using cs ne good_size_count(2) [of "object_size (caches s c)"] D(3) [of c] by (auto simp: cache_slab_def)
  then have "unat (slab_inuse s p + 1) = Suc (unat (slab_inuse s p))"
    by (subst unat_plus_no_wrap) auto
  then have "cache_slab C (take_object s c p n) (L(FreeList p := xs)) c p"
    using cs ne by (auto simp: cache_slab_def)
  then have "slab_core C (take_object s c p n) (L(FreeList p := xs)) (insert p pg)"
    by (rule core_update [OF core]) (use D(1,5) pop(3) pg in \<open>auto simp: insert_absorb\<close>)
  then show "slab_core C (take_object s c p n) (L(FreeList p := xs)) pg"
    using pg by (simp add: insert_absorb)
qed

lemma core_put:
  assumes core: "slab_core C s L pg" and pg: "p \<in> pg" and ptr: "slab_cache_ptr s p = Some c"
    and a: "a \<in> set (slab_objs p (object_size (caches s c)))" and new: "Obj a \<notin> set (L (FreeList p))"
    and s': "slab_links s' = list_push_front (slab_links s) (FreeList p) (Obj a)"
      "slab_inuse s' = (slab_inuse s)(p := slab_inuse s p - 1)" "slab_mon s' = slab_mon s"
      "slab_cache_ptr s' = slab_cache_ptr s" "\<And>d. object_size (caches s' d) = object_size (caches s d)"
  shows "slab_core C s' (L(FreeList p := Obj a # L (FreeList p))) pg"
    "unat (slab_inuse s' p) = unat (slab_inuse s p) - 1" "unat (slab_inuse s p) \<noteq> 0"
proof -
  note D = slab_coreD [OF core]
  let ?z = "object_size (caches s c)"
  have cs: "cache_slab C s L c p"
    by (rule D(4) [OF pg ptr])
  then have al: "aligned p 0" and g: "good_size ?z"
    using D(3) by (auto simp: cache_slab_def)
  have "Obj a \<notin> in_rings (slab_heads C pg) L"
    using core_obj_page(2) [OF core, of a] slab_obj_page(1) [OF al g a] new by auto
  then have r: "rings (slab_links s') (slab_heads C pg) (L(FreeList p := Obj a # L (FreeList p)))"
    unfolding s'(1) using D(2) pg by (intro lh.repr_push_front) auto
  have "length (L (FreeList p)) < 4040 div unat ?z"
  proof -
    have d: "distinct (L (FreeList p))"
      using ring_distinct [OF rings_ring [OF D(2) heads_in(2) [OF pg]]] by simp
    have "set (L (FreeList p)) \<subset> Obj ` set (slab_objs p ?z)"
      using cs a new by (auto simp: cache_slab_def)
    then have "card (set (L (FreeList p))) < card (Obj ` set (slab_objs p ?z))"
      by (intro psubset_card_mono) auto
    also have "\<dots> \<le> length (slab_objs p ?z)"
      using card_image_le [of "set (slab_objs p ?z)" Obj] card_length [of "slab_objs p ?z"] by simp
    finally show ?thesis
      using distinct_card [OF d] by simp
  qed
  then show nz: "unat (slab_inuse s p) \<noteq> 0"
    using cs by (auto simp: cache_slab_def)
  then show u: "unat (slab_inuse s' p) = unat (slab_inuse s p) - 1"
    by (simp add: s'(2) unat_minus_one unat_eq_0)
  have "cache_slab C s' (L(FreeList p := Obj a # L (FreeList p))) c p"
    using cs a u nz by (auto simp: cache_slab_def s')
  then have "slab_core C s' (L(FreeList p := Obj a # L (FreeList p))) (insert p pg)"
    by (rule core_update [OF core]) (use D(1,5) r pg in \<open>auto simp: insert_absorb s'\<close>)
  then show "slab_core C s' (L(FreeList p := Obj a # L (FreeList p))) pg"
    using pg by (simp add: insert_absorb)
qed

lemma core_relink:
  assumes core: "slab_core C s L pg" and rings: "rings h (slab_heads C pg) L'"
    and free: "\<And>p. L' (FreeList p) = L (FreeList p)"
    and lists: "\<And>c x n. c \<in> C \<Longrightarrow> x \<in> cache_heads c \<Longrightarrow> n \<in> set (L' x) \<Longrightarrow>
      \<exists>p\<in>pg. n = SlabNode p \<and> slab_cache_ptr s p = Some c"
  shows "slab_core C (set_slab_links s h) L' pg"
proof -
  note D = slab_coreD [OF core]
  have "\<exists>c. cache_slab C (set_slab_links s h) L' c p" if "p \<in> pg" for p
    using D(6) [OF that] by (auto simp: cache_slab_def set_slab_links_def free)
  then show ?thesis
    unfolding slab_core_def using D(1,3) rings lists by (simp add: set_slab_links_def)
qed

lemma core_move:
  assumes core: "slab_core C s L pg" and c: "c \<in> C" and x: "x \<in> cache_heads c" "y \<in> cache_heads c" "x \<noteq> y"
    and p: "SlabNode p \<in> set (L x)"
  shows "slab_core C (move_slab s p y) (L(x := remove1 (SlabNode p) (L x), y := SlabNode p # L y)) pg"
  unfolding move_slab_def
proof (rule core_relink [OF core])
  note D = slab_coreD [OF core]
  show "rings (list_push_front (list_remove (slab_links s) (SlabNode p)) y (SlabNode p)) (slab_heads C pg)
      (L(x := remove1 (SlabNode p) (L x), y := SlabNode p # L y))"
    using c x p by (intro lh.move_front [OF D(2)]) auto
  show "(L(x := remove1 (SlabNode p) (L x), y := SlabNode p # L y)) (FreeList q) = L (FreeList q)" for q
    using x by auto
  fix d v n
  assume d: "d \<in> C" "v \<in> cache_heads d" and n: "n \<in> set ((L(x := remove1 (SlabNode p) (L x), y := SlabNode p # L y)) v)"
  have same: "d = c" if "v \<in> cache_heads c"
    using that d(2) by (auto simp: cache_heads_def)
  have "n \<in> set (L v) \<or> (v = y \<and> n = SlabNode p)"
    using n set_remove1_subset [of "SlabNode p" "L x"] by (auto split: if_splits)
  then show "\<exists>q\<in>pg. n = SlabNode q \<and> slab_cache_ptr s q = Some d"
    using D(5) [OF d] D(5) [OF c x(1) p] same x(2) by auto
qed

text \<open>A new slab.\<close>

lemma slab_new_eq:
  assumes "monitor_pmm_alloc (slab_mon s) 0 = Some (p, m)" "slab_new s c = Some (q, s')"
  shows "q = p" "slab_mon s' = m" "object_size (caches s' d) = object_size (caches s d)"
    "p = 0 \<Longrightarrow> s' = s\<lparr>slab_mon := m\<rparr>"
    "p \<noteq> 0 \<Longrightarrow> slab_cache_ptr s' = (slab_cache_ptr s)(p := Some c) \<and> slab_inuse s' = (slab_inuse s)(p := 0) \<and>
       slab_links s' = fold (\<lambda>n h. list_push_back h (FreeList p) n) (map Obj (slab_objs p (object_size (caches s c))))
         (list_init (slab_links s) (FreeList p))"
  using assms by (auto simp: slab_new_def Let_def slab_objs_def unat_div fold_map comp_def split: if_splits)

lemma core_mon_pages:
  assumes core: "slab_core C s L pg" and "pmm_inv (pmm (phys m))" "\<And>p. p \<in> pg \<Longrightarrow> (p, 0) \<in> allocs (pmm (phys m))"
  shows "slab_core C (s\<lparr>slab_mon := m\<rparr>) L pg"
proof -
  note D = slab_coreD [OF core]
  have "\<exists>c. cache_slab C (s\<lparr>slab_mon := m\<rparr>) L c p" if "p \<in> pg" for p
    using D(6) [OF that] assms(3) [OF that] by (auto simp: cache_slab_def)
  then show ?thesis
    unfolding slab_core_def using D(2,3,5) assms(2) by simp
qed

lemma core_mon:
  assumes core: "slab_core C s L pg" and "pmm_inv (pmm (phys m))"
    "allocs (pmm (phys (slab_mon s))) \<subseteq> allocs (pmm (phys m))"
  shows "slab_core C (s\<lparr>slab_mon := m\<rparr>) L pg"
  using assms(3) slab_coreD(6) [OF core] by (intro core_mon_pages [OF core assms(2)]) (auto simp: cache_slab_def)

lemma monitor_pmm_alloc_page:
  assumes inv: "pmm_inv (pmm (phys m))" and al: "monitor_pmm_alloc m 0 = Some (p, m')"
  shows "pmm_inv (pmm (phys m'))" "allocs (pmm (phys m)) \<subseteq> allocs (pmm (phys m'))"
    "p \<noteq> 0 \<Longrightarrow> aligned p 0 \<and> (p, 0) \<notin> allocs (pmm (phys m)) \<and> (p, 0) \<in> allocs (pmm (phys m'))"
proof -
  have e: "the (monitor_pmm_alloc m 0) = (p, m')"
    using al by simp
  show "pmm_inv (pmm (phys m'))"
    by (rule mpa.alloc_ok [OF inv e])
  show "p \<noteq> 0 \<Longrightarrow> aligned p 0 \<and> (p, 0) \<notin> allocs (pmm (phys m)) \<and> (p, 0) \<in> allocs (pmm (phys m'))"
    using mpa.alloc_block [OF inv e] mpa.alloc_new [OF inv e] by simp
  have "pmm_alloc (phys m) 0 = (p, phys m')"
    using al by (auto simp: monitor_pmm_alloc_eq)
  then show "allocs (pmm (phys m)) \<subseteq> allocs (pmm (phys m'))"
    using pmm_alloc_none [OF inv, of 0] pmm_alloc_correct(5) [OF inv, of 0 p "phys m'"]
    by (cases "has_free (pmm (phys m)) 0") auto
qed

lemma core_new:
  assumes core: "slab_core C s L pg" and c: "c \<in> C" and al: "monitor_pmm_alloc (slab_mon s) 0 = Some (p, m)"
    and new: "slab_new s c = Some (q, s')" and nz: "p \<noteq> 0"
  shows "p \<notin> pg"
    "slab_core C s' (L(FreeList p := map Obj (slab_objs p (object_size (caches s c))))) (insert p pg)"
proof -
  note D = slab_coreD [OF core]
  note pa = monitor_pmm_alloc_page [OF D(1) al]
  note e = slab_new_eq [OF al new]
  let ?os = "slab_objs p (object_size (caches s c))"
  have al0: "aligned p 0" and g: "good_size (object_size (caches s c))"
    using pa(3) nz D(3) c by auto
  show np: "p \<notin> pg"
    using pa(3) [OF nz] D(6) by (auto simp: cache_slab_def)
  have F: "FreeList p \<notin> in_rings (slab_heads C pg) L"
  proof
    assume "FreeList p \<in> in_rings (slab_heads C pg) L"
    then obtain x where "x \<in> slab_heads C pg" "FreeList p \<in> set (L x)"
      using np by (auto simp: in_rings_def cells_def slab_heads_def cache_heads_def)
    then show False
      using D(5) D(6) by (fastforce simp: slab_heads_def cache_slab_def)
  qed
  have r: "rings (list_init (slab_links s) (FreeList p)) (slab_heads C (insert p pg)) (L(FreeList p := []))"
    using rings_new_head [OF D(2) F] by (simp add: slab_heads_def)
  have "set (map Obj ?os) \<inter> in_rings (slab_heads C (insert p pg)) (L(FreeList p := [])) = {}"
  proof -
    have "Obj a \<notin> in_rings (slab_heads C pg) L" if "a \<in> set ?os" for a
      using core_obj_page(1) [OF core, of a] slab_obj_page(1) [OF al0 g that] np by auto
    then show ?thesis
      by (auto simp: in_rings_def cells_def slab_heads_def cache_heads_def split: if_splits)
  qed
  moreover have "distinct (map Obj ?os)"
    using slab_objs_distinct [OF al0 g] by (simp add: distinct_map inj_on_def)
  ultimately have "rings (slab_links s') (slab_heads C (insert p pg))
      ((L(FreeList p := []))(FreeList p := (L(FreeList p := [])) (FreeList p) @ map Obj ?os))"
    using e(5) [OF nz] rings_push_backs [OF r heads_in(2), of p "map Obj ?os"] by simp
  then have rs: "rings (slab_links s') (slab_heads C (insert p pg)) (L(FreeList p := map Obj ?os))"
    by simp
  have ls: "\<exists>q\<in>insert p pg. n = SlabNode q \<and> slab_cache_ptr s' q = Some d"
    if "d \<in> C" "x \<in> cache_heads d" "n \<in> set (L x)" for d x n
    using D(5) [OF that] np e(5) [OF nz] by (metis fun_upd_other insertCI)
  have "cache_slab C s' (L(FreeList p := map Obj ?os)) c p"
    using c nz al0 pa(3) [OF nz] e by (auto simp: cache_slab_def)
  then show "slab_core C s' (L(FreeList p := map Obj ?os)) (insert p pg)"
    by (rule core_update [OF core]) (use rs pa e np nz ls in simp_all)
qed

section \<open>Allocation and release\<close>

lemma lists_inv_upd:
  assumes "lists_inv C s L pg" "\<And>q. q \<in> pg \<Longrightarrow> q \<noteq> p \<Longrightarrow> L' (FreeList q) = L (FreeList q)"
    "\<And>d x q. x \<in> cache_heads d \<Longrightarrow> q \<noteq> p \<Longrightarrow> SlabNode q \<in> set (L x) \<Longrightarrow> SlabNode q \<in> set (L' x)"
    "\<And>d. object_size (caches s' d) = object_size (caches s d)" "c \<in> C" "placed s' L' c x p"
  shows "lists_inv C s' L' (insert p pg)"
  unfolding lists_inv_def
proof
  fix q
  assume q: "q \<in> insert p pg"
  show "\<exists>c\<in>C. \<exists>x. placed s' L' c x q"
  proof (cases "q = p")
    case False
    with q assms(1) obtain d y where d: "d \<in> C" "placed s L d y q"
      by (auto simp: lists_inv_def)
    then have "placed s' L' d y q"
      using q False assms(2) [of q] assms(3) [of y d q] assms(4) by (simp add: placed_def)
    with d(1) show ?thesis
      by blast
  qed (use assms(5,6) in blast)
qed

lemma placed_unique:
  assumes "slab_core C s L pg" "lists_inv C s L pg" "c \<in> C" "x \<in> cache_heads c" "SlabNode p \<in> set (L x)"
  shows "placed s L c x p" "p \<in> pg" "slab_cache_ptr s p = Some c"
proof -
  note D = slab_coreD [OF assms(1)]
  show p: "p \<in> pg" "slab_cache_ptr s p = Some c"
    using D(5) [OF assms(3-5)] by auto
  then obtain d y where d: "d \<in> C" "placed s L d y p"
    using assms(2) by (auto simp: lists_inv_def)
  have y: "y \<in> slab_heads C pg" "x \<in> slab_heads C pg"
    using d assms(3,4) by (auto simp: placed_def)
  have "x = y"
    using rings_disjoint [OF D(2) y] d(2) assms(5) by (auto simp: placed_def cells_def)
  then show "placed s L c x p"
    using d(2) assms(4) by (auto simp: placed_def cache_heads_def)
qed

lemma live_take:
  assumes "slab_core C s L pg" "p \<in> pg" "slab_cache_ptr s p = Some c"
    "a \<in> set (slab_objs p (object_size (caches s c)))" "L (FreeList p) = Obj a # xs" "Obj a \<notin> set xs"
    "L' (FreeList p) = xs" "\<And>q. q \<in> pg \<Longrightarrow> q \<noteq> p \<Longrightarrow> L' (FreeList q) = L (FreeList q)"
    "slab_cache_ptr s' = slab_cache_ptr s" "\<And>d. object_size (caches s' d) = object_size (caches s d)"
  shows "a \<notin> live_objs s L pg" "live_objs s' L' pg = insert a (live_objs s L pg)"
proof -
  have uniq: "q = p" if "q \<in> pg" "slab_cache_ptr s q = Some d" "a \<in> set (slab_objs q (object_size (caches s d)))" for q d
  proof -
    have "aligned q 0" "aligned p 0" "good_size (object_size (caches s d))" "good_size (object_size (caches s c))"
      using slab_coreD(3,4) [OF assms(1)] that(1,2) assms(2,3) by (auto simp: cache_slab_def)
    then show ?thesis
      using slab_obj_page(1) that(3) assms(4) by metis
  qed
  show "a \<notin> live_objs s L pg"
    using uniq assms(5) by (auto simp: live_objs_def)
  have "b \<in> live_objs s' L' pg \<longleftrightarrow> b = a \<or> b \<in> live_objs s L pg" for b
  proof (cases "b = a")
    case True
    then show ?thesis
      using assms(2-4,6,7,9,10) by (auto simp: live_objs_def)
  next
    case False
    then have "Obj b \<in> set (L' (FreeList q)) \<longleftrightarrow> Obj b \<in> set (L (FreeList q))" if "q \<in> pg" for q
      using assms(5,7,8) that by (cases "q = p") auto
    then show ?thesis
      using False by (auto simp: live_objs_def assms(9,10))
  qed
  then show "live_objs s' L' pg = insert a (live_objs s L pg)"
    by blast
qed

text \<open>What a successful allocation achieves.\<close>

definition allocated_from ::
    "nat set \<Rightarrow> slab_state \<Rightarrow> (slab_node \<Rightarrow> slab_node list) \<Rightarrow> u64 set \<Rightarrow> nat \<Rightarrow> u64 \<Rightarrow> slab_state \<Rightarrow>
      (slab_node \<Rightarrow> slab_node list) \<Rightarrow> u64 set \<Rightarrow> bool" where
  "allocated_from C s L pg c a s' L' pg' \<longleftrightarrow> slab_inv C s' L' pg' \<and> a \<notin> live_objs s L pg \<and>
     live_objs s' L' pg' = insert a (live_objs s L pg) \<and> (\<forall>d. object_size (caches s' d) = object_size (caches s d)) \<and>
     (\<exists>p\<in>pg'. slab_cache_ptr s' p = Some c \<and> a \<in> set (slab_objs p (object_size (caches s c)))) \<and>
     pg \<subseteq> pg' \<and> (\<forall>p\<in>pg' - pg. (p, 0) \<notin> allocs (pmm (phys (slab_mon s))))"

lemma move_slab_fields [simp]:
  "slab_cache_ptr (move_slab s p y) = slab_cache_ptr s" "caches (move_slab s p y) = caches s"
  "slab_cache_ptr (set_slab_links s h) = slab_cache_ptr s" "caches (set_slab_links s h) = caches s"
  "slab_links (set_slab_links s h) = h" "slab_inuse (move_slab s p y) = slab_inuse s"
  by (simp_all add: move_slab_def set_slab_links_def)

lemma slab_alloc_partial:
  assumes inv: "slab_inv C s L pg" and c: "c \<in> C" and ne: "L (CPartial c) = n # ns"
  obtains a s' L' where "slab_alloc s (Some c) = Some (a, s')" "allocated_from C s L pg c a s' L' pg"
proof -
  have core: "slab_core C s L pg" and li: "lists_inv C s L pg"
    using inv by (auto simp: slab_inv_def)
  note D = slab_coreD [OF core]
  note pop = lh.pop_first [OF D(2) heads_in(1) [OF c cache_heads_simps(2)] ne]
  obtain p where n: "n = SlabNode p"
    using D(5) [OF c cache_heads_simps(2), of n] ne by auto
  then have "SlabNode p \<in> set (L (CPartial c))"
    using ne by simp
  note p = placed_unique [OF core li c cache_heads_simps(2) this]
  obtain m xs where xs: "L (FreeList p) = m # xs"
    using p(1) by (cases "L (FreeList p)") (auto simp: placed_def)
  note take = core_take [OF core p(2,3) xs]
  obtain a where a: "m = Obj a" "a \<in> set (slab_objs p (object_size (caches s c)))" "Obj a \<notin> set xs"
    using take(3) by blast
  let ?s = "take_object s c p m" and ?L = "L(FreeList p := xs)"
  have em: "list_empty (slab_links ?s) (FreeList p) \<longleftrightarrow> xs = []"
    using lh.repr_is_empty [OF slab_coreD(2) [OF take(1)] heads_in(2) [OF p(2)]] by simp
  let ?s' = "if xs = [] then move_slab ?s p (CFull c) else ?s"
  let ?L' = "if xs = [] then ?L(CPartial c := ns, CFull c := SlabNode p # L (CFull c)) else ?L"
  have ret: "slab_alloc s (Some c) = Some (a, ?s')"
    using pop(1,2) n a(1) take(2) em by (simp add: slab_alloc_def Let_def)
  have "slab_core C (move_slab ?s p (CFull c)) (?L(CPartial c := ns, CFull c := SlabNode p # L (CFull c))) pg"
    using core_move [OF take(1) c cache_heads_simps(2,1), of p] ne n by simp
  then have core': "slab_core C ?s' ?L' pg"
    using take(1) by (cases "xs = []") auto
  have pl: "placed ?s' ?L' c (if xs = [] then CFull c else CPartial c) p"
    using ne n by (auto simp: placed_def)
  have "lists_inv C ?s' ?L' (insert p pg)"
    by (rule lists_inv_upd [OF li _ _ _ c pl]) (use ne n in \<open>auto split: if_splits\<close>)
  then have "slab_inv C ?s' ?L' pg"
    using core' p(2) by (simp add: slab_inv_def insert_absorb)
  moreover have "a \<notin> live_objs s L pg"
    by (rule live_take(1) [OF core p(2,3) a(2) xs [unfolded a(1)] a(3), where s' = ?s and L' = ?L]) simp_all
  moreover have "live_objs ?s' ?L' pg = insert a (live_objs s L pg)"
    by (rule live_take(2) [OF core p(2,3) a(2) xs [unfolded a(1)] a(3)]) simp_all
  ultimately have "allocated_from C s L pg c a ?s' ?L' pg"
    unfolding allocated_from_def using p(2,3) a(2) by (intro conjI bexI [of _ p]) simp_all
  then show thesis
    by (rule that [OF ret])
qed

lemma slab_alloc_free:
  assumes inv: "slab_inv C s L pg" and c: "c \<in> C" and pe: "L (CPartial c) = []" and ne: "L (CFree c) = n # ns"
  obtains a s' L' where "slab_alloc s (Some c) = Some (a, s')" "allocated_from C s L pg c a s' L' pg"
proof -
  have core: "slab_core C s L pg" and li: "lists_inv C s L pg"
    using inv by (auto simp: slab_inv_def)
  note D = slab_coreD [OF core]
  have em: "list_empty (slab_links s) (CPartial c)"
    using lh.repr_is_empty [OF D(2) heads_in(1) [OF c cache_heads_simps(2)]] pe by simp
  note pop = lh.pop_first [OF D(2) heads_in(1) [OF c cache_heads_simps(3)] ne]
  obtain p where n: "n = SlabNode p"
    using D(5) [OF c cache_heads_simps(3), of n] ne by auto
  then have "SlabNode p \<in> set (L (CFree c))"
    using ne by simp
  note p = placed_unique [OF core li c cache_heads_simps(3) this]
  have full: "3 \<le> length (L (FreeList p))"
    using p(1) good_size_count(1) [OF D(3) [OF c]] by (simp add: placed_def)
  then obtain m xs where xs: "L (FreeList p) = m # xs" "xs \<noteq> []"
    by (cases "L (FreeList p)"; cases "tl (L (FreeList p))") auto
  note take = core_take [OF core p(2,3) xs(1)]
  obtain a where a: "m = Obj a" "a \<in> set (slab_objs p (object_size (caches s c)))" "Obj a \<notin> set xs"
    using take(3) by blast
  let ?s = "take_object s c p m" and ?L = "L(FreeList p := xs)"
  let ?s' = "move_slab ?s p (CPartial c)" and ?L' = "?L(CFree c := ns, CPartial c := [SlabNode p])"
  have ret: "slab_alloc s (Some c) = Some (a, ?s')"
    using em pop(1,2) n a(1) take(2) by (simp add: slab_alloc_def Let_def)
  have core': "slab_core C ?s' ?L' pg"
    using core_move [OF take(1) c cache_heads_simps(3,2), of p] ne n pe by simp
  have pl: "placed ?s' ?L' c (CPartial c) p"
    using xs(2) by (simp add: placed_def)
  have "lists_inv C ?s' ?L' (insert p pg)"
    by (rule lists_inv_upd [OF li _ _ _ c pl]) (use ne n pe in \<open>auto split: if_splits\<close>)
  then have "slab_inv C ?s' ?L' pg"
    using core' p(2) by (simp add: slab_inv_def insert_absorb)
  moreover have "a \<notin> live_objs s L pg"
    by (rule live_take(1) [OF core p(2,3) a(2) xs(1) [unfolded a(1)] a(3), where s' = ?s and L' = ?L]) simp_all
  moreover have "live_objs ?s' ?L' pg = insert a (live_objs s L pg)"
    by (rule live_take(2) [OF core p(2,3) a(2) xs(1) [unfolded a(1)] a(3)]) simp_all
  ultimately have "allocated_from C s L pg c a ?s' ?L' pg"
    unfolding allocated_from_def using p(2,3) a(2) by (intro conjI bexI [of _ p]) simp_all
  then show thesis
    by (rule that [OF ret])
qed

text \<open>A new slab has no live objects.\<close>

lemma live_new:
  assumes "p \<notin> pg" "\<And>q. q \<in> pg \<Longrightarrow> L' (FreeList q) = L (FreeList q)"
    "slab_cache_ptr s' = (slab_cache_ptr s)(p := Some c)" "\<And>d. object_size (caches s' d) = object_size (caches s d)"
    "set (L' (FreeList p)) = Obj ` set (slab_objs p (object_size (caches s c)))"
  shows "live_objs s' L' (insert p pg) = live_objs s L pg"
proof -
  have "b \<in> live_objs s' L' (insert p pg) \<longleftrightarrow> b \<in> live_objs s L pg" for b
    using assms(1) by (auto simp: live_objs_def assms(2-5))
  then show ?thesis
    by blast
qed

lemma core_push:
  assumes core: "slab_core C s L pg" and c: "c \<in> C" and x: "x \<in> cache_heads c"
    and p: "p \<in> pg" "slab_cache_ptr s p = Some c" "\<And>d y. d \<in> C \<Longrightarrow> y \<in> cache_heads d \<Longrightarrow> SlabNode p \<notin> set (L y)"
  shows "slab_core C (set_slab_links s (list_push_front (slab_links s) x (SlabNode p))) (L(x := SlabNode p # L x)) pg"
proof (rule core_relink [OF core])
  have "SlabNode p \<notin> in_rings (slab_heads C pg) L"
    using core_slab_listed(2) [OF core] p(3) by blast
  then show "rings (list_push_front (slab_links s) x (SlabNode p)) (slab_heads C pg) (L(x := SlabNode p # L x))"
    using slab_coreD(2) [OF core] c x by (intro lh.repr_push_front) auto
  show "(L(x := SlabNode p # L x)) (FreeList q) = L (FreeList q)" for q
    using x by auto
  fix d y n
  assume d: "d \<in> C" "y \<in> cache_heads d" "n \<in> set ((L(x := SlabNode p # L x)) y)"
  then show "\<exists>q\<in>pg. n = SlabNode q \<and> slab_cache_ptr s q = Some d"
    using slab_coreD(5) [OF core d(1,2)] p(1,2) x by (auto simp: cache_heads_def split: if_splits)
qed

lemma slab_alloc_new:
  assumes inv: "slab_inv C s L pg" and c: "c \<in> C" and pe: "L (CPartial c) = []" and fe: "L (CFree c) = []"
    and al: "monitor_pmm_alloc (slab_mon s) 0 = Some (p, m)"
  obtains (null) s' where "p = 0" "slab_alloc s (Some c) = Some (0, s')" "slab_inv C s' L pg"
      "live_objs s' L pg = live_objs s L pg"
    | (new) a s' L' where "slab_alloc s (Some c) = Some (a, s')" "allocated_from C s L pg c a s' L' (insert p pg)"
proof -
  have core: "slab_core C s L pg" and li: "lists_inv C s L pg"
    using inv by (auto simp: slab_inv_def)
  note D = slab_coreD [OF core]
  have em: "list_empty (slab_links s) (CPartial c)" "list_empty (slab_links s) (CFree c)"
    using lh.repr_is_empty [OF D(2) heads_in(1) [OF c cache_heads_simps(2)]]
      lh.repr_is_empty [OF D(2) heads_in(1) [OF c cache_heads_simps(3)]] pe fe by simp_all
  obtain q s1 where nw: "slab_new s c = Some (q, s1)"
    by (cases "slab_new s c") (auto simp: slab_new_def al Let_def split: if_splits)
  note e = slab_new_eq [OF al nw]
  show thesis
  proof (cases "p = 0")
    case True
    have ret: "slab_alloc s (Some c) = Some (0, s1)"
      using em nw e(1) True by (simp add: slab_alloc_def)
    have s1: "s1 = s\<lparr>slab_mon := m\<rparr>"
      using e(4) True .
    have "slab_core C s1 L pg"
      unfolding s1 by (rule core_mon [OF core]) (use monitor_pmm_alloc_page(1,2) [OF D(1) al] in simp_all)
    moreover have "lists_inv C s1 L pg"
      using li by (simp add: s1 lists_inv_def placed_def)
    ultimately show thesis
      using ret True by (intro null [of s1]) (simp_all add: slab_inv_def, simp add: s1 live_objs_def)
  next
    case False
    let ?z = "object_size (caches s c)"
    let ?L1 = "L(FreeList p := map Obj (slab_objs p ?z))"
    note cn = core_new [OF core c al nw False]
    have g: "3 \<le> length (slab_objs p ?z)"
      using good_size_count(1) [OF D(3) [OF c]] by simp
    then obtain a as where as: "slab_objs p ?z = a # as" "as \<noteq> []"
      by (cases "slab_objs p ?z"; cases "tl (slab_objs p ?z)") auto
    have ptr: "slab_cache_ptr s1 p = Some c"
      using e(5) [OF False] by simp
    have xs: "?L1 (FreeList p) = Obj a # map Obj as"
      by (simp add: as(1))
    note take = core_take [OF cn(2) insertI1 ptr xs]
    let ?s = "take_object s1 c p (Obj a)" and ?L = "?L1(FreeList p := map Obj as)"
    let ?s' = "set_slab_links ?s (list_push_front (slab_links ?s) (CPartial c) (SlabNode p))"
      and ?L' = "?L(CPartial c := SlabNode p # ?L (CPartial c))"
    have ret: "slab_alloc s (Some c) = Some (a, ?s')"
      using em nw e(1) False take(2) by (simp add: slab_alloc_def Let_def)
    have unlisted: "SlabNode p \<notin> set (?L y)" if "d \<in> C" "y \<in> cache_heads d" for d y
      using D(5) [OF that] cn(1) that(2) by auto
    have "slab_core C ?s' ?L' (insert p pg)"
      by (rule core_push [OF take(1) c cache_heads_simps(2)]) (use ptr unlisted in auto)
    moreover have pl: "placed ?s' ?L' c (CPartial c) p"
      using as(2) by (simp add: placed_def)
    have "lists_inv C ?s' ?L' (insert p pg)"
      by (rule lists_inv_upd [OF li _ _ _ c pl]) (use e(3) in auto)
    ultimately have "slab_inv C ?s' ?L' (insert p pg)"
      by (simp add: slab_inv_def)
    moreover have l1: "live_objs s1 ?L1 (insert p pg) = live_objs s L pg"
      by (rule live_new [OF cn(1)]) (use e(3) e(5) [OF False] cn(1) in auto)
    have an: "a \<notin> set as"
      using slab_objs_distinct [of p ?z] monitor_pmm_alloc_page(3) [OF D(1) al False] D(3) [OF c] as(1) by simp
    have ao: "a \<in> set (slab_objs p (object_size (caches s1 c)))"
      by (simp add: e(3) as(1))
    have as': "Obj a \<notin> set (map Obj as)"
      using an by auto
    have "a \<notin> live_objs s1 ?L1 (insert p pg)"
      by (rule live_take(1) [OF cn(2) insertI1 ptr ao xs as', where s' = ?s and L' = ?L]) simp_all
    moreover have "live_objs ?s' ?L' (insert p pg) = insert a (live_objs s1 ?L1 (insert p pg))"
      by (rule live_take(2) [OF cn(2) insertI1 ptr ao xs as']) simp_all
    ultimately have "allocated_from C s L pg c a ?s' ?L' (insert p pg)"
      unfolding allocated_from_def using ptr as(1) e(3) l1 monitor_pmm_alloc_page(3) [OF D(1) al False]
      by (intro conjI bexI [of _ p]) auto
    then show thesis
      by (rule new [OF ret])
  qed
qed

lemma slab_alloc_inv:
  assumes "slab_inv C s L pg" "c \<in> C"
  obtains (null) s' where "fst (pmm_alloc (phys (slab_mon s)) 0) = 0" "slab_alloc s (Some c) = Some (0, s')"
      "slab_inv C s' L pg" "live_objs s' L pg = live_objs s L pg"
    | (some) a s' L' pg' where "slab_alloc s (Some c) = Some (a, s')" "allocated_from C s L pg c a s' L' pg'"
proof -
  consider (partial) n ns where "L (CPartial c) = n # ns" | (free) n ns where "L (CPartial c) = []" "L (CFree c) = n # ns"
    | (none) "L (CPartial c) = []" "L (CFree c) = []"
    by (cases "L (CPartial c)"; cases "L (CFree c)") auto
  then show thesis
  proof cases
    case partial
    show thesis
      by (rule slab_alloc_partial [OF assms partial]) (rule some)
  next
    case free
    show thesis
      by (rule slab_alloc_free [OF assms free]) (rule some)
  next
    case none
    obtain p m where al: "monitor_pmm_alloc (slab_mon s) 0 = Some (p, m)" and p: "fst (pmm_alloc (phys (slab_mon s)) 0) = p"
      by (simp add: monitor_pmm_alloc_eq)
    show thesis
    proof (rule slab_alloc_new [OF assms none al])
      fix s'
      assume "p = 0" "slab_alloc s (Some c) = Some (0, s')" "slab_inv C s' L pg" "live_objs s' L pg = live_objs s L pg"
      with p show thesis
        by (intro null [of s']) auto
    qed (rule some)
  qed
qed

text \<open>The neighbours of a slab tell the list only when one of them is the head.\<close>

lemma was_full_list:
  assumes core: "slab_core C s L pg" and c: "c \<in> C" "x \<in> cache_heads c" "SlabNode p \<in> set (L x)"
    and n: "nxt (slab_links s) (SlabNode p) = CFull c \<or> prv (slab_links s) (SlabNode p) = CFull c"
  shows "x = CFull c"
proof (rule ccontr)
  assume ne: "x \<noteq> CFull c"
  note D = slab_coreD(2) [OF core]
  have "CFull c \<in> cells L x"
    using n ring_cell_neighbours [OF rings_ring [OF D heads_in(1) [OF c(1,2)]] c(3)] by (auto simp: cells_def)
  moreover have "CFull c \<in> cells L (CFull c)"
    by (simp add: cells_def)
  ultimately show False
    using rings_disjoint [OF D heads_in(1) [OF c(1,2)] heads_in(1) [OF c(1) cache_heads_simps(1)] ne] by blast
qed

lemma slab_free_inv:
  assumes inv: "slab_inv C s L pg" and pg: "p \<in> pg" and ptr: "slab_cache_ptr s p = Some c"
    and a: "a \<in> set (slab_objs p (object_size (caches s c)))" and live: "Obj a \<notin> set (L (FreeList p))"
  obtains s' L' where "slab_free s (Some c) a = s'" "slab_inv C s' L' pg" "live_objs s' L' pg = live_objs s L pg - {a}"
    "slab_cache_ptr s' = slab_cache_ptr s" "\<And>d. object_size (caches s' d) = object_size (caches s d)"
proof -
  have core: "slab_core C s L pg" and li: "lists_inv C s L pg"
    using inv by (auto simp: slab_inv_def)
  note D = slab_coreD [OF core]
  let ?z = "object_size (caches s c)"
  have cs: "cache_slab C s L c p"
    by (rule D(4) [OF pg ptr])
  then have c: "c \<in> C" and pa: "page_down a = p" "node_at a = Obj a" "a \<noteq> 0"
    using slab_obj_page [OF _ D(3) a] by (auto simp: cache_slab_def)
  obtain d x where d: "d \<in> C" "x \<in> cache_heads d" "SlabNode p \<in> set (L x)"
    using li pg by (auto simp: lists_inv_def placed_def)
  note pl = placed_unique [OF core li d]
  have dc: "d = c"
    using pl(3) ptr by simp
  define s1 where "s1 = s\<lparr>slab_links := list_push_front (slab_links s) (FreeList p) (Obj a),
     slab_inuse := (slab_inuse s)(p := slab_inuse s p - 1),
     caches := (caches s)(c := (caches s c)\<lparr>free_objects := free_objects (caches s c) + 1\<rparr>)\<rparr>"
  define L1 where "L1 = L(FreeList p := Obj a # L (FreeList p))"
  have f: "slab_links s1 = list_push_front (slab_links s) (FreeList p) (Obj a)" "slab_mon s1 = slab_mon s"
      "slab_inuse s1 = (slab_inuse s)(p := slab_inuse s p - 1)"
      "slab_cache_ptr s1 = slab_cache_ptr s" "\<And>d. object_size (caches s1 d) = object_size (caches s d)"
    by (simp_all add: s1_def)
  note put = core_put [OF core pg ptr a live f(1,3,2,4,5), folded L1_def]
  have xF: "x \<noteq> CFree c"
    using put(3) pl(1) cs dc by (auto simp: placed_def cache_slab_def)
  have L1p: "L1 (FreeList p) = Obj a # L (FreeList p)" "\<And>y. y \<in> cache_heads c \<Longrightarrow> L1 y = L y"
    by (simp_all add: L1_def)
  let ?wf = "\<not> list_empty (slab_links s) (SlabNode p) \<and>
     (nxt (slab_links s) (SlabNode p) = CFull c \<or> prv (slab_links s) (SlabNode p) = CFull c)"
  define y where "y = (if ?wf then CPartial c else if slab_inuse s1 p = 0 then CFree c else x)"
  have ret: "slab_free s (Some c) a = (if y = x then s1 else move_slab s1 p y)"
    using pa ptr was_full_list [OF core d] dc xF unfolding slab_free_def y_def
    by (auto simp: Let_def s1_def [symmetric] simp del: f)
  have xy: "x \<in> cache_heads c" "y \<in> cache_heads c"
    using d(2) dc by (auto simp: y_def)
  define s' where "s' = (if y = x then s1 else move_slab s1 p y)"
  define L' where "L' = (if y = x then L1 else L1(x := remove1 (SlabNode p) (L x), y := SlabNode p # L y))"
  have s': "slab_cache_ptr s' = slab_cache_ptr s" "\<And>d. object_size (caches s' d) = object_size (caches s d)"
    by (simp_all add: s'_def f)
  have L'p: "L' (FreeList q) = L1 (FreeList q)" for q
    using xy by (auto simp: L'_def)
  have "slab_core C (move_slab s1 p y) (L1(x := remove1 (SlabNode p) (L1 x), y := SlabNode p # L1 y)) pg" if "y \<noteq> x"
    using d(3) that by (intro core_move [OF put(1) c xy]) (simp_all add: L1p xy)
  then have core': "slab_core C s' L' pg"
    using put(1) by (simp add: s'_def L'_def L1p xy)
  have "length (L1 (FreeList p)) = 4040 div unat ?z" if "slab_inuse s1 p = 0"
    using slab_coreD(4) [OF put(1) pg, of c] ptr that by (simp add: cache_slab_def f)
  then have pl': "placed s' L' c y p"
    using xy d(3) xF by (auto simp: placed_def L'p L1p s' L'_def y_def split: if_splits)
  have "lists_inv C s' L' (insert p pg)"
    by (rule lists_inv_upd [OF li _ _ _ c pl']) (use xy in \<open>auto simp: s' L'_def L1_def split: if_splits\<close>)
  then have inv': "slab_inv C s' L' pg"
    using core' pg by (simp add: slab_inv_def insert_absorb)
  have ptr1: "slab_cache_ptr s1 p = Some c" and a1: "a \<in> set (slab_objs p (object_size (caches s1 c)))"
    using ptr a by (simp_all add: f)
  have "live_objs s L pg = insert a (live_objs s1 L1 pg)"
    by (rule live_take(2) [OF put(1) pg ptr1 a1 L1p(1) live]) (simp_all add: f L1_def)
  moreover have "a \<notin> live_objs s1 L1 pg"
    by (rule live_take(1) [OF put(1) pg ptr1 a1 L1p(1) live, where L' = L and s' = s]) (simp_all add: f L1_def)
  moreover have "live_objs s' L' pg = live_objs s1 L1 pg"
    by (simp add: live_objs_def L'p s' f)
  ultimately show thesis
    using that [OF _ inv' _ s'] ret by (simp add: s'_def)
qed

section \<open>Reading the lists off the state\<close>

definition cells_on :: "slab_state \<Rightarrow> slab_node \<Rightarrow> slab_node list" where
  "cells_on s x = (case list_for_each (slab_links s) x of None \<Rightarrow> [] | Some xs \<Rightarrow> xs)"

definition slab_pages :: "nat set \<Rightarrow> slab_state \<Rightarrow> u64 set" where
  "slab_pages C s = {p. \<exists>c\<in>C. \<exists>x\<in>cache_heads c. SlabNode p \<in> set (cells_on s x)}"

text \<open>The invariant and the objects in use, of the state alone.\<close>

definition slab_ok :: "nat set \<Rightarrow> slab_state \<Rightarrow> bool" where
  "slab_ok C s \<longleftrightarrow> slab_inv C s (cells_on s) (slab_pages C s)"

definition slab_live :: "nat set \<Rightarrow> slab_state \<Rightarrow> u64 set" where
  "slab_live C s = live_objs s (cells_on s) (slab_pages C s)"

lemma slab_inv_ok:
  assumes "slab_inv C s L pg"
  shows "slab_ok C s" "slab_live C s = live_objs s L pg" "slab_pages C s = pg"
proof -
  have core: "slab_core C s L pg" and li: "lists_inv C s L pg"
    using assms by (auto simp: slab_inv_def)
  note D = slab_coreD [OF core]
  have on: "cells_on s x = L x" if "x \<in> slab_heads C pg" for x
    using ring_for_each [OF rings_ring [OF D(2) that]] by (simp add: cells_on_def)
  have onc: "cells_on s x = L x" if "c \<in> C" "x \<in> cache_heads c" for x c
    using that by (intro on) simp
  have onf: "cells_on s (FreeList p) = L (FreeList p)" if "p \<in> pg" for p
    using that by (intro on) simp
  show pg: "slab_pages C s = pg"
  proof
    show "slab_pages C s \<subseteq> pg"
      using D(5) onc by (fastforce simp: slab_pages_def)
    show "pg \<subseteq> slab_pages C s"
      using li onc by (fastforce simp: slab_pages_def lists_inv_def placed_def)
  qed
  have "rings (slab_links s) (slab_heads C pg) (cells_on s)"
    using D(2) on by (simp add: rings_def cells_def)
  then have "slab_core C s (cells_on s) pg"
    using core onc onf by (auto simp: slab_core_def cache_slab_def)
  moreover have "lists_inv C s (cells_on s) pg"
    unfolding lists_inv_def
  proof
    fix p
    assume p: "p \<in> pg"
    then obtain c x where c: "c \<in> C" "placed s L c x p"
      using li by (auto simp: lists_inv_def)
    then have "placed s (cells_on s) c x p"
      using onc [OF c(1), of x] onf [OF p] by (auto simp: placed_def)
    with c(1) show "\<exists>c\<in>C. \<exists>x. placed s (cells_on s) c x p"
      by blast
  qed
  ultimately show "slab_ok C s"
    by (simp add: slab_ok_def slab_inv_def pg)
  show "slab_live C s = live_objs s L pg"
    using onf by (auto simp: slab_live_def pg live_objs_def)
qed

section \<open>Properties\<close>

text \<open>The size of the object at an address, by the cache its slab belongs to.\<close>

definition obj_size :: "slab_state \<Rightarrow> u64 \<Rightarrow> nat" where
  "obj_size s a = (case slab_cache_ptr s (page_down a) of None \<Rightarrow> 0 | Some c \<Rightarrow> unat (object_size (caches s c)))"

lemma live_objE:
  assumes "slab_core C s L pg" "a \<in> live_objs s L pg"
  obtains c i where "page_down a \<in> pg" "c \<in> C" "slab_cache_ptr s (page_down a) = Some c"
    "a \<in> set (slab_objs (page_down a) (object_size (caches s c)))" "Obj a \<notin> set (L (FreeList (page_down a)))"
    "unat a = unat (page_down a) + 56 + i * obj_size s a" "56 + i * obj_size s a + obj_size s a \<le> 4096"
proof -
  obtain p c where p: "p \<in> pg" "slab_cache_ptr s p = Some c" "a \<in> set (slab_objs p (object_size (caches s c)))"
      "Obj a \<notin> set (L (FreeList p))"
    using assms(2) by (auto simp: live_objs_def)
  have c: "c \<in> C" "aligned p 0" "good_size (object_size (caches s c))"
    using slab_coreD(3,4) [OF assms(1)] p(1,2) by (auto simp: cache_slab_def)
  have pd: "page_down a = p"
    by (rule slab_obj_page(1) [OF c(2,3) p(3)])
  have z: "obj_size s a = unat (object_size (caches s c))"
    by (simp add: obj_size_def pd p(2))
  obtain i where "unat a = unat p + 56 + i * obj_size s a" "56 + i * obj_size s a + obj_size s a \<le> 4096"
    unfolding z by (rule slab_obj_unat [OF c(2,3) p(3)])
  with that c p pd show thesis
    by blast
qed

lemma grid_apart:
  fixes i j z b :: nat
  assumes "x = b + i * z" "y = b + j * z" "x \<noteq> y"
  shows "x + z \<le> y \<or> y + z \<le> x"
proof -
  have "i < j \<or> j < i"
    using assms by (metis nat_neq_iff)
  then have "Suc i \<le> j \<or> Suc j \<le> i"
    by auto
  then have "Suc i * z \<le> j * z \<or> Suc j * z \<le> i * z"
    using mult_le_mono1 by blast
  then show ?thesis
    using assms(1,2) by auto
qed

lemma live_apart:
  assumes core: "slab_core C s L pg" and a: "a \<in> live_objs s L pg" and b: "b \<in> live_objs s L pg" and ne: "a \<noteq> b"
  shows "unat a + obj_size s a \<le> unat b \<or> unat b + obj_size s b \<le> unat a"
proof -
  obtain c i where c: "unat a = unat (page_down a) + 56 + i * obj_size s a" "56 + i * obj_size s a + obj_size s a \<le> 4096"
    by (rule live_objE [OF core a])
  obtain d j where d: "unat b = unat (page_down b) + 56 + j * obj_size s b" "56 + j * obj_size s b + obj_size s b \<le> 4096"
    by (rule live_objE [OF core b])
  show ?thesis
  proof (cases "page_down a = page_down b")
    case True
    then have z: "obj_size s b = obj_size s a"
      by (simp add: obj_size_def)
    show ?thesis
      using grid_apart [OF c(1), of "unat b" j] d(1) ne True z by (simp add: word_unat_eq_iff)
  next
    case False
    have "4096 dvd unat (page_down a)" "4096 dvd unat (page_down b)"
      using page_down_mod by (auto simp: dvd_eq_mod_eq_0)
    then obtain k l where kl: "unat (page_down a) = 4096 * k" "unat (page_down b) = 4096 * l"
      by (auto simp: dvd_def)
    then have "k \<noteq> l"
      using False by (auto simp: word_unat_eq_iff)
    then have "k + 1 \<le> l \<or> l + 1 \<le> k"
      by auto
    then show ?thesis
      using c d kl by auto
  qed
qed

lemma slab_alloc_spec:
  assumes "slab_ok C s" and "c \<in> C"
  shows "\<exists>a s'. slab_alloc s (Some c) = Some (a, s') \<and> slab_ok C s' \<and>
    (if a = 0 then slab_live C s' = slab_live C s \<and> fst (pmm_alloc (phys (slab_mon s)) 0) = 0
     else a \<notin> slab_live C s \<and> slab_live C s' = insert a (slab_live C s) \<and>
       slab_cache_ptr s' (page_down a) = Some c \<and> obj_size s' a = unat (object_size (caches s c)) \<and>
       56 \<le> unat a - unat (page_down a) \<and> unat a - unat (page_down a) + obj_size s' a \<le> 4096 \<and>
       (\<forall>b. b \<in> slab_live C s \<longrightarrow> unat a + obj_size s' a \<le> unat b \<or> unat b + obj_size s' b \<le> unat a))"
proof (rule slab_alloc_inv [OF assms(1) [unfolded slab_ok_def] assms(2)])
  fix s'
  assume "fst (pmm_alloc (phys (slab_mon s)) 0) = 0" "slab_alloc s (Some c) = Some (0, s')"
    "slab_inv C s' (cells_on s) (slab_pages C s)"
    "live_objs s' (cells_on s) (slab_pages C s) = live_objs s (cells_on s) (slab_pages C s)"
  then show ?thesis
    using slab_inv_ok by (intro exI [of _ 0] exI [of _ s']) (simp add: slab_live_def [of C s])
next
  fix a s' L' pg'
  assume ret: "slab_alloc s (Some c) = Some (a, s')"
    and "allocated_from C s (cells_on s) (slab_pages C s) c a s' L' pg'"
  then have al: "slab_inv C s' L' pg'" "a \<notin> slab_live C s" "live_objs s' L' pg' = insert a (slab_live C s)"
      "\<And>d. object_size (caches s' d) = object_size (caches s d)"
      "\<exists>p\<in>pg'. slab_cache_ptr s' p = Some c \<and> a \<in> set (slab_objs p (object_size (caches s c)))"
    by (auto simp: allocated_from_def slab_live_def)
  have core: "slab_core C s' L' pg'" and a: "a \<in> live_objs s' L' pg'"
    using al(1,3) by (auto simp: slab_inv_def)
  obtain p where p: "p \<in> pg'" "slab_cache_ptr s' p = Some c" "a \<in> set (slab_objs p (object_size (caches s c)))"
    using al(5) by blast
  have "aligned p 0" "good_size (object_size (caches s c))"
    using slab_coreD(3,4) [OF core] p(1,2) al(4) by (auto simp: cache_slab_def)
  note pa = slab_obj_page [OF this p(3)]
  obtain d i where i: "unat a = unat (page_down a) + 56 + i * obj_size s' a" "56 + i * obj_size s' a + obj_size s' a \<le> 4096"
    by (rule live_objE [OF core a])
  have "unat a + obj_size s' a \<le> unat b \<or> unat b + obj_size s' b \<le> unat a" if "b \<in> slab_live C s" for b
    using that al(2,3) by (intro live_apart [OF core a]) auto
  moreover have "obj_size s' a = unat (object_size (caches s c))"
    by (simp add: obj_size_def pa(1) p(2) al(4))
  ultimately show ?thesis
    using ret pa(1,3) p(2) al(2,3) i slab_inv_ok [OF al(1)] by (intro exI [of _ a] exI [of _ s']) simp
qed

text \<open>C17: \<open>slab_alloc\<close> on a cache of objects between 32 and 1024 bytes returns. If it returns null,
  the page allocator had no page, and the objects in use are as before; otherwise it returns the
  address of an object that was not in use and is now, of the size of the cache, inside a slab of
  that cache behind the slab's header, and apart from every other object in use.\<close>

theorem slab_alloc_object:
  assumes "slab_ok C s" and "c \<in> C"
  shows "\<exists>a s'. slab_alloc s (Some c) = Some (a, s') \<and> slab_ok C s' \<and>
    (if a = 0 then slab_live C s' = slab_live C s \<and> fst (pmm_alloc (phys (slab_mon s)) 0) = 0
     else a \<notin> slab_live C s \<and> slab_live C s' = insert a (slab_live C s) \<and>
       slab_cache_ptr s' (page_down a) = Some c \<and> obj_size s' a = unat (object_size (caches s c)) \<and>
       56 \<le> unat a - unat (page_down a) \<and> unat a - unat (page_down a) + obj_size s' a \<le> 4096 \<and>
       (\<forall>b. b \<in> slab_live C s \<longrightarrow> unat a + obj_size s' a \<le> unat b \<or> unat b + obj_size s' b \<le> unat a))"
  using assms by (rule slab_alloc_spec)

lemma slab_free_spec:
  assumes "slab_ok C s" and "a \<in> slab_live C s" and "slab_cache_ptr s (page_down a) = Some c"
  shows "slab_ok C (slab_free s (Some c) a) \<and> slab_live C (slab_free s (Some c) a) = slab_live C s - {a}"
proof -
  have inv: "slab_inv C s (cells_on s) (slab_pages C s)"
    using assms(1) by (simp add: slab_ok_def)
  then have core: "slab_core C s (cells_on s) (slab_pages C s)"
    by (simp add: slab_inv_def)
  obtain d i where d: "page_down a \<in> slab_pages C s" "slab_cache_ptr s (page_down a) = Some d"
      "a \<in> set (slab_objs (page_down a) (object_size (caches s d)))" "Obj a \<notin> set (cells_on s (FreeList (page_down a)))"
    by (rule live_objE [OF core assms(2) [unfolded slab_live_def]])
  then have "d = c"
    using assms(3) by simp
  obtain L' where "slab_inv C (slab_free s (Some c) a) L' (slab_pages C s)"
      "live_objs (slab_free s (Some c) a) L' (slab_pages C s) = slab_live C s - {a}"
    using slab_free_inv [OF inv d(1) assms(3) d(3) [unfolded \<open>d = c\<close>] d(4)] by (metis slab_live_def)
  then show ?thesis
    using slab_inv_ok by metis
qed


text \<open>A cache of 32-byte objects over the monitor's example state.\<close>

definition slab_zero :: slab_state where
  "slab_zero = \<lparr>slab_mon = mon_example, slab_links = \<lparr>nxt = (\<lambda>x. x), prv = (\<lambda>x. x)\<rparr>, slab_cache_ptr = (\<lambda>_. None),
     slab_base_addr = (\<lambda>_. 0), slab_inuse = (\<lambda>_. 0),
     caches = (\<lambda>_. \<lparr>object_size = 0, objects_per_slab = 0, total_objects = 0, free_objects = 0\<rparr>)\<rparr>"

definition slab_example :: slab_state where
  "slab_example = snd (slab_cache_create slab_zero (Some 0) 32)"

lemma cache_create_links:
  "slab_links (snd (slab_cache_create slab_zero (Some c) z)) = slab_links slab_zero"
  by (simp add: slab_cache_create_def slab_zero_def list_init_def set_next_def set_prev_def Let_def fun_upd_idem)

lemma list_init_zero: "list_init (slab_links slab_zero) x = slab_links slab_zero"
  by (simp add: slab_zero_def list_init_def set_next_def set_prev_def Let_def fun_upd_idem)

lemma slab_zero_rings: "rings (slab_links slab_zero) P (\<lambda>_. [])"
  by (auto simp: rings_def ring_Nil slab_zero_def cells_def)

lemma slab_example_ok: "slab_ok {0} slab_example" "slab_live {0} slab_example = {}"
proof -
  have "slab_mon slab_example = mon_example" "object_size (caches slab_example 0) = 32"
    by (simp_all add: slab_example_def slab_cache_create_def slab_zero_def)
  then have "slab_core {0} slab_example (\<lambda>_. []) {}"
    using mon_example_wf slab_zero_rings cache_create_links [of 0 32]
    by (simp add: slab_core_def mon_wf_def good_size_def slab_example_def)
  then have inv: "slab_inv {0} slab_example (\<lambda>_. []) {}"
    by (simp add: slab_inv_def lists_inv_def)
  show "slab_ok {0} slab_example" "slab_live {0} slab_example = {}"
    using slab_inv_ok [OF inv] by (simp_all add: live_objs_def)
qed

lemma mon_example_page: "fst (pmm_alloc (phys (slab_mon slab_example)) 0) \<noteq> 0"
proof -
  obtain a m where "pmm_alloc phys_example 0 = (a, m)" "a \<noteq> 0"
    by (rule phys_example_alloc)
  moreover have "phys (slab_mon slab_example) = phys_example"
    by (simp add: slab_example_def slab_cache_create_def slab_zero_def mon_example_def)
  ultimately show ?thesis
    by simp
qed

theorem slab_alloc_object_witness:
  "\<exists>a s'. slab_alloc slab_example (Some 0) = Some (a, s') \<and> a \<noteq> 0 \<and> slab_ok {0} s' \<and> slab_live {0} s' = {a}"
  using slab_alloc_object [OF slab_example_ok(1), of 0] mon_example_page slab_example_ok(2) by (fastforce split: if_splits)


text \<open>The cache of 2048-byte objects hands out memory that is in use. A slab of it holds one
  object; \<open>slab_alloc\<close> takes it and leaves the slab, with nothing free, on the partial list. The
  next call takes the head of the empty free list for an object and returns its address, 40
  bytes into the page: the object covers part of the slab's header and of the first object.\<close>

lemma slab_alloc_2048_overlaps:
  "\<exists>p s1 s2. slab_alloc (snd (slab_cache_create slab_zero (Some 6) 2048)) (Some 6) = Some (p + 56, s1) \<and>
     slab_alloc s1 (Some 6) = Some (p + 40, s2)"
proof -
  let ?s = "snd (slab_cache_create slab_zero (Some 6) 2048)"
  have s: "slab_links ?s = slab_links slab_zero" "object_size (caches ?s 6) = 2048" "slab_mon ?s = mon_example"
    by (simp add: cache_create_links) (simp_all add: slab_cache_create_def slab_zero_def)
  obtain a m where "pmm_alloc phys_example 0 = (a, m)" and a: "a \<noteq> 0"
    by (rule phys_example_alloc)
  then obtain m' where al: "monitor_pmm_alloc (slab_mon ?s) 0 = Some (a, m')"
    by (simp add: s(3) monitor_pmm_alloc_eq) (simp add: mon_example_def)
  obtain q s1 where new: "slab_new ?s 6 = Some (q, s1)"
    by (cases "slab_new ?s 6") (auto simp: slab_new_def al Let_def split: if_splits)
  note e = slab_new_eq [OF al new]
  have h: "nxt (slab_links slab_zero) = (\<lambda>x. x)" "prv (slab_links slab_zero) = (\<lambda>x. x)"
    by (simp_all add: slab_zero_def)
  have "slab_objs a 2048 = [a + 56]"
    by (simp add: slab_objs_def)
  then have l1: "slab_links s1 = list_push_back (slab_links slab_zero) (FreeList a) (Obj (a + 56))"
    using e(5) [OF a] s by (simp add: list_init_zero)
  have n1: "nxt (slab_links s1) (FreeList a) = Obj (a + 56)"
    by (simp add: l1 list_push_back_def h)
  let ?t = "take_object s1 6 a (Obj (a + 56))"
  let ?u = "set_slab_links ?t (list_push_front (slab_links ?t) (CPartial 6) (SlabNode a))"
  have "slab_alloc ?s (Some 6) = Some (a + 56, ?u)"
    using new e(1) a n1 by (simp add: slab_alloc_def s(1) list_empty_def h Let_def)
  moreover have "nxt (slab_links ?u) (CPartial 6) = SlabNode a" "nxt (slab_links ?u) (FreeList a) = FreeList a"
    by (simp_all add: l1 list_push_front_def list_remove_def list_push_back_def h)
  then have "\<exists>s2. slab_alloc ?u (Some 6) = Some (a + 40, s2)"
    by (simp add: slab_alloc_def list_empty_def Let_def)
  ultimately show ?thesis
    by blast
qed

end
