(* ===== verification/Object_Cache.thy ===== *)
theory Object_Cache
  imports Slab_Props
begin

text \<open>
  What the kernel's components rely on when they keep their structures in a slab cache, as the
  interface \<open>object_cache\<close>, and its interpretation on \<open>slab_alloc\<close> and \<open>slab_free\<close> for every
  cache of a well-formed slab allocator. The threads, the kernel mappings and the address
  spaces use it.
\<close>

section \<open>The interface\<close>

locale object_cache =
  fixes ok :: "'s \<Rightarrow> bool"
    and live :: "'s \<Rightarrow> u64 set"
    and alloc :: "'s \<Rightarrow> (u64 \<times> 's) option"
    and release :: "'s \<Rightarrow> u64 \<Rightarrow> 's"
  assumes alloc_returns: "ok s \<Longrightarrow> \<exists>a s'. alloc s = Some (a, s')"
    and alloc_ok: "ok s \<Longrightarrow> alloc s = Some (a, s') \<Longrightarrow> ok s'"
    and alloc_null: "ok s \<Longrightarrow> alloc s = Some (0, s') \<Longrightarrow> live s' = live s"
    and alloc_new: "ok s \<Longrightarrow> alloc s = Some (a, s') \<Longrightarrow> a \<noteq> 0 \<Longrightarrow> a \<notin> live s \<and> live s' = insert a (live s)"
    and live_nonnull: "ok s \<Longrightarrow> 0 \<notin> live s"
    and release_live: "ok s \<Longrightarrow> a \<in> live s \<Longrightarrow> ok (release s a) \<and> live (release s a) = live s - {a}"
begin

text \<open>An allocation that is given back leaves the objects in use as they were.\<close>

lemma alloc_release:
  assumes "ok s" "alloc s = Some (a, s')" "a \<noteq> 0"
  shows "ok (release s' a) \<and> live (release s' a) = live s"
  using release_live [OF alloc_ok [OF assms(1,2)], of a] alloc_new [OF assms] by auto

lemma alloc_keeps: "ok s \<Longrightarrow> alloc s = Some (a, s') \<Longrightarrow> live s \<subseteq> live s'"
  using alloc_null alloc_new by (cases "a = 0") auto

lemma alloc_twice:
  assumes "ok s" "alloc s = Some (a, t)" "a \<noteq> 0" "alloc t = Some (b, u)" "b \<noteq> 0"
  shows "a \<noteq> b"
  using alloc_new [OF assms(1-3)] alloc_new [OF alloc_ok [OF assms(1,2)] assms(4,5)] by auto

end

section \<open>What an allocation leaves alone\<close>

lemma pmm_alloc_sub:
  assumes "pmm_inv (pmm m)" "pmm_alloc m x = (a, m')"
  shows "free_frames (pmm m') \<subseteq> free_frames (pmm m)" "allocs (pmm m) \<subseteq> allocs (pmm m')"
  using pmm_alloc_none [OF assms(1), of x] pmm_alloc_correct(4,5) [OF assms(1) _ _ assms(2)] assms(2)
  by (cases "x \<le> MAX_ORDER \<and> has_free (pmm m) x"; auto)+

lemma pmm_alloc_null_full:
  assumes "pmm_inv (pmm m)" "0 \<notin> free_frames (pmm m)" "pmm_alloc m x = (0, m')"
  shows "MAX_ORDER < x \<or> \<not> has_free (pmm m) x"
proof (rule ccontr)
  assume "\<not> ?thesis"
  then have "frames 0 x \<subseteq> free_frames (pmm m)"
    using pmm_alloc_correct(3) [OF assms(1) _ _ assms(3)] by simp
  then show False
    using assms(2) by (auto simp: frames_def page_no_def subset_iff)
qed

lemma monitor_pmm_alloc_phys: "monitor_pmm_alloc m x = Some (p, m') \<Longrightarrow> pmm_alloc (phys m) (unat x) = (p, phys m')"
  by (auto simp: monitor_pmm_alloc_eq)

lemma take_object_mon [simp]: "slab_mon (take_object s c p n) = slab_mon s"
  "slab_mon (move_slab s p x) = slab_mon s" "slab_mon (set_slab_links s h) = slab_mon s"
  by (simp_all add: take_object_def move_slab_def set_slab_links_def)

lemma slab_alloc_frame:
  assumes "slab_alloc s (Some c) = Some (a, s')"
  obtains (old) "slab_mon s' = slab_mon s" "slab_cache_ptr s' = slab_cache_ptr s"
    | (new) p where "list_empty (slab_links s) (CPartial c)" "list_empty (slab_links s) (CFree c)"
      "monitor_pmm_alloc (slab_mon s) 0 = Some (p, slab_mon s')"
      "slab_cache_ptr s' = (if p = 0 then slab_cache_ptr s else (slab_cache_ptr s)(p := Some c))"
proof (cases "list_empty (slab_links s) (CPartial c) \<and> list_empty (slab_links s) (CFree c)")
  case True
  obtain q s1 where nw: "slab_new s c = Some (q, s1)"
    using True assms by (cases "slab_new s c") (auto simp: slab_alloc_def)
  obtain p m where al: "monitor_pmm_alloc (slab_mon s) 0 = Some (p, m)"
    using nw by (cases "monitor_pmm_alloc (slab_mon s) 0") (auto simp: slab_new_def)
  note e = slab_new_eq [OF al nw]
  have "slab_mon s' = m" "slab_cache_ptr s' = slab_cache_ptr s1"
    using True assms nw e(1,2) by (auto simp: slab_alloc_def Let_def split: if_splits)
  then show thesis
    using e(4,5) True by (intro new [of p]) (simp_all add: al)
next
  case False
  then show thesis
    using assms by (intro old) (auto simp: slab_alloc_def Let_def split: if_splits)
qed

lemma slab_ok_inv: "slab_ok C s \<Longrightarrow> slab_core C s (cells_on s) (slab_pages C s)" "slab_ok C s \<Longrightarrow> pmm_inv (pmm (phys (slab_mon s)))"
  "slab_ok C s \<Longrightarrow> p \<in> slab_pages C s \<Longrightarrow> (p, 0) \<in> allocs (pmm (phys (slab_mon s)))"
  using slab_coreD(1,6) by (force simp: slab_ok_def slab_inv_def cache_slab_def)+

lemma slab_live_page:
  assumes "slab_ok C s" "a \<in> slab_live C s"
  shows "page_down a \<in> slab_pages C s" "\<exists>c\<in>C. slab_cache_ptr s (page_down a) = Some c" "a \<noteq> 0"
proof -
  obtain c i where c: "page_down a \<in> slab_pages C s" "c \<in> C" "slab_cache_ptr s (page_down a) = Some c"
      "unat a = unat (page_down a) + 56 + i * obj_size s a"
    by (rule live_objE [OF slab_ok_inv(1) [OF assms(1)] assms(2) [unfolded slab_live_def]])
  then show "page_down a \<in> slab_pages C s" "\<exists>c\<in>C. slab_cache_ptr s (page_down a) = Some c" "a \<noteq> 0"
    by auto
qed

lemma slab_alloc_ptr:
  assumes ok: "slab_ok C s" and al: "slab_alloc s (Some c) = Some (a, s')" and b: "b \<in> slab_live C s"
  shows "slab_cache_ptr s' (page_down b) = slab_cache_ptr s (page_down b)"
  using al
proof (cases rule: slab_alloc_frame)
  case (new p)
  have "(page_down b, 0) \<in> allocs (pmm (phys (slab_mon s)))"
    by (rule slab_ok_inv(3) [OF ok slab_live_page(1) [OF ok b]])
  then show ?thesis
    using new(4) monitor_pmm_alloc_page(3) [OF slab_ok_inv(2) [OF ok] new(3)] by auto
qed simp

text \<open>The pages an allocation takes from the page allocator are slabs.\<close>

lemma slab_alloc_pages:
  assumes ok: "slab_ok C s" and c: "c \<in> C" and al: "slab_alloc s (Some c) = Some (a, s')"
  shows "allocs (pmm (phys (slab_mon s))) \<subseteq> allocs (pmm (phys (slab_mon s')))"
    "free_frames (pmm (phys (slab_mon s'))) \<subseteq> free_frames (pmm (phys (slab_mon s)))"
    "0 \<notin> free_frames (pmm (phys (slab_mon s))) \<Longrightarrow>
      allocs (pmm (phys (slab_mon s'))) \<subseteq> allocs (pmm (phys (slab_mon s))) \<union> (\<lambda>p. (p, 0)) ` slab_pages C s'"
proof -
  note I = slab_ok_inv [OF ok]
  have "allocs (pmm (phys (slab_mon s))) \<subseteq> allocs (pmm (phys (slab_mon s'))) \<and>
    free_frames (pmm (phys (slab_mon s'))) \<subseteq> free_frames (pmm (phys (slab_mon s))) \<and>
    (0 \<notin> free_frames (pmm (phys (slab_mon s))) \<longrightarrow>
      allocs (pmm (phys (slab_mon s'))) \<subseteq> allocs (pmm (phys (slab_mon s))) \<union> (\<lambda>p. (p, 0)) ` slab_pages C s')"
    using al
  proof (cases rule: slab_alloc_frame)
    case (new p)
    have e: "the (monitor_pmm_alloc (slab_mon s) 0) = (p, slab_mon s')"
      using new(3) by simp
    have L: "cells_on s (CPartial c) = []" "cells_on s (CFree c) = []"
      using lh.repr_is_empty [OF slab_coreD(2) [OF I(1)] heads_in(1) [OF c cache_heads_simps(2)]]
        lh.repr_is_empty [OF slab_coreD(2) [OF I(1)] heads_in(1) [OF c cache_heads_simps(3)]] new(1,2) by simp_all
    have "pmm_alloc (phys (slab_mon s)) 0 = (p, phys (slab_mon s'))"
      using monitor_pmm_alloc_phys [OF new(3)] by simp
    note sub = pmm_alloc_sub [OF I(2) this]
    show ?thesis
    proof (cases "p = 0")
      case True
      then show ?thesis
        using sub mpa.alloc_null [OF I(2), of "0"] e by auto
    next
      case False
      have "p \<in> slab_pages C s'"
      proof (rule slab_alloc_new [OF ok [unfolded slab_ok_def] c L new(3)])
        fix a2 s2 L'
        assume "slab_alloc s (Some c) = Some (a2, s2)" "allocated_from C s (cells_on s) (slab_pages C s) c a2 s2 L' (insert p (slab_pages C s))"
        then have "slab_inv C s' L' (insert p (slab_pages C s))"
          using al by (simp add: allocated_from_def)
        then show ?thesis
          using slab_inv_ok(3) by blast
      qed (use False in simp)
      then show ?thesis
        using sub mpa.alloc_block [OF I(2) e False] by auto
    qed
  qed simp
  then show "allocs (pmm (phys (slab_mon s))) \<subseteq> allocs (pmm (phys (slab_mon s')))"
    "free_frames (pmm (phys (slab_mon s'))) \<subseteq> free_frames (pmm (phys (slab_mon s)))"
    "0 \<notin> free_frames (pmm (phys (slab_mon s))) \<Longrightarrow>
      allocs (pmm (phys (slab_mon s'))) \<subseteq> allocs (pmm (phys (slab_mon s))) \<union> (\<lambda>p. (p, 0)) ` slab_pages C s'"
    by blast+
qed

lemma slab_alloc_slabs:
  assumes "slab_ok C s" "c \<in> C" "slab_alloc s (Some c) = Some (a, s')"
  shows "slab_pages C s \<subseteq> slab_pages C s'"
    "p \<in> slab_pages C s' \<Longrightarrow> p \<notin> slab_pages C s \<Longrightarrow> (p, 0) \<notin> allocs (pmm (phys (slab_mon s)))"
proof -
  have "slab_pages C s \<subseteq> slab_pages C s' \<and> (\<forall>p\<in>slab_pages C s' - slab_pages C s. (p, 0) \<notin> allocs (pmm (phys (slab_mon s))))"
    using assms(1) [unfolded slab_ok_def] assms(2)
  proof (cases rule: slab_alloc_inv)
    case (null s1)
    then show ?thesis
      using slab_inv_ok(3) [OF null(3)] assms(3) by simp
  next
    case (some a1 s1 L' pg')
    then have "slab_inv C s' L' pg'"
      using assms(3) by (simp add: allocated_from_def)
    note pg = slab_inv_ok(3) [OF this]
    show ?thesis
      unfolding pg using some(2) by (simp add: allocated_from_def)
  qed
  then show "slab_pages C s \<subseteq> slab_pages C s'"
    "p \<in> slab_pages C s' \<Longrightarrow> p \<notin> slab_pages C s \<Longrightarrow> (p, 0) \<notin> allocs (pmm (phys (slab_mon s)))"
    by blast+
qed

lemma slab_free_mon [simp]: "slab_mon (slab_free s x a) = slab_mon s"
  by (simp add: slab_free_def Let_def split: option.split)

lemma slab_free_slabs:
  assumes ok: "slab_ok C s" and a: "a \<in> slab_live C s" and c: "slab_cache_ptr s (page_down a) = Some c"
  shows "slab_pages C (slab_free s (Some c) a) = slab_pages C s"
proof -
  obtain d i where d: "page_down a \<in> slab_pages C s" "slab_cache_ptr s (page_down a) = Some d"
      "a \<in> set (slab_objs (page_down a) (object_size (caches s d)))" "Obj a \<notin> set (cells_on s (FreeList (page_down a)))"
    by (rule live_objE [OF slab_ok_inv(1) [OF ok] a [unfolded slab_live_def]])
  have "d = c"
    using d(2) c by simp
  obtain L' where "slab_inv C (slab_free s (Some c) a) L' (slab_pages C s)"
    using slab_free_inv [OF ok [unfolded slab_ok_def] d(1) c d(3) [unfolded \<open>d = c\<close>] d(4)] by metis
  then show ?thesis
    by (rule slab_inv_ok(3))
qed

section \<open>The caches as providers\<close>

text \<open>The objects in use of one cache.\<close>

definition cache_live :: "nat set \<Rightarrow> nat \<Rightarrow> slab_state \<Rightarrow> u64 set" where
  "cache_live C c s = {a \<in> slab_live C s. slab_cache_ptr s (page_down a) = Some c}"

lemma slab_free_ptr: "slab_cache_ptr (slab_free s (Some c) a) = slab_cache_ptr s"
  by (simp add: slab_free_def Let_def)

interpretation oc: object_cache "\<lambda>s. slab_ok C s \<and> c \<in> C" "cache_live C c" "\<lambda>s. slab_alloc s (Some c)"
  "\<lambda>s. slab_free s (Some c)" for C c
proof
  fix s s' :: slab_state and a :: u64
  assume ok: "slab_ok C s \<and> c \<in> C"
  note sp = slab_alloc_spec [OF conjunct1 [OF ok] conjunct2 [OF ok]]
  show "\<exists>a s'. slab_alloc s (Some c) = Some (a, s')"
    using sp by blast
  show "0 \<notin> cache_live C c s"
    using slab_live_page(3) ok by (auto simp: cache_live_def)
  show "slab_ok C s' \<and> c \<in> C" if "slab_alloc s (Some c) = Some (a, s')"
    using sp that ok by auto
  show "cache_live C c s' = cache_live C c s" if "slab_alloc s (Some c) = Some (0, s')"
    using sp that slab_alloc_ptr [OF conjunct1 [OF ok] that] by (auto simp: cache_live_def)
  show "a \<notin> cache_live C c s \<and> cache_live C c s' = insert a (cache_live C c s)"
    if "slab_alloc s (Some c) = Some (a, s')" "a \<noteq> 0"
    using sp that slab_alloc_ptr [OF conjunct1 [OF ok] that(1)] by (auto simp: cache_live_def)
  show "(slab_ok C (slab_free s (Some c) a) \<and> c \<in> C) \<and> cache_live C c (slab_free s (Some c) a) = cache_live C c s - {a}"
    if "a \<in> cache_live C c s"
    using slab_free_spec [of C s a c] that ok by (auto simp: cache_live_def slab_free_ptr)
qed

text \<open>Taking and giving back pages outside the slabs.\<close>

lemma slab_ok_mon:
  assumes ok: "slab_ok C s" and inv: "pmm_inv (pmm (phys m))"
    and pg: "\<And>p. p \<in> slab_pages C s \<Longrightarrow> (p, 0) \<in> allocs (pmm (phys m))"
  shows "slab_ok C (s\<lparr>slab_mon := m\<rparr>)" "slab_live C (s\<lparr>slab_mon := m\<rparr>) = slab_live C s"
    "slab_pages C (s\<lparr>slab_mon := m\<rparr>) = slab_pages C s" "cache_live C c (s\<lparr>slab_mon := m\<rparr>) = cache_live C c s"
proof -
  have "slab_core C (s\<lparr>slab_mon := m\<rparr>) (cells_on s) (slab_pages C s)"
    by (rule core_mon_pages [OF slab_ok_inv(1) [OF ok] inv pg])
  moreover have "lists_inv C (s\<lparr>slab_mon := m\<rparr>) (cells_on s) (slab_pages C s)"
    using ok by (simp add: slab_ok_def slab_inv_def lists_inv_def placed_def)
  ultimately have "slab_inv C (s\<lparr>slab_mon := m\<rparr>) (cells_on s) (slab_pages C s)"
    by (simp add: slab_inv_def)
  note r = slab_inv_ok [OF this]
  show "slab_ok C (s\<lparr>slab_mon := m\<rparr>)" "slab_live C (s\<lparr>slab_mon := m\<rparr>) = slab_live C s"
    "slab_pages C (s\<lparr>slab_mon := m\<rparr>) = slab_pages C s"
    using r by (simp_all add: slab_live_def live_objs_def)
  then show "cache_live C c (s\<lparr>slab_mon := m\<rparr>) = cache_live C c s"
    by (simp add: cache_live_def)
qed

text \<open>The first cache over the monitor's example state.\<close>

lemma slab_create_zero_ok:
  assumes "slab_cache_create slab_zero (Some c) z = (0, s)" "good_size z"
  shows "slab_ok {c} s" "slab_live {c} s = {}" "slab_mon s = mon_example" "object_size (caches s c) = z"
proof -
  have "slab_links s = slab_links slab_zero"
    using cache_create_links [of c z] assms(1) by simp
  moreover show m: "slab_mon s = mon_example" "object_size (caches s c) = z"
    using assms(1) by (auto simp: slab_cache_create_def slab_zero_def Let_def split: if_splits)
  ultimately have "slab_core {c} s (\<lambda>_. []) {}"
    using mon_example_wf slab_zero_rings assms(2) by (simp add: slab_core_def mon_wf_def)
  then have inv: "slab_inv {c} s (\<lambda>_. []) {}"
    by (simp add: slab_inv_def lists_inv_def)
  show "slab_ok {c} s" "slab_live {c} s = {}"
    using slab_inv_ok [OF inv] by (simp_all add: live_objs_def)
qed

lemma slab_alloc_example:
  assumes ok: "slab_ok C s" "c \<in> C" and ph: "phys (slab_mon s) = phys_example" and al: "slab_alloc s (Some c) = Some (u, s')"
  shows "u \<noteq> 0" "fst (pmm_alloc (phys (slab_mon s')) 0) \<noteq> 0"
proof -
  obtain p m where p: "pmm_alloc phys_example 0 = (p, m)" "p \<noteq> 0"
    by (rule phys_example_alloc)
  show "u \<noteq> 0"
    using slab_alloc_spec [OF ok] al p by (auto simp: ph split: if_splits)
  have pc: "free_frames (pmm m) = {1024..<1536} - frames p 0"
    using pmm_alloc_correct(6) [OF phys_example_facts(1) _ phys_example_facts(2) p(1)] phys_example_facts(3,4) by simp
  have "free_frames (pmm (phys (slab_mon s'))) \<noteq> {}"
    using al
  proof (cases rule: slab_alloc_frame)
    case (new q)
    have "phys (slab_mon s') = m"
      using monitor_pmm_alloc_phys [OF new(3)] p(1) by (simp add: ph)
    moreover have "1024 \<in> {1024..<1536} - frames p 0 \<or> 1025 \<in> {1024..<1536} - frames p 0"
      by (auto simp: frames_def)
    ultimately show ?thesis
      using pc by blast
  qed (simp add: ph phys_example_facts(4))
  note hf = has_free_0 [OF this]
  have z: "0 \<notin> free_frames (pmm (phys (slab_mon s')))"
    using slab_alloc_pages(2) [OF ok al] by (auto simp: ph phys_example_facts(4))
  have "slab_ok C s'"
    using slab_alloc_spec [OF ok] al by auto
  from pmm_alloc_null_full [OF slab_ok_inv(2) [OF this] z, of 0] hf
  show "fst (pmm_alloc (phys (slab_mon s')) 0) \<noteq> 0"
    by (cases "pmm_alloc (phys (slab_mon s')) 0") auto
qed

end
