(* ===== verification/Context.thy ===== *)
theory Context
  imports EK_Prelude
begin

text \<open>
  The context switch, \<^verbatim>\<open>src/arch/x86_64/context.S\<close>, and the register contexts it saves and loads,
  \<^verbatim>\<open>src/arch/x86_64/include/cpu_context.h\<close>. A machine has the registers and a memory of 64-bit words
  by address; the instructions of \<open>context_switch\<close> are performed one after the other.
\<close>

section \<open>Registers, contexts and the switch\<close>

record cpu_context =
  r15 :: u64
  r14 :: u64
  r13 :: u64
  r12 :: u64
  r11 :: u64
  r10 :: u64
  r9 :: u64
  r8 :: u64
  rbp :: u64
  rdi :: u64
  rsi :: u64
  rdx :: u64
  rcx :: u64
  rbx :: u64
  rax :: u64
  rip :: u64
  rsp :: u64
  rflags :: u64

abbreviation RFLAGS_IF :: u64 where "RFLAGS_IF \<equiv> 0x200"

definition arch_context_init :: "u64 \<Rightarrow> u64 \<Rightarrow> u64 \<Rightarrow> cpu_context" where
  "arch_context_init stack_top entry_point flags =
     \<lparr>r15 = 0, r14 = 0, r13 = 0, r12 = 0, r11 = 0, r10 = 0, r9 = 0, r8 = 0, rbp = stack_top,
      rdi = 0, rsi = 0, rdx = 0, rcx = 0, rbx = 0, rax = 0, rip = entry_point, rsp = stack_top, rflags = flags\<rparr>"

text \<open>A context in memory: word \<open>k\<close> is at offset \<open>8 * k\<close>.\<close>

definition ctx_at :: "(u64 \<Rightarrow> u64) \<Rightarrow> u64 \<Rightarrow> cpu_context" where
  "ctx_at m a =
     \<lparr>r15 = m a, r14 = m (a + 8), r13 = m (a + 16), r12 = m (a + 24), r11 = m (a + 32), r10 = m (a + 40),
      r9 = m (a + 48), r8 = m (a + 56), rbp = m (a + 64), rdi = m (a + 72), rsi = m (a + 80), rdx = m (a + 88),
      rcx = m (a + 96), rbx = m (a + 104), rax = m (a + 112), rip = m (a + 120), rsp = m (a + 128),
      rflags = m (a + 136)\<rparr>"

text \<open>The first part: the registers of the caller go to the context \<open>rdi\<close> points to. The flags
  pass through the stack.\<close>

primrec store_words :: "(u64 \<Rightarrow> u64) \<Rightarrow> u64 \<Rightarrow> (u64 \<times> u64) list \<Rightarrow> u64 \<Rightarrow> u64" where
  "store_words m p [] = m"
| "store_words m p (w # ws) = store_words (m(p + fst w := snd w)) p ws"

definition reg_words :: "cpu_context \<Rightarrow> (u64 \<times> u64) list" where
  "reg_words c =
     [(0, r15 c), (8, r14 c), (16, r13 c), (24, r12 c), (32, r11 c), (40, r10 c), (48, r9 c),
      (56, r8 c), (64, rbp c), (72, rdi c), (80, rsi c), (88, rdx c), (96, rcx c), (104, rbx c), (112, rax c)]"

definition save_context :: "(u64 \<Rightarrow> u64) \<Rightarrow> cpu_context \<Rightarrow> u64 \<Rightarrow> u64" where
  "save_context m c =
     (let p = rdi c;
          m = store_words m p (reg_words c);
          m = store_words m p [(120, m (rsp c))];
          m = store_words m p [(128, rsp c + 8)];
          m = m(rsp c - 8 := rflags c)
      in store_words m p [(136, m (rsp c - 8))])"

text \<open>The second part: the registers are loaded from the context \<open>rsi\<close> points to, then \<open>rsp\<close> from
  the word below the address in the new \<open>rsi\<close>, and \<open>ret\<close> pops \<open>rip\<close>. \<open>rip\<close> in the argument is not
  used.\<close>

definition restore_context :: "(u64 \<Rightarrow> u64) \<Rightarrow> cpu_context \<Rightarrow> (u64 \<Rightarrow> u64) \<times> cpu_context" where
  "restore_context m c =
     (let n = rsi c;
          c = c\<lparr>r15 := m n, r14 := m (n + 8), r13 := m (n + 16), r12 := m (n + 24)\<rparr>;
          c = c\<lparr>r11 := m (n + 32), r10 := m (n + 40), r9 := m (n + 48), r8 := m (n + 56), rbp := m (n + 64)\<rparr>;
          c = c\<lparr>rdx := m (n + 88), rcx := m (n + 96), rbx := m (n + 104), rax := m (n + 112)\<rparr>;
          m = m(rsp c - 8 := m (n + 136));
          c = c\<lparr>rflags := m (rsp c - 8)\<rparr>;
          c = c\<lparr>rdi := m (n + 72)\<rparr>;
          c = c\<lparr>rsi := m (n + 80)\<rparr>;
          c = c\<lparr>rsp := m (rsi c - 8)\<rparr>
      in (m, c\<lparr>rip := m (rsp c), rsp := rsp c + 8\<rparr>))"

definition context_switch :: "(u64 \<Rightarrow> u64) \<Rightarrow> cpu_context \<Rightarrow> (u64 \<Rightarrow> u64) \<times> cpu_context" where
  "context_switch m c = restore_context (save_context m c) c"

section \<open>What it saves and what it loads\<close>

definition ctx_offsets :: "u64 set" where
  "ctx_offsets = {0, 8, 16, 24, 32, 40, 48, 56, 64, 72, 80, 88, 96, 104, 112, 120, 128, 136}"

definition ctx_words :: "u64 \<Rightarrow> u64 set" where
  "ctx_words a = (\<lambda>k. a + k) ` ctx_offsets"

text \<open>The two contexts and the words of the stack around \<open>rsp\<close> do not overlap.\<close>

definition switch_apart :: "cpu_context \<Rightarrow> bool" where
  "switch_apart c \<longleftrightarrow> ctx_words (rdi c) \<inter> ctx_words (rsi c) = {} \<and>
     rsp c \<notin> ctx_words (rdi c) \<and> rsp c - 8 \<notin> ctx_words (rdi c) \<and> rsp c - 8 \<notin> ctx_words (rsi c)"

lemma ctx_words_offset: "k \<in> ctx_offsets \<Longrightarrow> x \<notin> ctx_words p \<Longrightarrow> p + k \<noteq> x"
  unfolding ctx_words_def by blast

lemma store_words_at:
  "store_words m p ws (p + k) = (case map_of (rev ws) k of None \<Rightarrow> m (p + k) | Some v \<Rightarrow> v)"
  by (induction ws arbitrary: m) (auto split: option.splits simp: map_add_def)

lemma store_words_other: "a \<notin> (\<lambda>w. p + fst w) ` set ws \<Longrightarrow> store_words m p ws a = m a"
  by (induction ws arbitrary: m) auto

declare store_words.simps [simp del]

lemma reg_words_offsets: "fst ` set (reg_words c) \<subseteq> ctx_offsets"
  by (simp add: reg_words_def ctx_offsets_def)

lemma ctx_offsets_mem [simp]:
  "0 \<in> ctx_offsets" "8 \<in> ctx_offsets" "16 \<in> ctx_offsets" "24 \<in> ctx_offsets" "32 \<in> ctx_offsets" "40 \<in> ctx_offsets"
  "48 \<in> ctx_offsets" "56 \<in> ctx_offsets" "64 \<in> ctx_offsets" "72 \<in> ctx_offsets" "80 \<in> ctx_offsets" "88 \<in> ctx_offsets"
  "96 \<in> ctx_offsets" "104 \<in> ctx_offsets" "112 \<in> ctx_offsets" "120 \<in> ctx_offsets" "128 \<in> ctx_offsets" "136 \<in> ctx_offsets"
  by (simp_all add: ctx_offsets_def)

lemma save_context_saves:
  assumes "switch_apart c"
  shows "ctx_at (save_context m c) (rdi c) = c\<lparr>rip := m (rsp c), rsp := rsp c + 8\<rparr>"
proof -
  let ?p = "rdi c" and ?x = "rsp c - 8"
  have s: "store_words m ?p (reg_words c) (rsp c) = m (rsp c)"
    using assms reg_words_offsets [of c] by (intro store_words_other) (auto simp: switch_apart_def ctx_words_def)
  have at: "save_context m c (?p + k) =
      (if k = 136 then rflags c else if k = 128 then rsp c + 8 else if k = 120 then m (rsp c)
       else case map_of (rev (reg_words c)) k of None \<Rightarrow> m (?p + k) | Some v \<Rightarrow> v)" if "k \<in> ctx_offsets" for k
  proof -
    have "?p + k \<noteq> ?x"
      using assms that by (intro ctx_words_offset) (auto simp: switch_apart_def)
    then show ?thesis
      using s unfolding save_context_def Let_def by (simp add: store_words_at)
  qed
  have at0: "save_context m c ?p = r15 c"
    using at [of 0] by (simp add: reg_words_def)
  show ?thesis
    unfolding ctx_at_def
    by (intro cpu_context.equality) (simp_all only: at0 at ctx_offsets_mem, simp_all add: reg_words_def)
qed

lemma save_context_frame:
  assumes "a \<notin> ctx_words (rdi c)" "a \<noteq> rsp c - 8"
  shows "save_context m c a = m a"
proof -
  have "a \<noteq> rdi c + k" if "k \<in> ctx_offsets" for k
    using ctx_words_offset [OF that assms(1)] by simp
  then have g: "store_words m' (rdi c) ws a = m' a" if "fst ` set ws \<subseteq> ctx_offsets" for m' ws
    using that by (intro store_words_other) auto
  show ?thesis
    using assms(2) unfolding save_context_def Let_def by (simp add: g reg_words_offsets)
qed

lemma restore_context_step:
  assumes "m2 = m(rsp c - 8 := m (rsi c + 136))"
  shows "restore_context m c =
    (m2, (ctx_at m (rsi c))\<lparr>rflags := m2 (rsp c - 8), rdi := m2 (rsi c + 72), rsi := m2 (rsi c + 80),
      rip := m2 (m2 (m2 (rsi c + 80) - 8)), rsp := m2 (m2 (rsi c + 80) - 8) + 8\<rparr>)"
  unfolding restore_context_def Let_def ctx_at_def
  by (simp del: fun_upd_apply add: assms [symmetric])

lemma restore_context_eq:
  assumes "rsp c - 8 \<notin> ctx_words (rsi c)" "restore_context m c = (m', c')"
  shows "m' = m(rsp c - 8 := m (rsi c + 136))"
    "c' = (ctx_at m (rsi c))\<lparr>rip := m' (m' (rsi (ctx_at m (rsi c)) - 8)), rsp := m' (rsi (ctx_at m (rsi c)) - 8) + 8\<rparr>"
proof -
  define m2 where m2: "m2 = m(rsp c - 8 := m (rsi c + 136))"
  have k: "m2 (rsi c + k) = m (rsi c + k)" if "k \<in> ctx_offsets" for k
    using ctx_words_offset [OF that assms(1)] by (simp only: m2 fun_upd_apply if_False)
  have fl: "m2 (rsp c - 8) = m (rsi c + 136)"
    by (simp only: m2 fun_upd_same)
  have e: "m' = m2" "c' = (ctx_at m (rsi c))\<lparr>rflags := m (rsi c + 136), rdi := m (rsi c + 72), rsi := m (rsi c + 80),
      rip := m2 (m2 (m (rsi c + 80) - 8)), rsp := m2 (m (rsi c + 80) - 8) + 8\<rparr>"
    using assms(2) unfolding restore_context_step [OF m2] by (auto simp: k fl)
  show "m' = m(rsp c - 8 := m (rsi c + 136))"
    using e(1) m2 by simp
  show "c' = (ctx_at m (rsi c))\<lparr>rip := m' (m' (rsi (ctx_at m (rsi c)) - 8)), rsp := m' (rsi (ctx_at m (rsi c)) - 8) + 8\<rparr>"
    unfolding e by (simp add: ctx_at_def)
qed

lemma ctx_at_cong: "(\<And>x. x \<in> ctx_words a \<Longrightarrow> m x = m' x) \<Longrightarrow> ctx_at m a = ctx_at m' a"
  unfolding ctx_at_def by (simp add: ctx_words_def ctx_offsets_def)

text \<open>C19: what \<open>context_switch\<close> does. The caller's registers, its return address and its stack pointer
  after the return go to the context it was given. All registers but two are then those of the
  other context. The stack pointer is not: it is loaded from the word below the address that the
  other context holds for \<open>rsi\<close>, and execution continues at the address found on that stack; the
  saved \<open>rsp\<close> and \<open>rip\<close> are never read. For a new thread, whose context has 0 for \<open>rsi\<close>, this is the
  word at address -8, whatever stack the thread was given.\<close>

theorem context_switch_registers:
  assumes "switch_apart c" and "context_switch m c = (m', c')" and "n = ctx_at m (rsi c)"
  shows "ctx_at m' (rdi c) = c\<lparr>rip := m (rsp c), rsp := rsp c + 8\<rparr> \<and>
    c' = n\<lparr>rip := m' (m' (rsi n - 8)), rsp := m' (rsi n - 8) + 8\<rparr> \<and>
    (\<forall>stack entry fl. n = arch_context_init stack entry fl \<longrightarrow> rsp c' = m' (- 8) + 8)"
proof -
  let ?m = "save_context m c"
  have ap: "ctx_words (rdi c) \<inter> ctx_words (rsi c) = {}" "rsp c - 8 \<notin> ctx_words (rdi c)" "rsp c - 8 \<notin> ctx_words (rsi c)"
    using assms(1) by (auto simp: switch_apart_def)
  have n: "ctx_at ?m (rsi c) = n"
    unfolding assms(3) by (rule ctx_at_cong, rule save_context_frame) (use ap in auto)
  have r: "restore_context ?m c = (m', c')"
    using assms(2) by (simp add: context_switch_def)
  note e = restore_context_eq [OF ap(3) r, unfolded n]
  have "ctx_at m' (rdi c) = ctx_at ?m (rdi c)"
    by (rule ctx_at_cong) (use ap(2) e(1) in auto)
  then show ?thesis
    using save_context_saves [OF assms(1)] e(2) by (auto simp: arch_context_init_def)
qed

text \<open>A switch from a context at \<open>0x1000\<close> to a new thread's at \<open>0x2000\<close> on the stack at \<open>0x8000\<close>.\<close>

definition switch_example :: cpu_context where
  "switch_example = (arch_context_init 0x8000 0x400000 RFLAGS_IF)\<lparr>rdi := 0x1000, rsi := 0x2000\<rparr>"

theorem context_switch_registers_witness:
  "\<exists>m' c'. context_switch (\<lambda>_. 0) switch_example = (m', c') \<and> rsp c' = m' (- 8) + 8"
proof -
  obtain m' c' where e: "context_switch (\<lambda>_. 0) switch_example = (m', c')"
    by (cases "context_switch (\<lambda>_. 0) switch_example")
  have "switch_apart switch_example"
    by (simp add: switch_apart_def ctx_words_def ctx_offsets_def switch_example_def arch_context_init_def)
  moreover have "ctx_at (\<lambda>_. 0) (rsi switch_example) = arch_context_init 0 0 0"
    by (simp add: ctx_at_def arch_context_init_def)
  ultimately show ?thesis
    using context_switch_registers [OF _ e refl] e by blast
qed

end
