(* ===== verification/Thread.thy ===== *)
theory Thread
  imports Object_Cache Context
begin

text \<open>
  Threads, \<^verbatim>\<open>src/kernel/thread.c\<close>: creation and release, and the state the scheduler works on. A
  thread is the address of its structure, an object of the cache \<open>thread_cache\<close>; its fields are a
  record found by that address and its two list links are cells of a list store of their own.
  0 is the null pointer. \<open>None\<close> as a result would be a call that does not return.
\<close>

section \<open>State\<close>

datatype thread_state_t = THREAD_CREATED | THREAD_READY | THREAD_RUNNING | THREAD_BLOCKED | THREAD_TERMINATED

abbreviation THREAD_FLAG_KERNEL :: int where "THREAD_FLAG_KERNEL \<equiv> 1"
abbreviation THREAD_DEFAULT_STACK_SIZE :: u64 where "THREAD_DEFAULT_STACK_SIZE \<equiv> 16384"
abbreviation SMP_MAX_CPUS :: nat where "SMP_MAX_CPUS \<equiv> 4"

text \<open>The fields of \<open>struct thread\<close> other than its two list links.\<close>

record thread =
  thread_state :: thread_state_t
  thread_tid :: int
  thread_flags :: int
  thread_name :: u64
  thread_context :: cpu_context
  kernel_stack :: u64
  kernel_stack_size :: u64
  entry_func :: u64
  entry_arg :: u64
  thread_cpu :: int
  thread_ticks :: u64
  thread_process :: u64
  thread_as :: u64
  user_stack :: u64
  user_stack_size :: u64
  user_rsp :: u64

text \<open>All bytes 0, as \<open>memset\<close> leaves the structure.\<close>

definition thread_zero :: thread where
  "thread_zero =
     \<lparr>thread_state = THREAD_CREATED, thread_tid = 0, thread_flags = 0, thread_name = 0,
      thread_context = arch_context_init 0 0 0, kernel_stack = 0, kernel_stack_size = 0, entry_func = 0,
      entry_arg = 0, thread_cpu = 0, thread_ticks = 0, thread_process = 0, thread_as = 0, user_stack = 0,
      user_stack_size = 0, user_rsp = 0\<rparr>"

text \<open>The cells: the heads of the run queue and of the list of all threads, and the links
  \<open>run_list\<close> and \<open>all_list\<close> of a thread.\<close>

datatype thread_node = RunQueue | AllThreads | RunLink u64 | AllLink u64

text \<open>The variables of \<^verbatim>\<open>thread.c\<close> and \<^verbatim>\<open>scheduler.c\<close>, the current thread in each processor's
  per-CPU area, the variable behind \<open>smp_get_cpu_index\<close>, and the calls of \<open>context_switch\<close> with their
  arguments, the latest first. Signed counters are integers: their overflow is undefined in C.\<close>

record thread_sys =
  thr_slab :: slab_state
  thr_links :: "thread_node list_store"
  threads :: "u64 \<Rightarrow> thread"
  thread_cache :: "nat option"
  next_tid :: int
  nr_total_threads :: u64
  nr_active_threads :: u64
  nr_running :: int
  idle_threads :: "nat \<Rightarrow> u64"
  scheduler_tick_counter :: u64
  current_thread :: "nat \<Rightarrow> u64"
  current_cpu_index :: nat
  switches :: "(u64 \<times> u64) list"
  interrupts_on :: bool

text \<open>Addresses the linker and the stack give: the assembly entry point, the idle loop, and the
  buffer \<open>name\<close> in the frame of \<open>scheduler_init\<close>.\<close>

record kernel_syms =
  thread_entry_wrapper :: u64
  idle_thread_func :: u64
  idle_name_buf :: u64

definition upd_thread :: "u64 \<Rightarrow> (thread \<Rightarrow> thread) \<Rightarrow> thread_sys \<Rightarrow> thread_sys" where
  "upd_thread t f S = S\<lparr>threads := (threads S)(t := f (threads S t))\<rparr>"

definition thr_phys :: "thread_sys \<Rightarrow> phys_state" where
  "thr_phys S = phys (slab_mon (thr_slab S))"

definition set_thr_phys :: "thread_sys \<Rightarrow> phys_state \<Rightarrow> thread_sys" where
  "set_thr_phys S m =
     S\<lparr>thr_slab := (thr_slab S)\<lparr>slab_mon := (slab_mon (thr_slab S))\<lparr>phys := m\<rparr>\<rparr>\<rparr>"

section \<open>Operations\<close>

text \<open>The cache of \<open>thread_init\<close> is number 8.\<close>

abbreviation THREAD_CACHE :: nat where "THREAD_CACHE \<equiv> 8"

definition thread_init :: "thread_sys \<Rightarrow> thread_sys" where
  "thread_init S =
     (let (r, s) = slab_cache_create (thr_slab S) (Some THREAD_CACHE) 512;
          S = S\<lparr>thr_slab := s\<rparr>
      in if r < 0 then S
         else S\<lparr>thread_cache := Some THREAD_CACHE, thr_links := list_init (thr_links S) AllThreads,
                nr_total_threads := 0, nr_active_threads := 0\<rparr>)"

text \<open>The loop that rounds a number of pages up to an order; the number is below \<open>2 ^ 52\<close>, so
  \<open>1UL << order\<close> does not overflow.\<close>

function stack_order :: "nat \<Rightarrow> nat \<Rightarrow> nat" where
  "stack_order pages ord = (if 2 ^ ord < pages then stack_order pages (ord + 1) else ord)"
  by auto
termination
proof (relation "measure (\<lambda>(pages, ord). pages - ord)")
  fix pages ord :: nat
  assume "2 ^ ord < pages"
  moreover have "ord < 2 ^ ord"
    by (rule less_exp)
  ultimately have "ord < pages"
    by linarith
  then show "((pages, ord + 1), (pages, ord)) \<in> measure (\<lambda>(pages, ord). pages - ord)"
    by simp
qed simp

declare stack_order.simps [simp del]

definition thread_create ::
    "kernel_syms \<Rightarrow> thread_sys \<Rightarrow> u64 \<Rightarrow> u64 \<Rightarrow> u64 \<Rightarrow> u64 \<Rightarrow> int \<Rightarrow> (u64 \<times> thread_sys) option" where
  "thread_create sy S name func arg stack_size flags =
     (if name = 0 \<or> func = 0 then Some (0, S)
      else let actual_stack_size = (if stack_size > 0 then stack_size else THREAD_DEFAULT_STACK_SIZE);
               actual_stack_size = page_up actual_stack_size;
               ord = stack_order (unat (actual_stack_size div PAGE_SIZE)) 0
           in Option.bind (slab_alloc (thr_slab S) (thread_cache S)) (\<lambda>(thr, s).
                let S = S\<lparr>thr_slab := s\<rparr>
                in if thr = 0 then Some (0, S)
                   else let S = upd_thread thr (\<lambda>_. thread_zero) S;
                            (stack, m) = pmm_alloc (thr_phys S) ord;
                            S = set_thr_phys S m
                        in if stack = 0 then Some (0, S\<lparr>thr_slab := slab_free (thr_slab S) (thread_cache S) thr\<rparr>)
                           else let tid = next_tid S;
                                    S = S\<lparr>next_tid := next_tid S + 1\<rparr>;
                                    S = upd_thread thr (\<lambda>x. x\<lparr>thread_tid := tid, thread_name := name, entry_func := func,
                                          entry_arg := arg, thread_flags := flags, thread_state := THREAD_CREATED,
                                          thread_cpu := -1, thread_ticks := 0, kernel_stack := stack,
                                          kernel_stack_size := actual_stack_size\<rparr>) S;
                                    S = S\<lparr>thr_links := list_init (list_init (thr_links S) (RunLink thr)) (AllLink thr)\<rparr>;
                                    stack_top = (stack + actual_stack_size) AND NOT 0xF;
                                    S = upd_thread thr (\<lambda>x. x\<lparr>thread_context :=
                                          arch_context_init stack_top (thread_entry_wrapper sy) RFLAGS_IF\<rparr>) S;
                                    S = S\<lparr>thr_links := list_push_back (thr_links S) (AllLink thr) AllThreads,
                                          nr_total_threads := nr_total_threads S + 1\<rparr>
                                in Some (thr, S)))"

definition thread_get_current :: "nat \<Rightarrow> thread_sys \<Rightarrow> u64" where
  "thread_get_current g S = current_thread S g"

definition thread_set_current :: "nat \<Rightarrow> thread_sys \<Rightarrow> u64 \<Rightarrow> thread_sys" where
  "thread_set_current g S t = S\<lparr>current_thread := (current_thread S)(g := t)\<rparr>"

definition thread_destroy :: "thread_sys \<Rightarrow> u64 \<Rightarrow> thread_sys option" where
  "thread_destroy S t =
     (if t = 0 then Some S
      else Option.bind
        (if kernel_stack (threads S t) \<noteq> 0 then
           let pages = kernel_stack_size (threads S t) div PAGE_SIZE;
               ord = stack_order (unat pages) 0
           in map_option (set_thr_phys S) (phys_free (thr_phys S) (kernel_stack (threads S t)) ord)
         else Some S)
        (\<lambda>S. Some (S\<lparr>thr_slab := slab_free (thr_slab S) (thread_cache S) t\<rparr>)))"

definition thread_get_tid :: "thread_sys \<Rightarrow> u64 \<Rightarrow> int" where
  "thread_get_tid S t = (if t \<noteq> 0 then thread_tid (threads S t) else -1)"

definition thread_get_state :: "thread_sys \<Rightarrow> u64 \<Rightarrow> thread_state_t" where
  "thread_get_state S t = (if t \<noteq> 0 then thread_state (threads S t) else THREAD_TERMINATED)"

definition thread_get_name :: "thread_sys \<Rightarrow> u64 \<Rightarrow> u64" where
  "thread_get_name S t = (if t \<noteq> 0 then thread_name (threads S t) else 0)"

section \<open>Orders of stacks\<close>

lemma stack_order_le: "pages \<le> 2 ^ stack_order pages ord"
  by (induction pages ord rule: stack_order.induct) (subst stack_order.simps, auto)

lemma stack_order_least: "(\<And>j. j < ord \<Longrightarrow> 2 ^ j < pages) \<Longrightarrow> j < stack_order pages ord \<Longrightarrow> 2 ^ j < pages"
proof (induction pages ord rule: stack_order.induct)
  case (1 pages ord)
  show ?case
  proof (cases "2 ^ ord < pages")
    case True
    have "2 ^ k < pages" if "k < ord + 1" for k
      using 1(2) True that by (cases "k = ord") auto
    then show ?thesis
      using 1(1) [OF True] 1(3) True by (simp add: stack_order.simps [of pages ord])
  next
    case False
    then show ?thesis
      using 1(2,3) by (simp add: stack_order.simps [of pages ord])
  qed
qed

lemma page_div_mult: "unat z mod 4096 = 0 \<Longrightarrow> unat (z div 4096 :: u64) * 4096 = unat z"
  by (auto simp: unat_div mod_eq_0_iff_dvd)

lemma and_not_15: "unat (a :: u64) mod 16 = 0 \<Longrightarrow> a AND NOT 0xF = a"
  using and_not_eq_minus [of a 15] unat_and_mask [of a 4] by (simp add: mask_eq_exp_minus_1 unat_eq_zero)

section \<open>The invariant of the threads\<close>

text \<open>The block a thread's stack lies in, as its size gives it. Every live thread has a stack of
  its own that is an allocated block and no slab.\<close>

definition stack_block :: "thread_sys \<Rightarrow> u64 \<Rightarrow> u64 \<times> nat" where
  "stack_block S t = (kernel_stack (threads S t), stack_order (unat (kernel_stack_size (threads S t) div PAGE_SIZE)) 0)"

abbreviation live_threads :: "nat set \<Rightarrow> thread_sys \<Rightarrow> u64 set" where
  "live_threads C S \<equiv> cache_live C THREAD_CACHE (thr_slab S)"

abbreviation thr_allocs :: "thread_sys \<Rightarrow> (u64 \<times> nat) set" where
  "thr_allocs S \<equiv> allocs (pmm (thr_phys S))"

definition threads_inv :: "nat set \<Rightarrow> thread_sys \<Rightarrow> bool" where
  "threads_inv C S \<longleftrightarrow> slab_ok C (thr_slab S) \<and> THREAD_CACHE \<in> C \<and> thread_cache S = Some THREAD_CACHE \<and>
     (\<forall>t\<in>live_threads C S. kernel_stack (threads S t) \<noteq> 0 \<and> stack_block S t \<in> thr_allocs S \<and>
        stack_block S t \<notin> (\<lambda>p. (p, 0)) ` slab_pages C (thr_slab S)) \<and>
     inj_on (stack_block S) (live_threads C S)"

lemma threads_invD:
  assumes "threads_inv C S"
  shows "slab_ok C (thr_slab S)" "THREAD_CACHE \<in> C" "thread_cache S = Some THREAD_CACHE"
    "t \<in> live_threads C S \<Longrightarrow> kernel_stack (threads S t) \<noteq> 0"
    "t \<in> live_threads C S \<Longrightarrow> stack_block S t \<in> thr_allocs S"
    "t \<in> live_threads C S \<Longrightarrow> stack_block S t \<notin> (\<lambda>p. (p, 0)) ` slab_pages C (thr_slab S)"
    "inj_on (stack_block S) (live_threads C S)" "pmm_inv (pmm (thr_phys S))"
    "p \<in> slab_pages C (thr_slab S) \<Longrightarrow> (p, 0) \<in> thr_allocs S"
  using assms slab_ok_inv(2,3) by (auto simp: threads_inv_def thr_phys_def)

lemma threads_invI:
  assumes "slab_ok C (thr_slab S)" "THREAD_CACHE \<in> C" "thread_cache S = Some THREAD_CACHE"
    "\<And>t. t \<in> live_threads C S \<Longrightarrow> kernel_stack (threads S t) \<noteq> 0"
    "\<And>t. t \<in> live_threads C S \<Longrightarrow> stack_block S t \<in> thr_allocs S"
    "\<And>t p. t \<in> live_threads C S \<Longrightarrow> p \<in> slab_pages C (thr_slab S) \<Longrightarrow> stack_block S t \<noteq> (p, 0)"
    "inj_on (stack_block S) (live_threads C S)"
  shows "threads_inv C S"
  using assms by (auto simp: threads_inv_def)

text \<open>Only the slab allocator, the cache and the threads' structures matter.\<close>

lemma threads_inv_cong:
  assumes "thr_slab S' = thr_slab S" "thread_cache S' = thread_cache S"
    "\<And>t. kernel_stack (threads S' t) = kernel_stack (threads S t)"
    "\<And>t. kernel_stack_size (threads S' t) = kernel_stack_size (threads S t)"
  shows "threads_inv C S' \<longleftrightarrow> threads_inv C S"
proof -
  have "stack_block S' = stack_block S"
    using assms(3,4) by (simp add: stack_block_def fun_eq_iff)
  then show ?thesis
    using assms by (simp add: threads_inv_def thr_phys_def)
qed

lemma thr_phys_simps [simp]:
  "thr_phys (set_thr_phys S m) = m" "threads (set_thr_phys S m) = threads S" "thread_cache (set_thr_phys S m) = thread_cache S"
  "thr_links (set_thr_phys S m) = thr_links S" "next_tid (set_thr_phys S m) = next_tid S"
  "thr_slab (upd_thread t f S) = thr_slab S" "thread_cache (upd_thread t f S) = thread_cache S"
  "thr_links (upd_thread t f S) = thr_links S" "next_tid (upd_thread t f S) = next_tid S"
  "threads (upd_thread t f S) = (threads S)(t := f (threads S t))" "thr_phys (upd_thread t f S) = thr_phys S"
  by (simp_all add: set_thr_phys_def thr_phys_def upd_thread_def)

text \<open>An operation that keeps the blocks of the threads it does not touch, and gives the one it
  creates a new block, keeps the invariant.\<close>

lemma threads_inv_update:
  assumes inv: "threads_inv C S" and ok: "slab_ok C (thr_slab S')" and ca: "thread_cache S' = thread_cache S"
    and old: "\<And>u. u \<in> live_threads C S' \<Longrightarrow> u \<noteq> t \<Longrightarrow>
      u \<in> live_threads C S \<and> stack_block S' u = stack_block S u \<and> stack_block S u \<in> thr_allocs S'"
    and pg: "\<And>p. p \<in> slab_pages C (thr_slab S') \<Longrightarrow> p \<in> slab_pages C (thr_slab S) \<or> (p, 0) \<notin> thr_allocs S"
    and new: "t \<in> live_threads C S' \<Longrightarrow> kernel_stack (threads S' t) \<noteq> 0 \<and> stack_block S' t \<in> thr_allocs S' \<and>
      stack_block S' t \<notin> thr_allocs S \<and> stack_block S' t \<notin> (\<lambda>p. (p, 0)) ` slab_pages C (thr_slab S')"
  shows "threads_inv C S'"
proof (rule threads_invI [OF ok])
  note D = threads_invD [OF inv]
  show "THREAD_CACHE \<in> C" "thread_cache S' = Some THREAD_CACHE"
    using D(2,3) ca by simp_all
  fix u
  assume u: "u \<in> live_threads C S'"
  show "kernel_stack (threads S' u) \<noteq> 0"
    using old [OF u] new D(4) [of u] u by (cases "u = t") (auto simp: stack_block_def)
  show "stack_block S' u \<in> thr_allocs S'"
    using old [OF u] new u by (cases "u = t") auto
  show "stack_block S' u \<noteq> (p, 0)" if "p \<in> slab_pages C (thr_slab S')" for p
    using old [OF u] new u that pg [OF that] D(5,6) [of u] by (cases "u = t") auto
next
  note D = threads_invD [OF inv]
  show "inj_on (stack_block S') (live_threads C S')"
  proof (rule inj_onI)
    fix u v
    assume uv: "u \<in> live_threads C S'" "v \<in> live_threads C S'" "stack_block S' u = stack_block S' v"
    show "u = v"
      using uv old [OF uv(1)] old [OF uv(2)] new D(5) [of u] D(5) [of v] inj_onD [OF D(7), of u v]
      by (cases "u = t"; cases "v = t") auto
  qed
qed

lemma threads_after_alloc:
  assumes inv: "threads_inv C S" and al: "slab_alloc (thr_slab S) (Some THREAD_CACHE) = Some (t, s)"
  shows "slab_ok C s" "thr_allocs S \<subseteq> allocs (pmm (phys (slab_mon s)))"
    "p \<in> slab_pages C s \<Longrightarrow> p \<in> slab_pages C (thr_slab S) \<or> (p, 0) \<notin> thr_allocs S"
    "cache_live C THREAD_CACHE s = (if t = 0 then live_threads C S else insert t (live_threads C S))"
    "t \<noteq> 0 \<Longrightarrow> t \<notin> live_threads C S"
proof -
  note D = threads_invD [OF inv]
  have ok: "slab_ok C (thr_slab S) \<and> THREAD_CACHE \<in> C"
    using D(1,2) by simp
  show "slab_ok C s"
    using oc.alloc_ok [OF ok al] by simp
  show "thr_allocs S \<subseteq> allocs (pmm (phys (slab_mon s)))"
    using slab_alloc_pages(1) [OF D(1,2) al] by (simp add: thr_phys_def)
  show "p \<in> slab_pages C s \<Longrightarrow> p \<in> slab_pages C (thr_slab S) \<or> (p, 0) \<notin> thr_allocs S"
    using slab_alloc_slabs(2) [OF D(1,2) al] by (auto simp: thr_phys_def)
  show "cache_live C THREAD_CACHE s = (if t = 0 then live_threads C S else insert t (live_threads C S))"
    using oc.alloc_null [OF ok] oc.alloc_new [OF ok al] al by auto
  show "t \<noteq> 0 \<Longrightarrow> t \<notin> live_threads C S"
    using oc.alloc_new [OF ok al] by simp
qed

section \<open>Creation and release\<close>

definition stack_size_of :: "u64 \<Rightarrow> u64" where
  "stack_size_of stack_size = page_up (if stack_size > 0 then stack_size else THREAD_DEFAULT_STACK_SIZE)"

definition created_thread :: "kernel_syms \<Rightarrow> int \<Rightarrow> u64 \<Rightarrow> u64 \<Rightarrow> u64 \<Rightarrow> int \<Rightarrow> u64 \<Rightarrow> u64 \<Rightarrow> thread" where
  "created_thread sy tid name func arg flags stack z =
     thread_zero\<lparr>thread_tid := tid, thread_name := name, entry_func := func, entry_arg := arg, thread_flags := flags,
       thread_cpu := -1, kernel_stack := stack, kernel_stack_size := z,
       thread_context := arch_context_init ((stack + z) AND NOT 0xF) (thread_entry_wrapper sy) RFLAGS_IF\<rparr>"

text \<open>The three outcomes of \<open>thread_create\<close>, given what the allocators return.\<close>

lemma thread_create_outcomes:
  assumes "name \<noteq> 0" "func \<noteq> 0" "slab_alloc (thr_slab S) (thread_cache S) = Some (t, s)"
    "pmm_alloc (phys (slab_mon s)) (stack_order (unat (stack_size_of z div 4096)) 0) = (a, m)"
  obtains (no_object) "t = 0" "thread_create sy S name func arg z flags = Some (0, S\<lparr>thr_slab := s\<rparr>)"
    | (no_stack) "t \<noteq> 0" "a = 0" "thread_create sy S name func arg z flags =
        Some (0, S\<lparr>threads := (threads S)(t := thread_zero),
          thr_slab := slab_free (s\<lparr>slab_mon := (slab_mon s)\<lparr>phys := m\<rparr>\<rparr>) (thread_cache S) t\<rparr>)"
    | (created) "t \<noteq> 0" "a \<noteq> 0" "thread_create sy S name func arg z flags =
        Some (t, S\<lparr>threads := (threads S)(t := created_thread sy (next_tid S) name func arg flags a (stack_size_of z)),
          thr_slab := s\<lparr>slab_mon := (slab_mon s)\<lparr>phys := m\<rparr>\<rparr>, next_tid := next_tid S + 1,
          nr_total_threads := nr_total_threads S + 1,
          thr_links := list_push_back (list_init (list_init (thr_links S) (RunLink t)) (AllLink t)) (AllLink t) AllThreads\<rparr>)"
proof -
  consider "t = 0" | "t \<noteq> 0" "a = 0" | "t \<noteq> 0" "a \<noteq> 0"
    by blast
  then show thesis
  proof cases
    case 1
    then show thesis
      using assms by (intro no_object) (simp_all add: thread_create_def Let_def)
  next
    case 2
    then show thesis
      using assms by (intro no_stack)
        (simp_all add: thread_create_def Let_def stack_size_of_def thr_phys_def set_thr_phys_def upd_thread_def)
  next
    case 3
    then show thesis
      using assms by (intro created)
        (simp_all add: thread_create_def Let_def stack_size_of_def thr_phys_def set_thr_phys_def upd_thread_def
          created_thread_def thread_zero_def)
  qed
qed

lemma stack_phase:
  assumes inv: "threads_inv C S" and al: "slab_alloc (thr_slab S) (Some THREAD_CACHE) = Some (t, s)"
    and st: "pmm_alloc (phys (slab_mon s)) ord = (a, m)" and s': "s' = s\<lparr>slab_mon := (slab_mon s)\<lparr>phys := m\<rparr>\<rparr>"
  shows "slab_ok C s'" "cache_live C THREAD_CACHE s' = cache_live C THREAD_CACHE s" "slab_pages C s' = slab_pages C s"
    "slab_live C s' = slab_live C s" "thr_allocs S \<subseteq> allocs (pmm m)"
    "a \<noteq> 0 \<Longrightarrow> (a, ord) \<notin> thr_allocs S \<and> (a, ord) \<notin> (\<lambda>p. (p, 0)) ` slab_pages C s \<and> (a, ord) \<in> allocs (pmm m) \<and> aligned a ord"
proof -
  note A = threads_after_alloc [OF inv al]
  have pi: "pmm_inv (pmm (phys (slab_mon s)))"
    by (rule slab_ok_inv(2) [OF A(1)])
  note sub = pmm_alloc_sub(2) [OF pi st]
  have pi': "pmm_inv (pmm (phys ((slab_mon s)\<lparr>phys := m\<rparr>)))"
    using pa.alloc_ok [OF pi st] by simp
  have pg': "(p, 0) \<in> allocs (pmm (phys ((slab_mon s)\<lparr>phys := m\<rparr>)))" if "p \<in> slab_pages C s" for p
    using sub slab_ok_inv(3) [OF A(1) that] by auto
  show "slab_ok C s'" "cache_live C THREAD_CACHE s' = cache_live C THREAD_CACHE s" "slab_pages C s' = slab_pages C s"
      "slab_live C s' = slab_live C s"
    unfolding s' by (rule slab_ok_mon [OF A(1) pi'], erule pg')+
  show "thr_allocs S \<subseteq> allocs (pmm m)"
    using A(2) sub by blast
  assume nz: "a \<noteq> 0"
  show "(a, ord) \<notin> thr_allocs S \<and> (a, ord) \<notin> (\<lambda>p. (p, 0)) ` slab_pages C s \<and> (a, ord) \<in> allocs (pmm m) \<and> aligned a ord"
    using pa.alloc_new [OF pi st nz] pa.alloc_block [OF pi st nz] A(2) slab_ok_inv(3) [OF A(1)] by auto
qed

lemma threads_release:
  assumes ok: "slab_ok C s" "THREAD_CACHE \<in> C" and t: "t \<in> cache_live C THREAD_CACHE s"
  shows "slab_ok C (slab_free s (Some THREAD_CACHE) t)"
    "cache_live C THREAD_CACHE (slab_free s (Some THREAD_CACHE) t) = cache_live C THREAD_CACHE s - {t}"
    "slab_pages C (slab_free s (Some THREAD_CACHE) t) = slab_pages C s"
    "slab_live C (slab_free s (Some THREAD_CACHE) t) = slab_live C s - {t}"
  using oc.release_live [of C s THREAD_CACHE t] slab_free_slabs [of C s t THREAD_CACHE] slab_free_spec [of C s t THREAD_CACHE] assms
  by (auto simp: cache_live_def)

lemma thread_create_inv:
  assumes inv: "threads_inv C S" and ret: "thread_create sy S name func arg z flags = Some (t, S')"
  shows "threads_inv C S' \<and> live_threads C S' = (if t = 0 then live_threads C S else insert t (live_threads C S)) \<and>
    (t \<noteq> 0 \<longrightarrow> t \<notin> live_threads C S \<and> stack_block S' t \<notin> thr_allocs S)"
proof (cases "name = 0 \<or> func = 0")
  case True
  then show ?thesis
    using assms by (auto simp: thread_create_def)
next
  case False
  note D = threads_invD [OF inv]
  obtain u s where al: "slab_alloc (thr_slab S) (Some THREAD_CACHE) = Some (u, s)"
    using oc.alloc_returns [of C "thr_slab S" THREAD_CACHE] D(1,2) by blast
  obtain a m where st: "pmm_alloc (phys (slab_mon s)) (stack_order (unat (stack_size_of z div 4096)) 0) = (a, m)"
    by (cases "pmm_alloc (phys (slab_mon s)) (stack_order (unat (stack_size_of z div 4096)) 0)")
  note A = threads_after_alloc [OF inv al]
  define s' where s': "s' = s\<lparr>slab_mon := (slab_mon s)\<lparr>phys := m\<rparr>\<rparr>"
  note B = stack_phase [OF inv al st s']
  have old: "stack_block S' v = stack_block S v" if "v \<noteq> u" "threads S' = (threads S)(u := x)" for x v
    using that by (simp add: stack_block_def)
  show ?thesis
  proof (rule thread_create_outcomes [of name func S u s, OF _ _ _ st])
    assume r: "u = 0" "thread_create sy S name func arg z flags = Some (0, S\<lparr>thr_slab := s\<rparr>)"
    then have S': "t = 0" "S' = S\<lparr>thr_slab := s\<rparr>"
      using ret by simp_all
    have "threads_inv C S'"
      by (rule threads_inv_update [OF inv, of _ 0])
        (use S'(2) A(1-4) r(1) D(5) oc.live_nonnull [of C "thr_slab S" THREAD_CACHE] D(1,2) in \<open>auto simp: thr_phys_def stack_block_def\<close>)
    then show ?thesis
      using S' A(4) r(1) by simp
  next
    assume r: "u \<noteq> 0" "a = 0" "thread_create sy S name func arg z flags =
        Some (0, S\<lparr>threads := (threads S)(u := thread_zero),
          thr_slab := slab_free (s\<lparr>slab_mon := (slab_mon s)\<lparr>phys := m\<rparr>\<rparr>) (thread_cache S) u\<rparr>)"
    then have S': "t = 0" "S' = S\<lparr>threads := (threads S)(u := thread_zero), thr_slab := slab_free s' (Some THREAD_CACHE) u\<rparr>"
      using ret by (simp_all add: s' D(3))
    have R: "slab_ok C (thr_slab S')" "live_threads C S' = live_threads C S" "slab_pages C (thr_slab S') = slab_pages C s"
      "thr_allocs S' = allocs (pmm m)"
      using threads_release [OF B(1) D(2), of u] B(2,3) A(4,5) r(1) by (simp_all add: S'(2) thr_phys_def) (simp add: s')
    have "threads_inv C S'"
      by (rule threads_inv_update [OF inv R(1), of u])
        (use R(2-4) S'(2) A(3,5) r(1) B(5) D(5) old in auto)
    then show ?thesis
      using S'(1) R(2) by simp
  next
    assume r: "u \<noteq> 0" "a \<noteq> 0" "thread_create sy S name func arg z flags =
        Some (u, S\<lparr>threads := (threads S)(u := created_thread sy (next_tid S) name func arg flags a (stack_size_of z)),
          thr_slab := s\<lparr>slab_mon := (slab_mon s)\<lparr>phys := m\<rparr>\<rparr>, next_tid := next_tid S + 1,
          nr_total_threads := nr_total_threads S + 1,
          thr_links := list_push_back (list_init (list_init (thr_links S) (RunLink u)) (AllLink u)) (AllLink u) AllThreads\<rparr>)"
    then have S': "t = u" "thr_slab S' = s'" "thread_cache S' = thread_cache S"
        "threads S' = (threads S)(u := created_thread sy (next_tid S) name func arg flags a (stack_size_of z))"
      using ret by (auto simp: s')
    have nb: "stack_block S' u = (a, stack_order (unat (stack_size_of z div 4096)) 0)" "thr_allocs S' = allocs (pmm m)"
        "kernel_stack (threads S' u) = a"
      by (simp_all add: stack_block_def S'(4) created_thread_def thr_phys_def S'(2) s')
    have "threads_inv C S'"
      by (rule threads_inv_update [OF inv _ S'(3), of u])
        (use B S'(2) nb A(3-5) r(1,2) D(5) old [OF _ S'(4)] in auto)
    then show ?thesis
      using S'(1,2) B(2) A(4,5) r(1) nb(1) B(6) [OF r(2)] by simp
  qed (use False al D(3) in simp_all)
qed

text \<open>\<open>list_push_back\<close> with its arguments exchanged makes a link that is on no list the whole list.\<close>

lemma push_back_swapped:
  assumes "nxt h n = n" "prv h n = n" "n \<noteq> p"
  shows "ring (list_push_back h n p) p [n]"
  using assms by (simp add: list_push_back_def Let_def ring_def)

lemma dvd_16_4096: "(4096::nat) dvd n \<Longrightarrow> 16 dvd n"
  by (rule dvd_trans [of _ 4096]) simp_all

lemma stack_top_eq:
  assumes "aligned a ord" "unat z mod 4096 = 0"
  shows "(a + z) AND NOT 0xF = a + z"
proof (rule and_not_15)
  have "16 dvd unat a"
    using assms(1) by (auto simp: aligned_def intro: dvd_16_4096 dvd_mult_left)
  moreover have "16 dvd unat z"
    using assms(2) by (intro dvd_16_4096) (simp add: mod_eq_0_iff_dvd)
  ultimately have "16 dvd (unat a + unat z) mod 2 ^ 64"
    by (intro dvd_mod dvd_add) simp_all
  then show "unat (a + z) mod 16 = 0"
    by (simp only: unat_word_ariths(1) mod_eq_0_iff_dvd) simp
qed

lemma thread_create_fields:
  assumes "threads_inv C S" "thread_create sy S name func arg z flags = Some (t, S')" "t \<noteq> 0"
  shows "threads S' t = created_thread sy (next_tid S) name func arg flags (fst (stack_block S' t)) (stack_size_of z)"
    "thread_context (threads S' t) =
       arch_context_init (kernel_stack (threads S' t) + stack_size_of z) (thread_entry_wrapper sy) RFLAGS_IF"
    "ring (thr_links S') AllThreads [AllLink t]"
proof -
  have nn: "name \<noteq> 0" "func \<noteq> 0"
    using assms(2,3) by (auto simp: thread_create_def)
  note D = threads_invD [OF assms(1)]
  obtain u s where al: "slab_alloc (thr_slab S) (Some THREAD_CACHE) = Some (u, s)"
    using oc.alloc_returns [of C "thr_slab S" THREAD_CACHE] D(1,2) by blast
  obtain a m where st: "pmm_alloc (phys (slab_mon s)) (stack_order (unat (stack_size_of z div 4096)) 0) = (a, m)"
    by (cases "pmm_alloc (phys (slab_mon s)) (stack_order (unat (stack_size_of z div 4096)) 0)")
  note B = stack_phase [OF assms(1) al st refl]
  have e: "t = u" "a \<noteq> 0" "threads S' = (threads S)(u := created_thread sy (next_tid S) name func arg flags a (stack_size_of z))"
    "thr_links S' = list_push_back (list_init (list_init (thr_links S) (RunLink u)) (AllLink u)) (AllLink u) AllThreads"
    by (rule thread_create_outcomes [OF nn _ st, of S u sy arg flags]; use al D(3) assms(2,3) in auto)+
  show "threads S' t = created_thread sy (next_tid S) name func arg flags (fst (stack_block S' t)) (stack_size_of z)"
    by (simp add: e(1,3) stack_block_def created_thread_def)
  show "thread_context (threads S' t) =
       arch_context_init (kernel_stack (threads S' t) + stack_size_of z) (thread_entry_wrapper sy) RFLAGS_IF"
    using stack_top_eq [OF B(6) [OF e(2), THEN conjunct2, THEN conjunct2, THEN conjunct2], of "stack_size_of z"]
    by (simp add: e(1,3) created_thread_def stack_size_of_def)
  show "ring (thr_links S') AllThreads [AllLink t]"
    unfolding e(1,4) by (rule push_back_swapped) (simp_all add: list_init_links)
qed

lemma thread_create_null:
  assumes inv: "threads_inv C S" and z: "0 \<notin> free_frames (pmm (thr_phys S))" and nn: "name \<noteq> 0" "func \<noteq> 0"
    and ret: "thread_create sy S name func arg z flags = Some (0, S')"
  shows "thr_allocs S' \<subseteq> thr_allocs S \<union> (\<lambda>p. (p, 0)) ` slab_pages C (thr_slab S')"
    "thr_links S' = thr_links S" "next_tid S' = next_tid S"
    "fst (pmm_alloc (thr_phys S) 0) = 0 \<or> MAX_ORDER < stack_order (unat (stack_size_of z div 4096)) 0 \<or>
      \<not> has_free (pmm (thr_phys S')) (stack_order (unat (stack_size_of z div 4096)) 0)"
proof -
  note D = threads_invD [OF inv]
  let ?ord = "stack_order (unat (stack_size_of z div 4096)) 0"
  obtain u s where al: "slab_alloc (thr_slab S) (Some THREAD_CACHE) = Some (u, s)"
    using oc.alloc_returns [of C "thr_slab S" THREAD_CACHE] D(1,2) by blast
  obtain a m where st: "pmm_alloc (phys (slab_mon s)) ?ord = (a, m)"
    by (cases "pmm_alloc (phys (slab_mon s)) ?ord")
  note A = threads_after_alloc [OF inv al]
  note B = stack_phase [OF inv al st refl]
  note P = slab_alloc_pages [OF D(1,2) al]
  have sub: "allocs (pmm (phys (slab_mon s))) \<subseteq> thr_allocs S \<union> (\<lambda>p. (p, 0)) ` slab_pages C s"
    using P(3) z by (simp add: thr_phys_def)
  have zs: "0 \<notin> free_frames (pmm (phys (slab_mon s)))" and pi: "pmm_inv (pmm (phys (slab_mon s)))"
    using P(2) z slab_ok_inv(2) [OF A(1)] by (auto simp: thr_phys_def)
  have "thr_allocs S' \<subseteq> thr_allocs S \<union> (\<lambda>p. (p, 0)) ` slab_pages C (thr_slab S') \<and> thr_links S' = thr_links S \<and>
      next_tid S' = next_tid S \<and> (fst (pmm_alloc (thr_phys S) 0) = 0 \<or> MAX_ORDER < ?ord \<or> \<not> has_free (pmm (thr_phys S')) ?ord)"
  proof (rule thread_create_outcomes [OF nn _ st, of S u sy arg flags])
    assume "u = 0" "thread_create sy S name func arg z flags = Some (0, S\<lparr>thr_slab := s\<rparr>)"
    then have u: "u = 0" "S' = S\<lparr>thr_slab := s\<rparr>"
      using ret by simp_all
    have "fst (pmm_alloc (thr_phys S) 0) = 0"
      using slab_alloc_spec [OF D(1,2)] al u(1) by (auto simp: thr_phys_def)
    then show ?thesis
      using sub by (simp add: u(2) thr_phys_def)
  next
    assume u: "u \<noteq> 0" "a = 0" "thread_create sy S name func arg z flags =
        Some (0, S\<lparr>threads := (threads S)(u := thread_zero),
          thr_slab := slab_free (s\<lparr>slab_mon := (slab_mon s)\<lparr>phys := m\<rparr>\<rparr>) (thread_cache S) u\<rparr>)"
    let ?s = "s\<lparr>slab_mon := (slab_mon s)\<lparr>phys := m\<rparr>\<rparr>"
    have S': "S' = S\<lparr>threads := (threads S)(u := thread_zero), thr_slab := slab_free ?s (Some THREAD_CACHE) u\<rparr>"
      using ret u(3) by (simp add: D(3))
    have m: "m = phys (slab_mon s)" "MAX_ORDER < ?ord \<or> \<not> has_free (pmm m) ?ord"
      using pmm_alloc_null [OF pi zs] pmm_alloc_null_full [OF pi zs] st u(2) by auto
    have "slab_pages C (slab_free ?s (Some THREAD_CACHE) u) = slab_pages C s"
      using threads_release(3) [OF B(1) D(2), of u] B(2,3) A(4) u(1) by simp
    then show ?thesis
      using sub m by (simp add: S' thr_phys_def)
  qed (use ret al D(3) in auto)
  then show "thr_allocs S' \<subseteq> thr_allocs S \<union> (\<lambda>p. (p, 0)) ` slab_pages C (thr_slab S')"
    "thr_links S' = thr_links S" "next_tid S' = next_tid S"
    "fst (pmm_alloc (thr_phys S) 0) = 0 \<or> MAX_ORDER < ?ord \<or> \<not> has_free (pmm (thr_phys S')) ?ord"
    by blast+
qed

lemma thread_destroy_spec:
  assumes inv: "threads_inv C S" and t: "t \<in> live_threads C S" and x: "stack_block S t = (a, x)"
  obtains S' where "thread_destroy S t = Some S'" "threads_inv C S'" "live_threads C S' = live_threads C S - {t}"
    "thr_allocs S' = thr_allocs S - {(a, x)}"
    "free_frames (pmm (thr_phys S')) = free_frames (pmm (thr_phys S)) \<union> frames a x"
proof -
  note D = threads_invD [OF inv]
  have a: "kernel_stack (threads S t) = a" "stack_order (unat (kernel_stack_size (threads S t) div 4096)) 0 = x"
    using x by (simp_all add: stack_block_def)
  have "(a, x) \<in> thr_allocs S"
    using D(5) [OF t] x by simp
  then obtain m where m: "phys_free (thr_phys S) a x = Some m" "pmm_inv (pmm m)" "allocs (pmm m) = thr_allocs S - {(a, x)}"
      "free_frames (pmm m) = free_frames (pmm (thr_phys S)) \<union> frames a x"
    using pa.release_block [OF D(8)] by blast
  let ?s = "(thr_slab S)\<lparr>slab_mon := (slab_mon (thr_slab S))\<lparr>phys := m\<rparr>\<rparr>"
  let ?S = "S\<lparr>thr_slab := slab_free ?s (Some THREAD_CACHE) t\<rparr>"
  have pi: "pmm_inv (pmm (phys ((slab_mon (thr_slab S))\<lparr>phys := m\<rparr>)))"
    using m(2) by simp
  have pg: "(p, 0) \<in> allocs (pmm (phys ((slab_mon (thr_slab S))\<lparr>phys := m\<rparr>)))" if "p \<in> slab_pages C (thr_slab S)" for p
    using D(6) [OF t] D(9) [OF that] that m(3) x by auto
  have ok: "slab_ok C ?s" "cache_live C THREAD_CACHE ?s = live_threads C S" "slab_pages C ?s = slab_pages C (thr_slab S)"
    by (rule slab_ok_mon [OF D(1) pi], erule pg)+
  note R = threads_release [OF ok(1) D(2), of t, unfolded ok(2,3), OF t]
  have t0: "t \<noteq> 0"
    using oc.live_nonnull [of C "thr_slab S" THREAD_CACHE] D(1,2) t by auto
  have ret: "thread_destroy S t = Some ?S"
    using m(1) D(4) [OF t] a t0 by (simp add: thread_destroy_def Let_def set_thr_phys_def D(3))
  have ph: "thr_phys ?S = m"
    by (simp add: thr_phys_def)
  have blk: "stack_block ?S u = stack_block S u" for u
    by (simp add: stack_block_def)
  have "threads_inv C ?S"
  proof (rule threads_inv_update [OF inv, of _ t])
    fix u
    assume u: "u \<in> live_threads C ?S" "u \<noteq> t"
    then have "u \<in> live_threads C S"
      using R(2) by simp
    moreover from this have "stack_block S u \<noteq> stack_block S t"
      using inj_onD [OF D(7) _ _ t, of u] u(2) by auto
    ultimately show "u \<in> live_threads C S \<and> stack_block ?S u = stack_block S u \<and> stack_block S u \<in> thr_allocs ?S"
      using D(5) [of u] by (simp add: ph m(3) x blk)
  qed (use R in simp_all)
  then show thesis
    using ret R(2) m(3,4) by (intro that [of ?S]) (simp_all add: ph)
qed

lemma thread_create_returns:
  assumes "threads_inv C S"
  shows "\<exists>t S'. thread_create sy S name func arg z flags = Some (t, S')"
proof (cases "name = 0 \<or> func = 0")
  case False
  note D = threads_invD [OF assms]
  obtain u s where al: "slab_alloc (thr_slab S) (Some THREAD_CACHE) = Some (u, s)"
    using oc.alloc_returns [of C "thr_slab S" THREAD_CACHE] D(1,2) by blast
  obtain a m where st: "pmm_alloc (phys (slab_mon s)) (stack_order (unat (stack_size_of z div 4096)) 0) = (a, m)"
    by (cases "pmm_alloc (phys (slab_mon s)) (stack_order (unat (stack_size_of z div 4096)) 0)")
  show ?thesis
    by (rule thread_create_outcomes [OF _ _ _ st, of name func S u sy arg flags]) (use False al D(3) in auto)
qed (simp add: thread_create_def)

section \<open>Properties\<close>

text \<open>C20: \<open>thread_create\<close> returns, and keeps for every live thread a stack of its own that is no
  slab. If it returns null, it had no page for the thread's structure or no free block for the
  stack, and no stack is left allocated, no thread more is live and no thread number is used up.
  Otherwise the result is a new live thread with the next number, in state \<open>THREAD_CREATED\<close>, whose
  stack is a new block with room for the size asked for, and whose context starts at
  \<open>thread_entry_wrapper\<close> on the top of that stack with interrupts enabled. The list of all threads
  then holds the new thread alone, whatever was on it before.\<close>

theorem thread_create_thread:
  assumes "threads_inv C S" and "0 \<notin> free_frames (pmm (thr_phys S))" and "name \<noteq> 0" and "func \<noteq> 0"
    and "unat z + 4095 < 2 ^ 64"
  shows "\<exists>t S'. thread_create sy S name func arg z flags = Some (t, S') \<and> threads_inv C S' \<and>
    (if t = 0 then live_threads C S' = live_threads C S \<and> thr_links S' = thr_links S \<and> next_tid S' = next_tid S \<and>
       thr_allocs S' \<subseteq> thr_allocs S \<union> (\<lambda>p. (p, 0)) ` slab_pages C (thr_slab S') \<and>
       (fst (pmm_alloc (thr_phys S) 0) = 0 \<or> MAX_ORDER < stack_order (unat (stack_size_of z div 4096)) 0 \<or>
          \<not> has_free (pmm (thr_phys S')) (stack_order (unat (stack_size_of z div 4096)) 0))
     else t \<notin> live_threads C S \<and> live_threads C S' = insert t (live_threads C S) \<and> stack_block S' t \<notin> thr_allocs S \<and>
       thread_get_tid S' t = next_tid S \<and> thread_get_state S' t = THREAD_CREATED \<and> thread_get_name S' t = name \<and>
       unat z \<le> unat (kernel_stack_size (threads S' t)) \<and>
       unat (kernel_stack_size (threads S' t)) \<le> 4096 * 2 ^ snd (stack_block S' t) \<and>
       thread_context (threads S' t) = arch_context_init (kernel_stack (threads S' t) + kernel_stack_size (threads S' t))
         (thread_entry_wrapper sy) RFLAGS_IF \<and>
       list_for_each (thr_links S') AllThreads = Some [AllLink t])"
proof -
  obtain t S' where ret: "thread_create sy S name func arg z flags = Some (t, S')"
    using thread_create_returns [OF assms(1)] by blast
  note I = thread_create_inv [OF assms(1) ret]
  show ?thesis
  proof (cases "t = 0")
    case True
    note N = thread_create_null [OF assms(1-4) ret [unfolded True]]
    show ?thesis
      using ret I N True by (intro exI [of _ t] exI [of _ S']) simp
  next
    case False
    note F = thread_create_fields [OF assms(1) ret False]
    let ?k = "stack_size_of z"
    have ks: "kernel_stack_size (threads S' t) = ?k" "thread_get_tid S' t = next_tid S" "thread_get_state S' t = THREAD_CREATED"
      "thread_get_name S' t = name"
      using False by (simp_all add: F(1) created_thread_def thread_zero_def thread_get_tid_def thread_get_state_def thread_get_name_def)
    have "unat z \<le> unat ?k"
      using assms(5) by (auto simp: stack_size_of_def unat_page_up word_gt_0)
    moreover have "unat ?k \<le> 4096 * 2 ^ snd (stack_block S' t)"
      using stack_order_le [of "unat (?k div 4096)" 0] page_div_mult [of ?k]
      by (simp add: stack_block_def ks(1) stack_size_of_def)
    ultimately show ?thesis
      using ret I False F(2) ks ring_for_each [OF F(3)] by (intro exI [of _ t] exI [of _ S']) simp
  qed
qed

text \<open>C21: \<open>thread_destroy\<close> of a live thread returns, gives exactly its structure and its stack back to
  their allocators, and leaves every other thread its stack.\<close>

theorem thread_destroy_releases:
  assumes "threads_inv C S" and "t \<in> live_threads C S" and "stack_block S t = (a, x)"
  shows "\<exists>S'. thread_destroy S t = Some S' \<and> threads_inv C S' \<and> live_threads C S' = live_threads C S - {t} \<and>
    thr_allocs S' = thr_allocs S - {(a, x)} \<and>
    free_frames (pmm (thr_phys S')) = free_frames (pmm (thr_phys S)) \<union> frames a x"
  by (rule thread_destroy_spec [OF assms]) blast

definition thread_example :: thread_sys where
  "thread_example = thread_init
     \<lparr>thr_slab = slab_zero, thr_links = \<lparr>nxt = (\<lambda>x. x), prv = (\<lambda>x. x)\<rparr>, threads = (\<lambda>_. thread_zero), thread_cache = None,
      next_tid = 1, nr_total_threads = 0, nr_active_threads = 0, nr_running = 0, idle_threads = (\<lambda>_. 0),
      scheduler_tick_counter = 0, current_thread = (\<lambda>_. 0), current_cpu_index = 0, switches = [], interrupts_on = False\<rparr>"

definition syms_example :: kernel_syms where
  "syms_example = \<lparr>thread_entry_wrapper = 0x101000, idle_thread_func = 0x102000, idle_name_buf = 0x9000\<rparr>"

lemma thread_example_facts:
  "threads_inv {8} thread_example" "live_threads {8} thread_example = {}" "thr_phys thread_example = phys_example"
  "next_tid thread_example = 1"
proof -
  define s where "s = snd (slab_cache_create slab_zero (Some 8) 512)"
  have c: "slab_cache_create slab_zero (Some 8) 512 = (0, s)"
    by (simp add: s_def slab_cache_create_def Let_def)
  note Z = slab_create_zero_ok [OF c]
  have g: "good_size 512"
    by (simp add: good_size_def)
  have e: "thr_slab thread_example = s" "thread_cache thread_example = Some 8" "next_tid thread_example = 1"
    by (simp_all add: thread_example_def thread_init_def Let_def c)
  show l: "live_threads {8} thread_example = {}"
    by (simp add: cache_live_def e(1) Z(2) [OF g])
  show "threads_inv {8} thread_example"
    by (rule threads_invI) (use Z(1) [OF g] l e in simp_all)
  show "thr_phys thread_example = phys_example" "next_tid thread_example = 1"
    using Z(3) [OF g] e(3) by (simp_all add: thr_phys_def e(1) mon_example_def)
qed

lemma thread_example_created:
  obtains t S' where "thread_create syms_example thread_example 0x9000 0x103000 0 4096 0 = Some (t, S')" "t \<noteq> 0"
proof -
  note D = threads_invD [OF thread_example_facts(1)]
  obtain u s where al: "slab_alloc (thr_slab thread_example) (Some THREAD_CACHE) = Some (u, s)"
    using oc.alloc_returns [of "{8}" "thr_slab thread_example" THREAD_CACHE] D(1,2) by blast
  have "phys (slab_mon (thr_slab thread_example)) = phys_example"
    using thread_example_facts(3) by (simp add: thr_phys_def)
  note X = slab_alloc_example [OF D(1,2) this al]
  obtain a m where st: "pmm_alloc (phys (slab_mon s)) (stack_order (unat (stack_size_of 4096 div 4096)) 0) = (a, m)"
    by (cases "pmm_alloc (phys (slab_mon s)) (stack_order (unat (stack_size_of 4096 div 4096)) 0)")
  have k: "stack_order (unat (stack_size_of 4096 div 4096)) 0 = 0"
    by (simp add: stack_size_of_def page_up_def page_down_def stack_order.simps)
  show thesis
    by (rule thread_create_outcomes [OF _ _ _ st, of "0x9000" "0x103000" thread_example u syms_example 0 0])
      (use al D(3) X that st in \<open>auto simp: k\<close>)
qed

theorem thread_create_thread_witness:
  "\<exists>t S'. thread_create syms_example thread_example 0x9000 0x103000 0 4096 0 = Some (t, S') \<and> t \<noteq> 0 \<and> threads_inv {8} S' \<and>
     live_threads {8} S' = {t} \<and> thread_get_tid S' t = 1 \<and> thread_get_state S' t = THREAD_CREATED"
proof (rule thread_example_created)
  fix t S'
  assume t: "thread_create syms_example thread_example 0x9000 0x103000 0 4096 0 = Some (t, S')" "t \<noteq> 0"
  show ?thesis
    using thread_create_thread [OF thread_example_facts(1), of "0x9000" "0x103000" 4096 syms_example 0 0] t
      phys_example_facts(4) thread_example_facts(2-4) by auto
qed

theorem thread_destroy_releases_witness:
  "\<exists>t S S'. thread_create syms_example thread_example 0x9000 0x103000 0 4096 0 = Some (t, S) \<and> t \<noteq> 0 \<and>
     thread_destroy S t = Some S' \<and> live_threads {8} S' = {}"
proof (rule thread_example_created)
  fix t S
  assume t: "thread_create syms_example thread_example 0x9000 0x103000 0 4096 0 = Some (t, S)" "t \<noteq> 0"
  have I: "threads_inv {8} S" "live_threads {8} S = {t}"
    using thread_create_inv [OF thread_example_facts(1) t(1)] t(2) thread_example_facts(2) by simp_all
  show ?thesis
    using thread_destroy_releases [OF I(1), of t "fst (stack_block S t)" "snd (stack_block S t)"] I(2) t by auto
qed

end
