(* ===== verification/Scheduler.thy ===== *)
theory Scheduler
  imports Thread
begin

text \<open>
  The scheduler, \<^verbatim>\<open>src/kernel/scheduler.c\<close>, and the operations of \<^verbatim>\<open>src/kernel/thread.c\<close> that call it. The
  argument \<open>g\<close> of an operation is the processor it runs on, the index of the per-CPU area its \<open>GS\<close>
  register points to; \<open>smp_get_cpu_index\<close> returns the variable \<open>current_cpu_index\<close> instead. An operation that
  holds the lock of the run queue is one step. \<open>context_switch\<close> is recorded with the addresses of
  the two contexts, 56 bytes into a thread.
\<close>

section \<open>Operations\<close>

abbreviation SCHEDULER_TICK_INTERVAL :: u64 where "SCHEDULER_TICK_INTERVAL \<equiv> 5"

abbreviation context_ptr :: "u64 \<Rightarrow> u64" where "context_ptr t \<equiv> t + 56"

definition smp_get_cpu_index :: "thread_sys \<Rightarrow> nat" where
  "smp_get_cpu_index S = current_cpu_index S"

definition call_context_switch :: "u64 \<Rightarrow> u64 \<Rightarrow> thread_sys \<Rightarrow> thread_sys" where
  "call_context_switch prev nx S = S\<lparr>switches := (prev, nx) # switches S\<rparr>"

text \<open>\<open>list_entry\<close> for \<open>run_list\<close>, which is at offset 0 of a thread; \<open>all_list\<close> is at offset 16. The
  heads are in no thread and never what \<open>list_pop_front\<close> of a well-formed queue returns.\<close>

fun run_list_entry :: "thread_node \<Rightarrow> u64" where
  "run_list_entry (RunLink t) = t"
| "run_list_entry (AllLink t) = t + 16"
| "run_list_entry _ = 0"

definition scheduler_add_thread :: "thread_sys \<Rightarrow> u64 \<Rightarrow> thread_sys" where
  "scheduler_add_thread S t =
     (if t = 0 then S
      else let S = (if thread_state (threads S t) \<noteq> THREAD_READY
                    then upd_thread t (\<lambda>x. x\<lparr>thread_state := THREAD_READY\<rparr>) S else S)
           in S\<lparr>thr_links := list_push_back (thr_links S) (RunLink t) RunQueue, nr_running := nr_running S + 1\<rparr>)"

definition scheduler_remove_thread :: "thread_sys \<Rightarrow> u64 \<Rightarrow> thread_sys" where
  "scheduler_remove_thread S t =
     (if t = 0 then S
      else S\<lparr>thr_links := list_remove (thr_links S) (RunLink t), nr_running := nr_running S - 1\<rparr>)"

definition scheduler_get_nr_running :: "thread_sys \<Rightarrow> int" where
  "scheduler_get_nr_running S = nr_running S"

definition scheduler_get_idle_thread :: "thread_sys \<Rightarrow> int \<Rightarrow> u64" where
  "scheduler_get_idle_thread S cpu = (if cpu < 0 \<or> cpu \<ge> int SMP_MAX_CPUS then 0 else idle_threads S (nat cpu))"

definition pick_next_thread :: "thread_sys \<Rightarrow> u64 \<times> thread_sys" where
  "pick_next_thread S =
     (if list_empty (thr_links S) RunQueue then (0, S)
      else case list_pop_front (thr_links S) RunQueue of
             (None, h) \<Rightarrow> (0, S\<lparr>thr_links := h\<rparr>)
           | (Some node, h) \<Rightarrow> (run_list_entry node, S\<lparr>thr_links := h, nr_running := nr_running S - 1\<rparr>))"

definition schedule :: "nat \<Rightarrow> thread_sys \<Rightarrow> thread_sys" where
  "schedule g S =
     (let prev = thread_get_current g S;
          (nx, S) = pick_next_thread S;
          nx = (if nx = 0 then idle_threads S (smp_get_cpu_index S) else nx)
      in if nx = 0 then S
         else if prev = nx then S
         else let S = (if prev \<noteq> 0 then
                         if thread_state (threads S prev) \<noteq> THREAD_TERMINATED \<and> thread_state (threads S prev) \<noteq> THREAD_BLOCKED
                         then scheduler_add_thread (upd_thread prev (\<lambda>x. x\<lparr>thread_state := THREAD_READY\<rparr>) S) prev
                         else S
                       else S);
                  S = upd_thread nx (\<lambda>x. x\<lparr>thread_state := THREAD_RUNNING\<rparr>) S;
                  S = upd_thread nx (\<lambda>x. x\<lparr>thread_cpu := int (smp_get_cpu_index S)\<rparr>) S;
                  S = thread_set_current g S nx
              in call_context_switch (context_ptr prev) (context_ptr nx) S)"

definition scheduler_tick :: "nat \<Rightarrow> thread_sys \<Rightarrow> thread_sys" where
  "scheduler_tick g S =
     (let S = S\<lparr>scheduler_tick_counter := scheduler_tick_counter S + 1\<rparr>
      in if scheduler_tick_counter S mod SCHEDULER_TICK_INTERVAL = 0 then schedule g S else S)"

text \<open>The loop over the processors; \<open>snprintf\<close> writes each name into the same buffer.\<close>

primrec create_idle_threads :: "kernel_syms \<Rightarrow> nat list \<Rightarrow> thread_sys \<Rightarrow> thread_sys option" where
  "create_idle_threads sy [] S = Some S"
| "create_idle_threads sy (i # is) S =
     Option.bind (thread_create sy S (idle_name_buf sy) (idle_thread_func sy) (of_nat i) THREAD_DEFAULT_STACK_SIZE THREAD_FLAG_KERNEL)
       (\<lambda>(idle, S). if idle = 0 then create_idle_threads sy is S
                    else create_idle_threads sy is (S\<lparr>idle_threads := (idle_threads S)(i := idle)\<rparr>))"

definition scheduler_init :: "kernel_syms \<Rightarrow> thread_sys \<Rightarrow> thread_sys option" where
  "scheduler_init sy S =
     (let S = S\<lparr>thr_links := list_init (thr_links S) RunQueue, nr_running := 0\<rparr>;
          S = fold (\<lambda>i S. S\<lparr>idle_threads := (idle_threads S)(i := 0)\<rparr>) [0..<SMP_MAX_CPUS] S
      in create_idle_threads sy [0..<SMP_MAX_CPUS] S)"

text \<open>\<open>scheduler_start\<close> does not return: the state is the one in which the idle thread is entered or,
  without one, the processor halts.\<close>

definition scheduler_start :: "nat \<Rightarrow> thread_sys \<Rightarrow> thread_sys" where
  "scheduler_start g S =
     (let idle = idle_threads S (smp_get_cpu_index S)
      in if thread_get_current g S = 0 \<and> idle \<noteq> 0 then
           call_context_switch 0 (context_ptr idle)
             (upd_thread idle (\<lambda>x. x\<lparr>thread_state := THREAD_RUNNING\<rparr>) (thread_set_current g S idle))
         else S\<lparr>interrupts_on := True\<rparr>)"

text \<open>\<open>thread_exit\<close> does not return either: the state is the one after \<open>schedule\<close>, from which the
  thread goes on, if at all, only to halt. Without a current thread it is undefined, \<open>None\<close>.\<close>

definition thread_exit :: "nat \<Rightarrow> thread_sys \<Rightarrow> thread_sys option" where
  "thread_exit g S =
     (let t = thread_get_current g S
      in if t = 0 then None
         else let S = upd_thread t (\<lambda>x. x\<lparr>thread_state := THREAD_TERMINATED\<rparr>) S;
                  S = S\<lparr>thr_links := list_remove (thr_links S) (AllLink t), nr_active_threads := nr_active_threads S - 1\<rparr>
              in Some (schedule g S))"

definition thread_yield :: "nat \<Rightarrow> thread_sys \<Rightarrow> thread_sys" where
  "thread_yield g S =
     (let t = thread_get_current g S
      in if t = 0 then S
         else let S = upd_thread t (\<lambda>x. x\<lparr>thread_state := THREAD_READY\<rparr>) S;
                  S = scheduler_add_thread S t
              in schedule g S)"

section \<open>The shape of the run queue\<close>

definition unlinked :: "thread_node list_store \<Rightarrow> thread_node \<Rightarrow> bool" where
  "unlinked h n \<longleftrightarrow> nxt h n = n \<and> prv h n = n"

text \<open>A thread's link points to itself or, on both sides, to the head of the queue; the head points
  to itself or, on both sides, to a thread whose link points back. The links of the list of all
  threads stay apart.\<close>

definition at_head :: "thread_node list_store \<Rightarrow> u64 \<Rightarrow> bool" where
  "at_head h t \<longleftrightarrow> nxt h (RunLink t) = RunQueue \<and> prv h (RunLink t) = RunQueue"

definition all_cells :: "thread_node set" where
  "all_cells = insert AllThreads (range AllLink)"

definition all_apart :: "thread_node list_store \<Rightarrow> bool" where
  "all_apart h \<longleftrightarrow> (\<forall>n\<in>all_cells. nxt h n \<in> all_cells \<and> prv h n \<in> all_cells)"

lemma all_cells_simps [simp]: "AllThreads \<in> all_cells" "AllLink t \<in> all_cells" "RunQueue \<notin> all_cells" "RunLink t \<notin> all_cells"
  by (auto simp: all_cells_def)

lemma all_apart_set [simp]:
  "all_apart h \<Longrightarrow> v \<in> all_cells \<Longrightarrow> all_apart (set_next p v h)"
  "all_apart h \<Longrightarrow> v \<in> all_cells \<Longrightarrow> all_apart (set_prev p v h)"
  by (auto simp: all_apart_def)

lemma all_apart_other:
  "all_apart h \<Longrightarrow> p \<notin> all_cells \<Longrightarrow> all_apart (set_next p v h)"
  "all_apart h \<Longrightarrow> p \<notin> all_cells \<Longrightarrow> all_apart (set_prev p v h)"
  by (auto simp: all_apart_def)

lemma all_apart_nxt [simp]: "all_apart h \<Longrightarrow> n \<in> all_cells \<Longrightarrow> nxt h n \<in> all_cells"
  and all_apart_prv [simp]: "all_apart h \<Longrightarrow> n \<in> all_cells \<Longrightarrow> prv h n \<in> all_cells"
  by (auto simp: all_apart_def)

definition queue_flat :: "thread_node list_store \<Rightarrow> bool" where
  "queue_flat h \<longleftrightarrow> (\<forall>t. unlinked h (RunLink t) \<or> at_head h t) \<and>
     (unlinked h RunQueue \<or> (\<exists>t. nxt h RunQueue = RunLink t \<and> prv h RunQueue = RunLink t \<and> at_head h t)) \<and> all_apart h"

lemma queue_flatE:
  assumes "queue_flat h"
  obtains "unlinked h (RunLink t)" | "at_head h t"
  using assms by (auto simp: queue_flat_def)

lemma flat_head:
  assumes "queue_flat h"
  obtains "ring h RunQueue []" | t where "ring h RunQueue [RunLink t]" "at_head h t"
  using assms by (auto simp: queue_flat_def unlinked_def at_head_def ring_def)

lemma flat_head_update:
  assumes "queue_flat h" "nxt h' = (nxt h)(RunQueue := x, RunLink t := y)" "prv h' = (prv h)(RunQueue := x, RunLink t := y)"
    "x = RunQueue \<or> x = RunLink t \<and> y = RunQueue" "y = RunLink t \<or> y = RunQueue"
  shows "queue_flat h'"
proof -
  have "unlinked h' (RunLink u) \<or> at_head h' u" for u
    using assms by (cases "u = t") (auto simp: queue_flat_def unlinked_def at_head_def)
  moreover have "unlinked h' RunQueue \<or> (\<exists>t. nxt h' RunQueue = RunLink t \<and> prv h' RunQueue = RunLink t \<and> at_head h' t)"
    using assms(2-5) by (auto simp: unlinked_def at_head_def)
  moreover have "all_apart h'"
    using assms(1-3) by (auto simp: queue_flat_def all_apart_def all_cells_def)
  ultimately show ?thesis
    by (simp add: queue_flat_def)
qed

lemma push_linked:
  "unlinked h (RunLink t) \<Longrightarrow> nxt (list_push_back h (RunLink t) RunQueue) = (nxt h)(RunQueue := RunLink t, RunLink t := RunQueue)"
  "unlinked h (RunLink t) \<Longrightarrow> prv (list_push_back h (RunLink t) RunQueue) = (prv h)(RunQueue := RunLink t, RunLink t := RunQueue)"
  "at_head h t \<Longrightarrow> nxt (list_push_back h (RunLink t) RunQueue) = (nxt h)(RunQueue := RunQueue, RunLink t := RunQueue)"
  "at_head h t \<Longrightarrow> prv (list_push_back h (RunLink t) RunQueue) = (prv h)(RunQueue := RunQueue, RunLink t := RunQueue)"
  by (simp_all add: list_push_back_def Let_def unlinked_def at_head_def fun_eq_iff)

lemma remove_linked:
  "unlinked h (RunLink t) \<Longrightarrow> list_remove h (RunLink t) = h"
  "at_head h t \<Longrightarrow> nxt (list_remove h (RunLink t)) = (nxt h)(RunQueue := RunQueue, RunLink t := RunLink t)"
  "at_head h t \<Longrightarrow> prv (list_remove h (RunLink t)) = (prv h)(RunQueue := RunQueue, RunLink t := RunLink t)"
  by (simp_all add: list_remove_def Let_def unlinked_def at_head_def fun_eq_iff fun_upd_idem set_next_def set_prev_def)

lemma flat_push:
  assumes "queue_flat h"
  shows "queue_flat (list_push_back h (RunLink t) RunQueue)"
proof (rule queue_flatE [OF assms, of t])
  assume "unlinked h (RunLink t)"
  then show ?thesis
    by (intro flat_head_update [OF assms push_linked(1,2)]) simp_all
next
  assume "at_head h t"
  then show ?thesis
    by (intro flat_head_update [OF assms push_linked(3,4)]) simp_all
qed

lemma flat_remove:
  assumes "queue_flat h"
  shows "queue_flat (list_remove h (RunLink t))"
proof (rule queue_flatE [OF assms, of t])
  assume "at_head h t"
  then show ?thesis
    by (intro flat_head_update [OF assms remove_linked(2,3)]) simp_all
qed (simp add: remove_linked(1) assms)

lemma flat_all_update:
  assumes "queue_flat h" "all_apart h'" "\<And>n. n \<notin> all_cells \<Longrightarrow> nxt h' n = nxt h n \<and> prv h' n = prv h n"
  shows "queue_flat h'"
  using assms by (simp add: queue_flat_def unlinked_def at_head_def)

lemma flat_apart: "queue_flat h \<Longrightarrow> all_apart h"
  by (simp add: queue_flat_def)

lemma flat_all_remove:
  assumes "queue_flat h"
  shows "queue_flat (list_remove h (AllLink t))"
proof (rule flat_all_update [OF assms])
  note a = flat_apart [OF assms]
  show "all_apart (list_remove h (AllLink t))"
    using a by (simp add: list_remove_def Let_def)
  fix n
  assume n: "n \<notin> all_cells"
  then have "n \<notin> {AllLink t, prv h (AllLink t), nxt h (AllLink t)}"
    using a by auto
  then show "nxt (list_remove h (AllLink t)) n = nxt h n \<and> prv (list_remove h (AllLink t)) n = prv h n"
    by (rule remove_frame)
qed

lemma flat_create:
  assumes "queue_flat h" "nxt h RunQueue \<noteq> RunLink t"
  shows "queue_flat (list_push_back (list_init (list_init h (RunLink t)) (AllLink t)) (AllLink t) AllThreads)"
    "nxt (list_push_back (list_init (list_init h (RunLink t)) (AllLink t)) (AllLink t) AllThreads) RunQueue = nxt h RunQueue"
proof -
  let ?h = "list_init h (RunLink t)"
  have a: "all_apart ?h"
    using flat_apart [OF assms(1)] by (simp add: list_init_def Let_def all_apart_other)
  then have f: "queue_flat ?h"
    using assms by (auto simp: queue_flat_def unlinked_def at_head_def list_init_links)
  show "queue_flat (list_push_back (list_init ?h (AllLink t)) (AllLink t) AllThreads)"
  proof (rule flat_all_update [OF f])
    show "all_apart (list_push_back (list_init ?h (AllLink t)) (AllLink t) AllThreads)"
      using a by (simp add: list_push_back_def list_init_def [of _ "AllLink t"] Let_def)
  qed (auto simp: list_push_back_def Let_def list_init_links)
  show "nxt (list_push_back (list_init ?h (AllLink t)) (AllLink t) AllThreads) RunQueue = nxt h RunQueue"
    by (simp add: list_push_back_def Let_def list_init_links)
qed

section \<open>Operations keep the shape\<close>

lemma thr_links_simps [simp]:
  "thr_links (scheduler_add_thread S t) = (if t = 0 then thr_links S else list_push_back (thr_links S) (RunLink t) RunQueue)"
  "thr_links (scheduler_remove_thread S t) = (if t = 0 then thr_links S else list_remove (thr_links S) (RunLink t))"
  "thr_links (thread_set_current g S t) = thr_links S" "thr_links (call_context_switch a b S) = thr_links S"
  by (simp_all add: scheduler_add_thread_def scheduler_remove_thread_def thread_set_current_def call_context_switch_def Let_def)

text \<open>The next thread is the one on the queue, if there is one, and leaves the queue empty.\<close>

lemma pick_next_flat:
  assumes "queue_flat (thr_links S)"
  obtains (none) "ring (thr_links S) RunQueue []" "pick_next_thread S = (0, S)"
    | (some) t where "ring (thr_links S) RunQueue [RunLink t]"
      "pick_next_thread S = (t, S\<lparr>thr_links := list_remove (thr_links S) (RunLink t), nr_running := nr_running S - 1\<rparr>)"
  using assms
proof (cases rule: flat_head)
  case 1
  then show thesis
    using ring_list_empty [OF 1] by (intro none) (simp_all add: pick_next_thread_def)
next
  case (2 t)
  then have "\<not> list_empty (thr_links S) RunQueue" "nxt (thr_links S) RunQueue = RunLink t"
    using ring_list_empty [OF 2(1)] ring_next_head [OF 2(1)] by simp_all
  then show thesis
    using 2(1) by (intro some [of t]) (simp_all add: pick_next_thread_def list_pop_front_def Let_def)
qed

lemma flat_pick:
  assumes "queue_flat (thr_links S)"
  shows "queue_flat (thr_links (snd (pick_next_thread S)))"
  by (rule pick_next_flat [OF assms]) (simp_all add: flat_remove assms)

lemma flat_schedule:
  assumes "queue_flat (thr_links S)"
  shows "queue_flat (thr_links (schedule g S))"
proof -
  obtain n S1 where p: "pick_next_thread S = (n, S1)"
    by (cases "pick_next_thread S")
  have "queue_flat (thr_links S1)"
    using flat_pick [OF assms] by (simp add: p)
  then show ?thesis
    by (simp add: schedule_def p Let_def flat_push)
qed

lemma flat_yield: "queue_flat (thr_links S) \<Longrightarrow> queue_flat (thr_links (thread_yield g S))"
  by (simp add: thread_yield_def Let_def flat_schedule flat_push)

lemma flat_tick: "queue_flat (thr_links S) \<Longrightarrow> queue_flat (thr_links (scheduler_tick g S))"
  by (simp add: scheduler_tick_def Let_def flat_schedule)

lemma flat_exit: "queue_flat (thr_links S) \<Longrightarrow> thread_exit g S = Some S' \<Longrightarrow> queue_flat (thr_links S')"
  by (auto simp: thread_exit_def Let_def flat_schedule flat_all_remove split: if_splits)

lemma thread_create_links:
  assumes "thread_create sy S name func arg z flags = Some (t, S')"
  shows "thr_links S' = (if t = 0 then thr_links S
    else list_push_back (list_init (list_init (thr_links S) (RunLink t)) (AllLink t)) (AllLink t) AllThreads)"
proof (cases "name = 0 \<or> func = 0")
  case True
  then show ?thesis
    using assms by (auto simp: thread_create_def)
next
  case False
  obtain u s where al: "slab_alloc (thr_slab S) (thread_cache S) = Some (u, s)"
    using False assms by (cases "slab_alloc (thr_slab S) (thread_cache S)") (auto simp: thread_create_def Let_def)
  obtain a m where st: "pmm_alloc (phys (slab_mon s)) (stack_order (unat (stack_size_of z div 4096)) 0) = (a, m)"
    by (cases "pmm_alloc (phys (slab_mon s)) (stack_order (unat (stack_size_of z div 4096)) 0)")
  show ?thesis
    by (rule thread_create_outcomes [OF _ _ al st, of name func sy arg flags]) (use False assms in auto)
qed

lemma flat_thread_create:
  assumes "queue_flat (thr_links S)" "thread_create sy S name func arg z flags = Some (t, S')" "nxt (thr_links S) RunQueue \<noteq> RunLink t"
  shows "queue_flat (thr_links S')" "nxt (thr_links S') RunQueue = nxt (thr_links S) RunQueue"
  using thread_create_links [OF assms(2)] flat_create [OF assms(1,3)] assms(1) by auto

lemma flat_idle_threads:
  "queue_flat (thr_links S) \<Longrightarrow> nxt (thr_links S) RunQueue = RunQueue \<Longrightarrow> create_idle_threads sy is S = Some S' \<Longrightarrow>
   queue_flat (thr_links S')"
proof (induction "is" arbitrary: S)
  case (Cons i "is")
  obtain t S1 where t: "thread_create sy S (idle_name_buf sy) (idle_thread_func sy) (of_nat i) THREAD_DEFAULT_STACK_SIZE THREAD_FLAG_KERNEL = Some (t, S1)"
    "create_idle_threads sy is (if t = 0 then S1 else S1\<lparr>idle_threads := (idle_threads S1)(i := t)\<rparr>) = Some S'"
    using Cons.prems(3) by (auto simp: bind_eq_Some_conv split: if_splits)
  have "queue_flat (thr_links S1)" "nxt (thr_links S1) RunQueue = RunQueue"
    using flat_thread_create [OF Cons.prems(1) t(1)] Cons.prems(2) by simp_all
  then show ?case
    using Cons.IH [OF _ _ t(2)] by simp
qed simp

lemma clear_idle_links: "thr_links (fold (\<lambda>i S. S\<lparr>idle_threads := (idle_threads S)(i := 0)\<rparr>) is S) = thr_links S"
  by (induction "is" arbitrary: S) simp_all

text \<open>The states the scheduler reaches: after \<open>scheduler_init\<close>, by creating threads (in structures that
  are not on the queue) and by its operations on any processor, with any threads, in any order.\<close>

inductive sched_reach :: "kernel_syms \<Rightarrow> thread_sys \<Rightarrow> bool" for sy where
  init: "(\<And>n. unlinked (thr_links S) n) \<Longrightarrow> scheduler_init sy S = Some S' \<Longrightarrow> sched_reach sy S'"
| create: "sched_reach sy S \<Longrightarrow> thread_create sy S name func arg z flags = Some (t, S') \<Longrightarrow>
    nxt (thr_links S) RunQueue \<noteq> RunLink t \<Longrightarrow> sched_reach sy S'"
| destroy: "sched_reach sy S \<Longrightarrow> thread_destroy S t = Some S' \<Longrightarrow> sched_reach sy S'"
| add: "sched_reach sy S \<Longrightarrow> sched_reach sy (scheduler_add_thread S t)"
| remove: "sched_reach sy S \<Longrightarrow> sched_reach sy (scheduler_remove_thread S t)"
| schedule: "sched_reach sy S \<Longrightarrow> sched_reach sy (schedule g S)"
| tick: "sched_reach sy S \<Longrightarrow> sched_reach sy (scheduler_tick g S)"
| yield: "sched_reach sy S \<Longrightarrow> sched_reach sy (thread_yield g S)"
| exit: "sched_reach sy S \<Longrightarrow> thread_exit g S = Some S' \<Longrightarrow> sched_reach sy S'"
| start: "sched_reach sy S \<Longrightarrow> sched_reach sy (scheduler_start g S)"

lemma thread_destroy_links: "thread_destroy S t = Some S' \<Longrightarrow> thr_links S' = thr_links S"
  by (auto simp: thread_destroy_def Let_def bind_eq_Some_conv split: if_splits)

lemma reach_flat: "sched_reach sy S \<Longrightarrow> queue_flat (thr_links S)"
proof (induction rule: sched_reach.induct)
  case (init S S')
  then have "queue_flat (list_init (thr_links S) RunQueue)"
    by (auto simp: queue_flat_def unlinked_def all_apart_def list_init_links)
  then show ?case
    using flat_idle_threads [OF _ _ init(2) [unfolded scheduler_init_def Let_def]]
    by (simp only: clear_idle_links thread_sys.simps) (simp add: list_init_links)
next
  case (create S name func arg z flags t S')
  then show ?case
    using flat_thread_create(1) by blast
qed (simp_all add: flat_push flat_remove flat_schedule flat_tick flat_yield flat_exit thread_destroy_links scheduler_start_def Let_def)


lemma unlinked_not_in_ring:
  assumes "ring h p xs" "unlinked h n"
  shows "n \<notin> set xs"
proof
  assume "n \<in> set xs"
  then obtain us vs where xs: "xs = us @ n # vs"
    by (meson split_list)
  then have "hd (vs @ [p]) = n"
    using ring_next_cell [of h p us n vs] assms by (simp add: unlinked_def)
  then show False
    using ring_distinct [OF assms(1)] xs by (cases vs) auto
qed

text \<open>A thread that is on no list becomes the whole queue.\<close>

lemma add_thread_queue:
  assumes "unlinked (thr_links S) (RunLink t)" "t \<noteq> 0"
  shows "ring (thr_links (scheduler_add_thread S t)) RunQueue [RunLink t]" "nr_running (scheduler_add_thread S t) = nr_running S + 1"
    "threads (scheduler_add_thread S t) = (threads S)(t := (threads S t)\<lparr>thread_state := THREAD_READY\<rparr>)"
    "current_thread (scheduler_add_thread S t) = current_thread S" "switches (scheduler_add_thread S t) = switches S"
    "idle_threads (scheduler_add_thread S t) = idle_threads S" "current_cpu_index (scheduler_add_thread S t) = current_cpu_index S"
proof -
  show "ring (thr_links (scheduler_add_thread S t)) RunQueue [RunLink t]"
    using assms push_back_swapped [of "thr_links S" "RunLink t" RunQueue] by (simp add: unlinked_def)
  show "threads (scheduler_add_thread S t) = (threads S)(t := (threads S t)\<lparr>thread_state := THREAD_READY\<rparr>)"
    using assms(2) by (auto simp: scheduler_add_thread_def Let_def upd_thread_def fun_eq_iff)
qed (use assms(2) in \<open>simp_all add: scheduler_add_thread_def Let_def upd_thread_def\<close>)

lemma pick_next_ring:
  assumes "ring (thr_links S) RunQueue (RunLink n # q)"
  shows "pick_next_thread S = (n, S\<lparr>thr_links := list_remove (thr_links S) (RunLink n), nr_running := nr_running S - 1\<rparr>)"
    "ring (list_remove (thr_links S) (RunLink n)) RunQueue q"
  using ring_list_empty [OF assms] ring_next_head [OF assms] ring_remove(1) [of "thr_links S" RunQueue "[]" "RunLink n" q] assms
  by (simp_all add: pick_next_thread_def list_pop_front_def Let_def)

lemma schedule_same:
  assumes "thread_get_current g S = p" "pick_next_thread S = (p, S')" "p \<noteq> 0"
  shows "schedule g S = S'"
  using assms by (simp add: schedule_def Let_def)

text \<open>C23: what a switch does. \<open>schedule\<close> with a thread at the front of the queue takes that thread
  off, makes it the current and running one and switches from the context of the thread before to
  its context; no other thread and no other processor's current thread change. A thread that
  was terminated or blocked keeps its state and the rest of the queue is as before. A thread that
  can run on is made ready and becomes the whole queue: the threads that waited behind the new
  one are dropped from it, and \<open>nr_running\<close> still counts them.\<close>

theorem schedule_switches:
  assumes "ring (thr_links S) RunQueue (RunLink n # q)" and "n \<noteq> 0" and "p = thread_get_current g S" and "p \<noteq> 0" and "p \<noteq> n"
    and "unlinked (thr_links S) (RunLink p)" and "S' = schedule g S"
  shows "current_thread S' = (current_thread S)(g := n) \<and> thread_get_state S' n = THREAD_RUNNING \<and>
    thread_cpu (threads S' n) = int (smp_get_cpu_index S) \<and> switches S' = (context_ptr p, context_ptr n) # switches S \<and>
    (\<forall>t. t = p \<or> t = n \<or> threads S' t = threads S t) \<and>
    (if thread_get_state S p = THREAD_TERMINATED \<or> thread_get_state S p = THREAD_BLOCKED
     then threads S' p = threads S p \<and> list_for_each (thr_links S') RunQueue = Some q \<and> nr_running S' = nr_running S - 1
     else threads S' p = (threads S p)\<lparr>thread_state := THREAD_READY\<rparr> \<and>
       list_for_each (thr_links S') RunQueue = Some [RunLink p] \<and> nr_running S' = nr_running S)"
proof -
  let ?h = "list_remove (thr_links S) (RunLink n)"
  let ?S1 = "S\<lparr>thr_links := ?h, nr_running := nr_running S - 1\<rparr>"
  let ?S2 = "upd_thread p (\<lambda>x. x\<lparr>thread_state := THREAD_READY\<rparr>) ?S1"
  note k = pick_next_ring [OF assms(1)]
  have "RunLink p \<noteq> nxt (thr_links S) (RunLink n)" "RunLink p \<noteq> prv (thr_links S) (RunLink n)"
    using unlinked_not_in_ring [OF assms(1,6)] ring_cell_neighbours [OF assms(1), of "RunLink n"] by auto
  then have u: "unlinked (thr_links ?S2) (RunLink p)"
    using remove_frame [of "RunLink p" "RunLink n" "thr_links S"] assms(5,6) by (simp add: unlinked_def upd_thread_def)
  note A = add_thread_queue [OF u assms(4)]
  show ?thesis
  proof (cases "thread_get_state S p = THREAD_TERMINATED \<or> thread_get_state S p = THREAD_BLOCKED")
    case True
    then have "S' = call_context_switch (context_ptr p) (context_ptr n) (thread_set_current g
        (upd_thread n (\<lambda>x. x\<lparr>thread_cpu := int (smp_get_cpu_index S)\<rparr>) (upd_thread n (\<lambda>x. x\<lparr>thread_state := THREAD_RUNNING\<rparr>) ?S1)) n)"
      using assms(2-5) unfolding assms(7)
      by (auto simp: schedule_def k(1) Let_def thread_get_state_def smp_get_cpu_index_def upd_thread_def)
    then show ?thesis
      using True assms(2-5) ring_for_each [OF k(2)]
      by (simp add: call_context_switch_def thread_set_current_def upd_thread_def thread_get_state_def)
  next
    case False
    then have "S' = call_context_switch (context_ptr p) (context_ptr n) (thread_set_current g
        (upd_thread n (\<lambda>x. x\<lparr>thread_cpu := int (smp_get_cpu_index S)\<rparr>) (upd_thread n (\<lambda>x. x\<lparr>thread_state := THREAD_RUNNING\<rparr>)
          (scheduler_add_thread ?S2 p))) n)"
      using assms(2-5) A(7) unfolding assms(7)
      by (simp add: schedule_def k(1) Let_def thread_get_state_def smp_get_cpu_index_def upd_thread_def)
    then show ?thesis
      using False assms(2-5) ring_for_each [OF A(1)] A(2-5)
      by (simp add: call_context_switch_def thread_set_current_def upd_thread_def thread_get_state_def)
  qed
qed

text \<open>\<open>thread_yield\<close> of a running thread never gives the processor to another one. The thread
  makes itself the whole queue, is picked again, and no switch takes place; what waited on the
  queue is dropped, the queue is empty and the thread goes on running in state \<open>THREAD_READY\<close>.\<close>

lemma thread_yield_stays:
  assumes "p = thread_get_current g S" and "p \<noteq> 0" and "unlinked (thr_links S) (RunLink p)" and "S' = thread_yield g S"
  shows "current_thread S' = current_thread S \<and> switches S' = switches S \<and> thread_get_state S' p = THREAD_READY \<and>
    list_for_each (thr_links S') RunQueue = Some [] \<and> nr_running S' = nr_running S"
proof -
  let ?S = "scheduler_add_thread (upd_thread p (\<lambda>x. x\<lparr>thread_state := THREAD_READY\<rparr>) S) p"
  have u: "unlinked (thr_links (upd_thread p (\<lambda>x. x\<lparr>thread_state := THREAD_READY\<rparr>) S)) (RunLink p)"
    using assms(3) by simp
  note A = add_thread_queue [OF u assms(2)]
  note k = pick_next_ring [OF A(1)]
  have c: "thread_get_current g ?S = p"
    using A(4) assms(1) by (simp add: thread_get_current_def upd_thread_def)
  have "S' = ?S\<lparr>thr_links := list_remove (thr_links ?S) (RunLink p), nr_running := nr_running ?S - 1\<rparr>"
    using assms(2) schedule_same [OF c k(1)] unfolding assms(4) by (simp add: thread_yield_def assms(1) [symmetric])
  then show ?thesis
    using ring_for_each [OF k(2)] A(2-5) assms(2) by (simp add: thread_get_state_def upd_thread_def del: thr_links_simps)
qed

text \<open>Three threads: the first is the current one on processor 0 and the other two are queued in
  the order a FIFO queue would have them.\<close>

definition sched_example :: thread_sys where
  "sched_example = thread_example\<lparr>current_thread := (\<lambda>_. 0)(0 := 0x1000),
     threads := (\<lambda>_. thread_zero\<lparr>thread_state := THREAD_RUNNING\<rparr>),
     thr_links := list_push_back (list_push_back \<lparr>nxt = (\<lambda>x. x), prv = (\<lambda>x. x)\<rparr> RunQueue (RunLink 0x2000)) RunQueue (RunLink 0x3000),
     nr_running := 2\<rparr>"

lemma sched_example_ring: "ring (thr_links sched_example) RunQueue [RunLink 0x2000, RunLink 0x3000]"
  by (simp add: sched_example_def list_push_back_def Let_def ring_def)

lemma sched_example_current:
  "thread_get_current 0 sched_example = 0x1000" "unlinked (thr_links sched_example) (RunLink 0x1000)"
  by (simp_all add: sched_example_def thread_get_current_def list_push_back_def Let_def unlinked_def)

theorem schedule_switches_witness:
  "thread_get_current 0 (schedule 0 sched_example) = 0x2000 \<and>
   list_for_each (thr_links (schedule 0 sched_example)) RunQueue = Some [RunLink 0x1000] \<and> nr_running (schedule 0 sched_example) = 2"
  using schedule_switches [OF sched_example_ring, of "0x1000" 0 "schedule 0 sched_example"] sched_example_current
  by (simp add: thread_get_current_def thread_get_state_def) (simp add: sched_example_def)

lemma thread_yield_stays_witness:
  "thread_get_current 0 (thread_yield 0 sched_example) = 0x1000 \<and>
   list_for_each (thr_links (thread_yield 0 sched_example)) RunQueue = Some [] \<and> nr_running (thread_yield 0 sched_example) = 2"
  using thread_yield_stays [of "0x1000" 0 sched_example] sched_example_current
  by (simp add: thread_get_current_def) (simp add: sched_example_def)

lemma create_idle_returns:
  "threads_inv C S \<Longrightarrow> \<exists>S'. create_idle_threads sy is S = Some S'"
proof (induction "is" arbitrary: S)
  case (Cons i "is")
  obtain t S1 where t: "thread_create sy S (idle_name_buf sy) (idle_thread_func sy) (of_nat i) THREAD_DEFAULT_STACK_SIZE THREAD_FLAG_KERNEL = Some (t, S1)"
    using thread_create_returns [OF Cons.prems] by blast
  have "threads_inv C S1"
    using thread_create_inv [OF Cons.prems t] by simp
  moreover have "threads_inv C (S1\<lparr>idle_threads := x\<rparr>) \<longleftrightarrow> threads_inv C S1" for x
    by (rule threads_inv_cong) simp_all
  ultimately show ?case
    using Cons.IH t by simp
qed simp

lemma scheduler_init_returns:
  assumes "threads_inv C S"
  shows "\<exists>S'. scheduler_init sy S = Some S'"
proof -
  have f: "thr_slab (fold (\<lambda>i S. S\<lparr>idle_threads := (idle_threads S)(i := 0)\<rparr>) is S) = thr_slab S \<and>
      thread_cache (fold (\<lambda>i S. S\<lparr>idle_threads := (idle_threads S)(i := 0)\<rparr>) is S) = thread_cache S \<and>
      threads (fold (\<lambda>i S. S\<lparr>idle_threads := (idle_threads S)(i := 0)\<rparr>) is S) = threads S" for "is" S
    by (induction "is" arbitrary: S) simp_all
  have "threads_inv C (fold (\<lambda>i S. S\<lparr>idle_threads := (idle_threads S)(i := 0)\<rparr>) is (S\<lparr>thr_links := h, nr_running := 0\<rparr>)) \<longleftrightarrow>
      threads_inv C S" for "is" h
    by (rule threads_inv_cong) (simp_all add: f)
  with assms show ?thesis
    unfolding scheduler_init_def Let_def by (intro create_idle_returns) blast
qed


end
