(* ===== verification/Kmap.thy ===== *)
theory Kmap
  imports Object_Cache
begin

text \<open>
  Kernel mappings, \<^verbatim>\<open>src/kernel/kmap.c\<close>: the list of regions and the page table operations on them. A
  mapping is the address of its structure, an object of 128 bytes of the slab allocator; its
  fields are a record found by that address. The list cells are the head \<open>KmapList\<close> and the link
  \<open>KNode\<close> at the start of a mapping. Page tables are the words of the monitor's memory model,
  reached through the kernel's window on physical memory (\<open>PA_TO_VA\<close>), so that an entry of the
  table at physical address \<open>t\<close> is a word at \<open>t\<close>. 0 is the null pointer; \<open>None\<close> as a result is a
  call that does not return. Operations that hold \<open>kmap_lock\<close> are one step, and log output is
  not modelled.
\<close>

section \<open>State\<close>

datatype kmap_type_t = KMAP_CODE | KMAP_RODATA | KMAP_DATA | KMAP_STACK | KMAP_PAGETABLE | KMAP_PMM | KMAP_SLAB
  | KMAP_DEVICE | KMAP_DYNAMIC

datatype kmap_pageable_t = KMAP_NONPAGEABLE | KMAP_PAGEABLE

datatype kmap_monitor_t = KMAP_MONITOR_NONE | KMAP_MONITOR_READONLY | KMAP_MONITOR_PRIVATE

text \<open>The fields of \<open>struct kmap_s\<close> other than the link; \<open>kname\<close> is the string in the array \<open>name\<close>, and
  \<open>refcount\<close> its 32 bits.\<close>

record kmap_t =
  virt_start :: u64
  virt_end :: u64
  phys_base :: u64
  ktype :: kmap_type_t
  pageable :: kmap_pageable_t
  monitor :: kmap_monitor_t
  kflags :: u64
  refcount :: u32
  num_pages :: u64
  kname :: string

datatype kmap_node = KmapList | KNode u64

record kmap_state =
  km_slab :: slab_state
  km_links :: "kmap_node list_store"
  kmaps :: "u64 \<Rightarrow> kmap_t"
  kmap_initialized :: bool

abbreviation km_mon :: "kmap_state \<Rightarrow> mon_state" where
  "km_mon S \<equiv> slab_mon (km_slab S)"

definition set_km_mon :: "kmap_state \<Rightarrow> mon_state \<Rightarrow> kmap_state" where
  "set_km_mon S m = S\<lparr>km_slab := (km_slab S)\<lparr>slab_mon := m\<rparr>\<rparr>"

definition upd_kmap :: "u64 \<Rightarrow> (kmap_t \<Rightarrow> kmap_t) \<Rightarrow> kmap_state \<Rightarrow> kmap_state" where
  "upd_kmap a f S = S\<lparr>kmaps := (kmaps S)(a := f (kmaps S a))\<rparr>"

text \<open>\<open>list_entry\<close>: the link is at offset 0 of a mapping. The head is in no mapping.\<close>

fun kmap_entry :: "kmap_node \<Rightarrow> u64" where
  "kmap_entry (KNode a) = a"
| "kmap_entry KmapList = 0"

abbreviation KMAP_ALLOC_SIZE :: u64 where "KMAP_ALLOC_SIZE \<equiv> 128"
abbreviation KERNEL_BASE_VA :: u64 where "KERNEL_BASE_VA \<equiv> 0xFFFFFFFF80000000"
abbreviation KERNEL_BASE_PA :: u64 where "KERNEL_BASE_PA \<equiv> 0x400000"
abbreviation BOOT_IDENTITY_MAP_SIZE :: u64 where "BOOT_IDENTITY_MAP_SIZE \<equiv> 0x200000"
abbreviation BOOT_KERNEL_MAP_SIZE :: u64 where "BOOT_KERNEL_MAP_SIZE \<equiv> 0x200000"
abbreviation X86_PTE_PHYS_MASK :: u64 where "X86_PTE_PHYS_MASK \<equiv> 0xFFFFFFF000"

definition PAGE_ALIGNED :: "u64 \<Rightarrow> bool" where
  "PAGE_ALIGNED addr \<longleftrightarrow> addr AND (PAGE_SIZE - 1) = 0"

section \<open>Page tables\<close>

definition get_pml4 :: "mon_state \<Rightarrow> u64" where
  "get_pml4 m = cr3 m AND NOT 0xFFF"

definition get_pt_index :: "u64 \<Rightarrow> nat \<Rightarrow> u64" where
  "get_pt_index addr level = drop_bit (12 + level * 9) addr AND 0x1FF"

definition pte_get_phys :: "u64 \<Rightarrow> u64" where
  "pte_get_phys pte = pte AND X86_PTE_PHYS_MASK"

definition pte_set_flags :: "u64 \<Rightarrow> u64 \<Rightarrow> u64" where
  "pte_set_flags pte flags = (pte AND 0xFFFFFFF000000000) OR (flags AND 0x0000000FFFFFFFFF)"

definition present :: "u64 \<Rightarrow> bool" where
  "present pte \<longleftrightarrow> pte AND X86_PTE_PRESENT \<noteq> 0"

definition mon_free_page :: "mon_state \<Rightarrow> u64 \<Rightarrow> mon_state option" where
  "mon_free_page m a = map_option (\<lambda>p. m\<lparr>phys := p\<rparr>) (phys_free (phys m) a 0)"

text \<open>A missing table: a cleared page linked into entry \<open>i\<close> of the table \<open>t\<close>, or 0 when there is no
  page; and the rollback of such a link.\<close>

definition kmap_link_table :: "mon_state \<Rightarrow> u64 \<Rightarrow> u64 \<Rightarrow> u64 \<times> mon_state" where
  "kmap_link_table m t i =
     (case mon_pmm_alloc m 0 of
        (page, m) \<Rightarrow>
          if page = 0 then (0, m)
          else (page, pt_write (clear_table m page) t i (page OR X86_PTE_PRESENT OR X86_PTE_WRITABLE OR X86_PTE_USER)))"

definition kmap_unlink_table :: "mon_state \<Rightarrow> u64 \<Rightarrow> u64 \<Rightarrow> u64 \<Rightarrow> mon_state option" where
  "kmap_unlink_table m t i page = (if page = 0 then Some m else mon_free_page (pt_write m t i 0) page)"

text \<open>One level of the walk: whether it fails, the page it created (0 for none), the next table.\<close>

definition kmap_level :: "mon_state \<Rightarrow> u64 \<Rightarrow> u64 \<Rightarrow> bool \<times> u64 \<times> u64 \<times> mon_state" where
  "kmap_level m t i =
     (if present (pt_read m t i) then (False, 0, pte_get_phys (pt_read m t i), m)
      else case kmap_link_table m t i of
             (page, m) \<Rightarrow> (page = 0, page, pte_get_phys (pt_read m t i), m))"

text \<open>The walk of \<open>kmap_alloc_page\<close> and \<open>kmap_map_pages_direct\<close> down to the last table, creating what is
  missing; when a page is missing, what was created is taken back and the result is \<open>None\<close>.\<close>

definition kmap_walk_create :: "mon_state \<Rightarrow> u64 \<Rightarrow> (u64 option \<times> mon_state) option" where
  "kmap_walk_create m virt_addr =
     (let pml4 = get_pml4 m;
          pml4_idx = get_pt_index virt_addr 3;
          pdpt_idx = get_pt_index virt_addr 2;
          pd_idx = get_pt_index virt_addr 1
      in case kmap_level m pml4 pml4_idx of
           (fail, pdpt_page, pdpt, m) \<Rightarrow>
             if fail then Some (None, m)
             else case kmap_level m pdpt pdpt_idx of
               (fail, pd_page, pd, m) \<Rightarrow>
                 if fail then
                   Option.bind (kmap_unlink_table m pml4 pml4_idx pdpt_page) (\<lambda>m. Some (None, m))
                 else case kmap_level m pd pd_idx of
                   (fail, pt_page, pt, m) \<Rightarrow>
                     if fail then
                       Option.bind (kmap_unlink_table m pdpt pdpt_idx pd_page) (\<lambda>m.
                         Option.bind (kmap_unlink_table m pml4 pml4_idx pdpt_page) (\<lambda>m. Some (None, m)))
                     else Some (Some pt, m))"

definition kmap_alloc_page :: "mon_state \<Rightarrow> u64 \<Rightarrow> u64 \<Rightarrow> (int \<times> mon_state) option" where
  "kmap_alloc_page m virt_addr flags =
     (case mon_pmm_alloc m 0 of
        (page, m) \<Rightarrow>
          if page = 0 then Some (-1, m)
          else Option.bind (kmap_walk_create m virt_addr) (\<lambda>(r, m).
            case r of
              None \<Rightarrow> Option.bind (mon_free_page m page) (\<lambda>m. Some (-1, m))
            | Some pt \<Rightarrow>
                let m = pt_write m pt (get_pt_index virt_addr 0) (page OR flags)
                in Some (0, arch_tlb_invalidate_page m virt_addr)))"

definition kmap_map_pages_direct :: "mon_state \<Rightarrow> u64 \<Rightarrow> u64 \<Rightarrow> u64 \<Rightarrow> (int \<times> mon_state) option" where
  "kmap_map_pages_direct m virt_addr phys_addr flags =
     (if phys_addr AND (PAGE_SIZE - 1) \<noteq> 0 then Some (-1, m)
      else Option.bind (kmap_walk_create m virt_addr) (\<lambda>(r, m).
        case r of
          None \<Rightarrow> Some (-1, m)
        | Some pt \<Rightarrow>
            let m = pt_write m pt (get_pt_index virt_addr 0) (phys_addr OR flags)
            in Some (0, arch_tlb_invalidate_page m virt_addr)))"

text \<open>The tables on the way to a page that is mapped, \<open>None\<close> when one is missing.\<close>

definition kmap_walk :: "mon_state \<Rightarrow> u64 \<Rightarrow> (u64 \<times> u64 \<times> u64) option" where
  "kmap_walk m virt_addr =
     (let pml4 = get_pml4 m;
          e4 = pt_read m pml4 (get_pt_index virt_addr 3);
          pdpt = pte_get_phys e4;
          e3 = pt_read m pdpt (get_pt_index virt_addr 2);
          pd = pte_get_phys e3;
          e2 = pt_read m pd (get_pt_index virt_addr 1);
          pt = pte_get_phys e2
      in if \<not> present e4 then None
         else if \<not> present e3 then None
         else if \<not> present e2 then None
         else if \<not> present (pt_read m pt (get_pt_index virt_addr 0)) then None
         else Some (pdpt, pd, pt))"

definition table_empty :: "mon_state \<Rightarrow> u64 \<Rightarrow> bool" where
  "table_empty m t \<longleftrightarrow> (\<forall>i\<in>set [0..<512]. \<not> present (pt_read m t (of_nat i)))"

definition kmap_free_page :: "mon_state \<Rightarrow> u64 \<Rightarrow> (u64 \<times> mon_state) option" where
  "kmap_free_page m virt_addr =
     (let pml4 = get_pml4 m;
          pml4_idx = get_pt_index virt_addr 3;
          pdpt_idx = get_pt_index virt_addr 2;
          pd_idx = get_pt_index virt_addr 1;
          pt_idx = get_pt_index virt_addr 0
      in case kmap_walk m virt_addr of
           None \<Rightarrow> Some (0, m)
         | Some (pdpt, pd, pt) \<Rightarrow>
             let phys = pte_get_phys (pt_read m pt pt_idx);
                 m = pt_write m pt pt_idx 0;
                 m = arch_tlb_invalidate_page m virt_addr
             in Option.bind (mon_free_page m phys) (\<lambda>m.
                  if \<not> table_empty m pt then Some (phys, m)
                  else let pt_phys = pte_get_phys (pt_read m pd pd_idx);
                           m = pt_write m pd pd_idx 0
                       in Option.bind (mon_free_page m pt_phys) (\<lambda>m.
                            if \<not> table_empty m pd then Some (phys, m)
                            else let pd_phys = pte_get_phys (pt_read m pdpt pdpt_idx);
                                     m = pt_write m pdpt pdpt_idx 0
                                 in Option.bind (mon_free_page m pd_phys) (\<lambda>m.
                                      if \<not> table_empty m pdpt then Some (phys, m)
                                      else let pdpt_phys = pte_get_phys (pt_read m pml4 pml4_idx);
                                               m = pt_write m pml4 pml4_idx 0
                                           in Option.bind (mon_free_page m pdpt_phys) (\<lambda>m. Some (phys, m))))))"

section \<open>Mappings\<close>

text \<open>The array \<open>name\<close> after \<open>strncpy\<close> of at most 31 characters and the terminator; a null name is \<open>None\<close>.\<close>

definition copy_name :: "string option \<Rightarrow> string" where
  "copy_name name = (case name of None \<Rightarrow> [] | Some n \<Rightarrow> take 31 n)"

definition kmap_create ::
    "kmap_state \<Rightarrow> u64 \<Rightarrow> u64 \<Rightarrow> u64 \<Rightarrow> u64 \<Rightarrow> kmap_type_t \<Rightarrow> kmap_pageable_t \<Rightarrow> kmap_monitor_t \<Rightarrow> string option \<Rightarrow>
      (u64 \<times> kmap_state) option" where
  "kmap_create S vstart vend pbase flags type pg mon name =
     (if \<not> PAGE_ALIGNED vstart \<or> \<not> PAGE_ALIGNED vend then Some (0, S)
      else if vstart \<ge> vend then Some (0, S)
      else Option.bind (slab_alloc_size (km_slab S) KMAP_ALLOC_SIZE) (\<lambda>(mapping, s).
        let S = S\<lparr>km_slab := s\<rparr>
        in if mapping = 0 then Some (0, S)
           else let S = upd_kmap mapping (\<lambda>_. \<lparr>virt_start = vstart, virt_end = vend, phys_base = pbase, ktype = type,
                      pageable = pg, monitor = mon, kflags = flags, refcount = 1,
                      num_pages = (vend - vstart) div PAGE_SIZE, kname = copy_name name\<rparr>) S
                in Option.bind (list_find (km_links S) KmapList (\<lambda>pos. vstart < virt_start (kmaps S (kmap_entry pos)))) (\<lambda>pos.
                     case pos of
                       Some pos \<Rightarrow> Some (mapping, S\<lparr>km_links := list_push_front (km_links S) pos (KNode mapping)\<rparr>)
                     | None \<Rightarrow> Some (mapping, S\<lparr>km_links := list_push_back (km_links S) KmapList (KNode mapping)\<rparr>))))"

definition kmap_init :: "kmap_state \<Rightarrow> kmap_state option" where
  "kmap_init S =
     (let S = S\<lparr>km_links := list_init (km_links S) KmapList\<rparr>
      in Option.bind (kmap_create S 0 BOOT_IDENTITY_MAP_SIZE 0 (X86_PTE_PRESENT OR X86_PTE_WRITABLE)
           KMAP_DEVICE KMAP_NONPAGEABLE KMAP_MONITOR_NONE (Some ''identity_low'')) (\<lambda>(_, S).
         Option.bind (kmap_create S KERNEL_BASE_VA (KERNEL_BASE_VA + BOOT_KERNEL_MAP_SIZE) KERNEL_BASE_PA
           (X86_PTE_PRESENT OR X86_PTE_WRITABLE) KMAP_CODE KMAP_NONPAGEABLE KMAP_MONITOR_READONLY (Some ''kernel_code'')) (\<lambda>(_, S).
         Some (S\<lparr>kmap_initialized := True\<rparr>))))"

definition kmap_destroy :: "kmap_state \<Rightarrow> u64 \<Rightarrow> int \<times> kmap_state" where
  "kmap_destroy S mapping =
     (if mapping = 0 then (-1, S)
      else if refcount (kmaps S mapping) \<noteq> 0 then (-1, S)
      else let S = S\<lparr>km_links := list_remove (km_links S) (KNode mapping)\<rparr>
           in (0, S\<lparr>km_slab := slab_free_size (km_slab S) mapping KMAP_ALLOC_SIZE\<rparr>))"

definition kmap_get :: "kmap_state \<Rightarrow> u64 \<Rightarrow> kmap_state" where
  "kmap_get S mapping =
     (if mapping \<noteq> 0 then upd_kmap mapping (\<lambda>k. k\<lparr>refcount := refcount k + 1\<rparr>) S else S)"

definition kmap_put :: "kmap_state \<Rightarrow> u64 \<Rightarrow> kmap_state" where
  "kmap_put S mapping =
     (if mapping = 0 then S
      else let old = refcount (kmaps S mapping);
               S = upd_kmap mapping (\<lambda>k. k\<lparr>refcount := refcount k - 1\<rparr>) S
           in if old = 1 then snd (kmap_destroy S mapping) else S)"

definition kmap_split :: "kmap_state \<Rightarrow> u64 \<Rightarrow> u64 \<Rightarrow> (int \<times> kmap_state) option" where
  "kmap_split S mapping split_addr =
     (if mapping = 0 then Some (-1, S)
      else if \<not> PAGE_ALIGNED split_addr then Some (-1, S)
      else if split_addr \<le> virt_start (kmaps S mapping) \<or> split_addr \<ge> virt_end (kmaps S mapping) then Some (-1, S)
      else Option.bind (slab_alloc_size (km_slab S) KMAP_ALLOC_SIZE) (\<lambda>(new_mapping, s).
        let S = S\<lparr>km_slab := s\<rparr>
        in if new_mapping = 0 then Some (-1, S)
           else let k = kmaps S mapping;
                    S = upd_kmap new_mapping (\<lambda>_. \<lparr>virt_start = split_addr, virt_end = virt_end k,
                          phys_base = phys_base k + (split_addr - virt_start k), ktype = ktype k, pageable = pageable k,
                          monitor = monitor k, kflags = kflags k, refcount = 1,
                          num_pages = (virt_end k - split_addr) div PAGE_SIZE, kname = kname k\<rparr>) S;
                    S = upd_kmap mapping (\<lambda>k. k\<lparr>virt_end := split_addr,
                          num_pages := (split_addr - virt_start k) div PAGE_SIZE\<rparr>) S
                in Some (0, S\<lparr>km_links := list_push_front (km_links S) (KNode mapping) (KNode new_mapping)\<rparr>)))"

definition kmap_merge :: "kmap_state \<Rightarrow> u64 \<Rightarrow> u64 \<Rightarrow> int \<times> kmap_state" where
  "kmap_merge S m1 m2 =
     (let k1 = kmaps S m1; k2 = kmaps S m2
      in if m1 = 0 \<or> m2 = 0 then (-1, S)
         else if virt_end k1 \<noteq> virt_start k2 then (-1, S)
         else if ktype k1 \<noteq> ktype k2 \<or> pageable k1 \<noteq> pageable k2 \<or> monitor k1 \<noteq> monitor k2 \<or> kflags k1 \<noteq> kflags k2 then (-1, S)
         else if refcount k1 \<noteq> 1 \<or> refcount k2 \<noteq> 1 then (-1, S)
         else let S = upd_kmap m1 (\<lambda>k. k\<lparr>virt_end := virt_end k2, num_pages := num_pages k + num_pages k2\<rparr>) S;
                  S = S\<lparr>km_links := list_remove (km_links S) (KNode m2)\<rparr>
              in (0, S\<lparr>km_slab := slab_free_size (km_slab S) m2 KMAP_ALLOC_SIZE\<rparr>))"

text \<open>The two lookups differ in the condition on an entry. The reference is taken with the lock held.\<close>

definition kmap_search :: "(kmap_t \<Rightarrow> bool) \<Rightarrow> kmap_state \<Rightarrow> (u64 \<times> kmap_state) option" where
  "kmap_search P S =
     Option.bind (list_find (km_links S) KmapList (\<lambda>pos. P (kmaps S (kmap_entry pos)))) (\<lambda>pos.
       case pos of
         None \<Rightarrow> Some (0, S)
       | Some pos \<Rightarrow> Some (kmap_entry pos, upd_kmap (kmap_entry pos) (\<lambda>k. k\<lparr>refcount := refcount k + 1\<rparr>) S))"

definition kmap_lookup :: "kmap_state \<Rightarrow> u64 \<Rightarrow> (u64 \<times> kmap_state) option" where
  "kmap_lookup S addr = kmap_search (\<lambda>entry. addr \<ge> virt_start entry \<and> addr < virt_end entry) S"

definition kmap_lookup_range :: "kmap_state \<Rightarrow> u64 \<Rightarrow> u64 \<Rightarrow> (u64 \<times> kmap_state) option" where
  "kmap_lookup_range S start fin = kmap_search (\<lambda>entry. start < virt_end entry \<and> fin > virt_start entry) S"

definition kmap_is_pageable :: "kmap_state \<Rightarrow> u64 \<Rightarrow> (bool \<times> kmap_state) option" where
  "kmap_is_pageable S addr =
     Option.bind (kmap_lookup S addr) (\<lambda>(mapping, S).
       if mapping = 0 then Some (False, S)
       else Some (pageable (kmaps S mapping) = KMAP_PAGEABLE, kmap_put S mapping))"

definition kmap_get_monitor_protection :: "kmap_state \<Rightarrow> u64 \<Rightarrow> (kmap_monitor_t \<times> kmap_state) option" where
  "kmap_get_monitor_protection S addr =
     Option.bind (kmap_lookup S addr) (\<lambda>(mapping, S).
       if mapping = 0 then Some (KMAP_MONITOR_NONE, S)
       else Some (monitor (kmaps S mapping), kmap_put S mapping))"

section \<open>Regions of pages\<close>

text \<open>The body of the loop in \<open>kmap_modify_flags\<close>.\<close>

definition modify_page_flags :: "mon_state \<Rightarrow> u64 \<Rightarrow> u64 \<Rightarrow> mon_state" where
  "modify_page_flags m addr new_flags =
     (case kmap_walk m addr of
        None \<Rightarrow> m
      | Some (pdpt, pd, pt) \<Rightarrow>
          let phys = pte_get_phys (pt_read m pt (get_pt_index addr 0));
              m = pt_write m pt (get_pt_index addr 0) (phys OR new_flags)
          in arch_tlb_invalidate_page m addr)"

text \<open>\<open>for (addr = start; addr < end; addr += PAGE_SIZE)\<close> with a body that may not return.\<close>

partial_function (option) for_pages :: "(u64 \<Rightarrow> mon_state \<Rightarrow> mon_state option) \<Rightarrow> u64 \<Rightarrow> u64 \<Rightarrow> mon_state \<Rightarrow> mon_state option" where
  "for_pages f addr fin m =
     (if addr < fin then Option.bind (f addr m) (\<lambda>m. for_pages f (addr + PAGE_SIZE) fin m) else Some m)"

definition kmap_modify_flags :: "kmap_state \<Rightarrow> u64 \<Rightarrow> u64 \<Rightarrow> (int \<times> kmap_state) option" where
  "kmap_modify_flags S mapping new_flags =
     (if mapping = 0 then Some (-1, S)
      else let S = upd_kmap mapping (\<lambda>k. k\<lparr>kflags := new_flags\<rparr>) S;
               k = kmaps S mapping
           in map_option (\<lambda>m. (0, set_km_mon S m))
                (for_pages (\<lambda>addr m. Some (modify_page_flags m addr new_flags)) (virt_start k) (virt_end k) (km_mon S)))"

definition kmap_unmap_pages :: "kmap_state \<Rightarrow> u64 \<Rightarrow> (int \<times> kmap_state) option" where
  "kmap_unmap_pages S mapping =
     (if mapping = 0 then Some (-1, S)
      else let k = kmaps S mapping
           in map_option (\<lambda>m. (0, set_km_mon S m))
                (for_pages (\<lambda>addr m. map_option snd (kmap_free_page m addr)) (virt_start k) (virt_end k) (km_mon S)))"

text \<open>The loop of \<open>kmap_map_pages\<close>; \<open>None\<close> in the result is a page that could not be mapped, after which
  the pages before it are unmapped.\<close>

definition map_one_page :: "kmap_t \<Rightarrow> mon_state \<Rightarrow> u64 \<Rightarrow> (int \<times> mon_state) option" where
  "map_one_page k m addr =
     (if phys_base k \<noteq> 0 then kmap_map_pages_direct m addr (phys_base k + (addr - virt_start k)) (kflags k)
      else kmap_alloc_page m addr (kflags k))"

partial_function (option) map_pages_loop :: "kmap_t \<Rightarrow> u64 \<Rightarrow> u64 \<Rightarrow> mon_state \<Rightarrow> (int \<times> mon_state) option" where
  "map_pages_loop k last_mapped_addr addr m =
     (if addr < virt_end k then
        Option.bind (map_one_page k m addr) (\<lambda>(ret, m).
          if ret \<noteq> 0 then
            Option.bind (for_pages (\<lambda>a m. map_option snd (kmap_free_page m a)) (virt_start k) last_mapped_addr m) (\<lambda>m. Some (-1, m))
          else map_pages_loop k (addr + PAGE_SIZE) (addr + PAGE_SIZE) m)
      else Some (0, m))"

definition kmap_map_pages :: "kmap_state \<Rightarrow> u64 \<Rightarrow> (int \<times> kmap_state) option" where
  "kmap_map_pages S mapping =
     (let k = kmaps S mapping
      in if mapping = 0 then Some (-1, S)
         else map_option (\<lambda>(ret, m). (ret, set_km_mon S m)) (map_pages_loop k (virt_start k) (virt_start k) (km_mon S)))"

definition kmap_handle_page_fault :: "kmap_state \<Rightarrow> u64 \<Rightarrow> u64 \<Rightarrow> (int \<times> kmap_state) option" where
  "kmap_handle_page_fault S fault_addr error_code =
     Option.bind (kmap_lookup S fault_addr) (\<lambda>(mapping, S).
       if mapping = 0 then Some (-1, S)
       else if pageable (kmaps S mapping) \<noteq> KMAP_PAGEABLE then Some (-1, kmap_put S mapping)
       else let page_addr = fault_addr AND NOT 0xFFF
            in if kmap_walk (km_mon S) page_addr \<noteq> None then Some (0, kmap_put S mapping)
               else Option.bind (kmap_alloc_page (km_mon S) page_addr (kflags (kmaps S mapping))) (\<lambda>(ret, m).
                      let S = set_km_mon S m
                      in if ret \<noteq> 0 then Some (-1, kmap_put S mapping) else Some (0, kmap_put S mapping)))"

text \<open>The lines \<open>kmap_dump\<close> prints, without the formatting.\<close>

definition kmap_dump :: "kmap_state \<Rightarrow> (u64 \<times> u64 \<times> kmap_type_t \<times> bool \<times> kmap_monitor_t \<times> string) list option" where
  "kmap_dump S =
     map_option (map (\<lambda>pos. let entry = kmaps S (kmap_entry pos)
         in (virt_start entry, virt_end entry, ktype entry, pageable entry = KMAP_PAGEABLE, monitor entry, kname entry)))
       (list_for_each (km_links S) KmapList)"

end
