(* ===== verification/Kmap_Props.thy ===== *)
theory Kmap_Props
  imports Kmap
begin

text \<open>
  Properties of the kernel mappings: the list of mappings stays a ring of live objects with
  well-formed ranges under creation, destruction, lookup, splitting and merging, and what each
  operation does to it.
\<close>

section \<open>The mappings\<close>

definition kmap_mappings :: "kmap_state \<Rightarrow> u64 list" where
  "kmap_mappings S = (case list_for_each (km_links S) KmapList of None \<Rightarrow> [] | Some xs \<Rightarrow> map kmap_entry xs)"

definition good_range :: "kmap_t \<Rightarrow> bool" where
  "good_range k \<longleftrightarrow> PAGE_ALIGNED (virt_start k) \<and> PAGE_ALIGNED (virt_end k) \<and> virt_start k < virt_end k \<and>
     num_pages k = (virt_end k - virt_start k) div PAGE_SIZE"

text \<open>The objects of 128 bytes are in cache 2.\<close>

definition kmap_ok :: "nat set \<Rightarrow> kmap_state \<Rightarrow> bool" where
  "kmap_ok C S \<longleftrightarrow> slab_ok C (km_slab S) \<and> 2 \<in> C \<and> ring (km_links S) KmapList (map KNode (kmap_mappings S)) \<and>
     set (kmap_mappings S) \<subseteq> cache_live C 2 (km_slab S) \<and> (\<forall>a\<in>set (kmap_mappings S). good_range (kmaps S a))"

lemma kmap_ring_mappings: "ring (km_links S) KmapList (map KNode xs) \<Longrightarrow> kmap_mappings S = xs"
  using ring_for_each [of "km_links S" KmapList "map KNode xs"] by (simp add: kmap_mappings_def comp_def)

lemma kmap_okI:
  assumes "slab_ok C (km_slab S)" "2 \<in> C" "ring (km_links S) KmapList (map KNode xs)" "set xs \<subseteq> cache_live C 2 (km_slab S)"
    "\<forall>a\<in>set xs. good_range (kmaps S a)"
  shows "kmap_ok C S" "kmap_mappings S = xs"
  using assms kmap_ring_mappings [OF assms(3)] by (auto simp: kmap_ok_def)

lemma kmap_okD:
  assumes "kmap_ok C S"
  shows "slab_ok C (km_slab S)" "2 \<in> C" "ring (km_links S) KmapList (map KNode (kmap_mappings S))"
    "a \<in> set (kmap_mappings S) \<Longrightarrow> a \<in> cache_live C 2 (km_slab S)" "a \<in> set (kmap_mappings S) \<Longrightarrow> good_range (kmaps S a)"
    "distinct (kmap_mappings S)" "a \<in> set (kmap_mappings S) \<Longrightarrow> a \<noteq> 0"
proof -
  show 1: "slab_ok C (km_slab S)" "2 \<in> C" "ring (km_links S) KmapList (map KNode (kmap_mappings S))"
    "a \<in> set (kmap_mappings S) \<Longrightarrow> a \<in> cache_live C 2 (km_slab S)" "a \<in> set (kmap_mappings S) \<Longrightarrow> good_range (kmaps S a)"
    using assms by (auto simp: kmap_ok_def)
  show "distinct (kmap_mappings S)"
    using ring_distinct [OF 1(3)] by (simp add: distinct_map)
  show "a \<in> set (kmap_mappings S) \<Longrightarrow> a \<noteq> 0"
    using 1(4) oc.live_nonnull [of C "km_slab S" 2] 1(1,2) by auto
qed

lemma slab_alloc_128: "slab_alloc_size s 128 = slab_alloc s (Some 2)"
  by (simp add: slab_alloc_size_def size_to_cache_index_def Let_def)

lemma slab_free_128: "p \<noteq> 0 \<Longrightarrow> slab_free_size s p 128 = slab_free s (Some 2) p"
  by (simp add: slab_free_size_def size_to_cache_index_def Let_def)

text \<open>A search of the list is a search of the mappings.\<close>

lemma kmap_find:
  assumes "kmap_ok C S"
  shows "list_find (km_links S) KmapList (\<lambda>pos. P (kmaps S (kmap_entry pos))) =
    Some (map_option KNode (find (\<lambda>a. P (kmaps S a)) (kmap_mappings S)))"
proof -
  have "find (\<lambda>pos. P (kmaps S (kmap_entry pos))) (map KNode xs) = map_option KNode (find (\<lambda>a. P (kmaps S a)) xs)" for xs
    by (induction xs) auto
  then show ?thesis
    using ring_find [OF kmap_okD(3) [OF assms]] by simp
qed

section \<open>Creation\<close>

text \<open>Where \<open>kmap_create\<close> puts a mapping that starts at \<open>v\<close>: behind the first one that starts after \<open>v\<close>,
  or at the end.\<close>

primrec insert_behind :: "(u64 \<Rightarrow> kmap_t) \<Rightarrow> u64 \<Rightarrow> u64 \<Rightarrow> u64 list \<Rightarrow> u64 list" where
  "insert_behind ks v a [] = [a]"
| "insert_behind ks v a (b # bs) = (if v < virt_start (ks b) then b # a # bs else b # insert_behind ks v a bs)"

lemma insert_behind_none: "find (\<lambda>b. v < virt_start (ks b)) xs = None \<Longrightarrow> insert_behind ks v a xs = xs @ [a]"
  by (induction xs) (auto split: if_splits)

lemma insert_behind_some:
  "find (\<lambda>b. v < virt_start (ks b)) xs = Some b \<Longrightarrow> \<exists>us vs. xs = us @ b # vs \<and> insert_behind ks v a xs = us @ b # a # vs"
proof (induction xs)
  case (Cons x xs)
  then show ?case
    by (cases "v < virt_start (ks x)") (auto intro: exI [of _ "[]"] exI [of _ "x # us" for us], metis append_Cons)
qed simp

lemma insert_behind_set: "set (insert_behind ks v a xs) = insert a (set xs)"
  by (induction xs) auto

lemma insert_behind_cong:
  "(\<And>b. b \<in> set xs \<Longrightarrow> ks b = ks' b) \<Longrightarrow> insert_behind ks v a xs = insert_behind ks' v a xs"
  by (induction xs) auto

lemma kmap_insert_ring:
  assumes r: "ring h KmapList (map KNode xs)" and a: "a \<notin> set xs"
    and f: "find (\<lambda>b. v < virt_start (ks b)) xs = r'"
  shows "ring (case r' of Some b \<Rightarrow> list_push_front h (KNode b) (KNode a) | None \<Rightarrow> list_push_back h KmapList (KNode a))
    KmapList (map KNode (insert_behind ks v a xs))"
proof (cases r')
  case None
  then show ?thesis
    using ring_push_back [OF r, of "KNode a"] a f by (auto simp: insert_behind_none)
next
  case (Some b)
  then obtain us vs where e: "xs = us @ b # vs" "insert_behind ks v a xs = us @ b # a # vs"
    using insert_behind_some f by blast
  have "ring h KmapList (map KNode us @ KNode b # map KNode vs)"
    using r by (simp add: e(1))
  from ring_push_after [OF this, of "KNode a"] show ?thesis
    using a unfolding e(2) Some by (auto simp: e(1))
qed

definition new_kmap ::
    "u64 \<Rightarrow> u64 \<Rightarrow> u64 \<Rightarrow> u64 \<Rightarrow> kmap_type_t \<Rightarrow> kmap_pageable_t \<Rightarrow> kmap_monitor_t \<Rightarrow> string option \<Rightarrow> kmap_t" where
  "new_kmap vstart vend pbase flags type pg mon name =
     \<lparr>virt_start = vstart, virt_end = vend, phys_base = pbase, ktype = type, pageable = pg, monitor = mon, kflags = flags,
      refcount = 1, num_pages = (vend - vstart) div PAGE_SIZE, kname = copy_name name\<rparr>"

lemma slab_step:
  assumes ok: "kmap_ok C S" and al: "slab_alloc (km_slab S) (Some 2) = Some (a, s)"
  shows "slab_ok C s" "set (kmap_mappings S) \<subseteq> cache_live C 2 s" "a \<noteq> 0 \<Longrightarrow> a \<in> cache_live C 2 s"
    "a \<noteq> 0 \<Longrightarrow> a \<notin> set (kmap_mappings S)" "a = 0 \<Longrightarrow> fst (pmm_alloc (phys (km_mon S)) 0) = 0"
proof -
  note D = kmap_okD [OF ok]
  have k: "slab_ok C (km_slab S) \<and> 2 \<in> C"
    using D(1,2) by simp
  show "slab_ok C s"
    using oc.alloc_ok [OF k al] by simp
  show "set (kmap_mappings S) \<subseteq> cache_live C 2 s"
    using D(4) oc.alloc_keeps [OF k al] by auto
  show "a \<noteq> 0 \<Longrightarrow> a \<in> cache_live C 2 s" "a \<noteq> 0 \<Longrightarrow> a \<notin> set (kmap_mappings S)"
    using oc.alloc_new [OF k al] D(4) by auto
  show "a = 0 \<Longrightarrow> fst (pmm_alloc (phys (km_mon S)) 0) = 0"
    using slab_alloc_spec [OF D(1,2)] al by auto
qed

lemma kmap_create_spec:
  assumes "kmap_ok C S"
  shows "\<exists>a S'. kmap_create S vstart vend pbase flags type pg mon name = Some (a, S') \<and> kmap_ok C S' \<and>
    (if a = 0 then kmap_mappings S' = kmap_mappings S \<and> kmaps S' = kmaps S \<and>
       (\<not> PAGE_ALIGNED vstart \<or> \<not> PAGE_ALIGNED vend \<or> vend \<le> vstart \<or> fst (pmm_alloc (phys (km_mon S)) 0) = 0)
     else a \<notin> set (kmap_mappings S) \<and> kmaps S' = (kmaps S)(a := new_kmap vstart vend pbase flags type pg mon name) \<and>
       kmap_mappings S' = insert_behind (kmaps S) vstart a (kmap_mappings S) \<and> PAGE_ALIGNED vstart \<and> PAGE_ALIGNED vend \<and>
       vstart < vend)"
proof (cases "PAGE_ALIGNED vstart \<and> PAGE_ALIGNED vend \<and> vstart < vend")
  case False
  then show ?thesis
    using assms by (intro exI [of _ 0] exI [of _ S]) (auto simp: kmap_create_def)
next
  case True
  note D = kmap_okD [OF assms]
  obtain a s where al: "slab_alloc (km_slab S) (Some 2) = Some (a, s)"
    using oc.alloc_returns [of C "km_slab S" 2] D(1,2) by blast
  note A = slab_step [OF assms al]
  show ?thesis
  proof (cases "a = 0")
    case z: True
    have "kmap_ok C (S\<lparr>km_slab := s\<rparr>)" "kmap_mappings (S\<lparr>km_slab := s\<rparr>) = kmap_mappings S"
      using kmap_okI [of C "S\<lparr>km_slab := s\<rparr>" "kmap_mappings S"] A(1,2) D(2,3,5) by simp_all
    then show ?thesis
      using True al z A(5) by (intro exI [of _ 0] exI [of _ "S\<lparr>km_slab := s\<rparr>"])
        (auto simp: kmap_create_def slab_alloc_128)
  next
    case nz: False
    let ?xs = "kmap_mappings S" and ?k = "new_kmap vstart vend pbase flags type pg mon name"
    let ?S = "S\<lparr>km_slab := s, kmaps := (kmaps S)(a := ?k)\<rparr>"
    let ?r = "find (\<lambda>b. vstart < virt_start (kmaps ?S b)) ?xs"
    let ?h = "case ?r of Some b \<Rightarrow> list_push_front (km_links S) (KNode b) (KNode a) | None \<Rightarrow> list_push_back (km_links S) KmapList (KNode a)"
    have "kmap_ok C ?S" "kmap_mappings ?S = ?xs"
      using kmap_okI [of C ?S ?xs] A D(2,3,5) nz by auto
    then have f: "list_find (km_links S) KmapList (\<lambda>pos. vstart < virt_start (kmaps ?S (kmap_entry pos))) = Some (map_option KNode ?r)"
      using kmap_find [of C ?S "\<lambda>k. vstart < virt_start k"] by simp
    have ib: "insert_behind (kmaps ?S) vstart a ?xs = insert_behind (kmaps S) vstart a ?xs"
      by (rule insert_behind_cong) (use A(4) nz in auto)
    have r: "ring ?h KmapList (map KNode (insert_behind (kmaps S) vstart a ?xs))"
      by (rule kmap_insert_ring [OF D(3) A(4) [OF nz] refl, of vstart "kmaps ?S", unfolded ib])
    have ret: "kmap_create S vstart vend pbase flags type pg mon name = Some (a, ?S\<lparr>km_links := ?h\<rparr>)"
      using True al nz f by (cases ?r) (simp_all add: kmap_create_def slab_alloc_128 Let_def upd_kmap_def new_kmap_def not_le)
    have "kmap_ok C (?S\<lparr>km_links := ?h\<rparr>) \<and> kmap_mappings (?S\<lparr>km_links := ?h\<rparr>) = insert_behind (kmaps S) vstart a ?xs"
      using kmap_okI [of C "?S\<lparr>km_links := ?h\<rparr>"] r A(1-3) nz D(2,5) True
      by (auto simp: insert_behind_set new_kmap_def good_range_def)
    then show ?thesis
      using ret nz True A(4) by (intro exI [of _ a] exI [of _ "?S\<lparr>km_links := ?h\<rparr>"]) simp
  qed
qed

text \<open>C26: \<open>kmap_create\<close> returns. It returns null exactly for an unaligned or empty range and when
  there is no page for the structure, and then leaves the mappings as they were. Otherwise it
  returns a new mapping with the fields given and one reference, the other mappings keep theirs,
  and the list stays well formed. The new mapping is not where the order by address would have
  it: it is put behind the first mapping that starts after it.\<close>

theorem kmap_create_inserts:
  assumes "kmap_ok C S"
  shows "\<exists>a S'. kmap_create S vstart vend pbase flags type pg mon name = Some (a, S') \<and> kmap_ok C S' \<and>
    (if a = 0 then kmap_mappings S' = kmap_mappings S \<and> kmaps S' = kmaps S \<and>
       (\<not> PAGE_ALIGNED vstart \<or> \<not> PAGE_ALIGNED vend \<or> vend \<le> vstart \<or> fst (pmm_alloc (phys (km_mon S)) 0) = 0)
     else a \<notin> set (kmap_mappings S) \<and> kmaps S' = (kmaps S)(a := new_kmap vstart vend pbase flags type pg mon name) \<and>
       kmap_mappings S' = insert_behind (kmaps S) vstart a (kmap_mappings S) \<and> PAGE_ALIGNED vstart \<and> PAGE_ALIGNED vend \<and>
       vstart < vend)"
  using assms by (rule kmap_create_spec)

section \<open>Lookup and references\<close>

definition kmap_at :: "kmap_state \<Rightarrow> (kmap_t \<Rightarrow> bool) \<Rightarrow> u64 option" where
  "kmap_at S P = find (\<lambda>a. P (kmaps S a)) (kmap_mappings S)"

abbreviation contains :: "u64 \<Rightarrow> kmap_t \<Rightarrow> bool" where
  "contains addr k \<equiv> virt_start k \<le> addr \<and> addr < virt_end k"

lemma kmap_search_eq:
  assumes "kmap_ok C S"
  shows "kmap_search P S = (case kmap_at S P of None \<Rightarrow> Some (0, S)
    | Some a \<Rightarrow> Some (a, upd_kmap a (\<lambda>k. k\<lparr>refcount := refcount k + 1\<rparr>) S))"
  using kmap_find [OF assms, of P] by (cases "kmap_at S P") (simp_all add: kmap_search_def kmap_at_def)

lemma kmap_at_Some:
  assumes "kmap_ok C S" "kmap_at S P = Some a"
  shows "a \<in> set (kmap_mappings S)" "P (kmaps S a)" "a \<noteq> 0"
  using assms kmap_okD(7) by (auto simp: kmap_at_def find_Some_iff)

text \<open>A reference taken and given back leaves everything as it was.\<close>

lemma kmap_get_put:
  assumes "a \<noteq> 0" "refcount (kmaps S a) \<noteq> 0"
  shows "kmap_put (upd_kmap a (\<lambda>k. k\<lparr>refcount := refcount k + 1\<rparr>) S) a = S"
  using assms by (simp add: kmap_put_def upd_kmap_def Let_def fun_upd_idem)

text \<open>C27: the queries of an address. \<open>kmap_lookup\<close> returns the first mapping of the list whose range
  contains the address, with one reference more, or null when none does, and touches nothing else.
  \<open>kmap_is_pageable\<close> and \<open>kmap_get_monitor_protection\<close> answer for that mapping and, as long as its
  reference count is not 0, leave the state as it was.\<close>

theorem kmap_lookup_finds:
  assumes "kmap_ok C S" and "\<forall>a\<in>set (kmap_mappings S). refcount (kmaps S a) \<noteq> 0"
  shows "kmap_lookup S addr = (case kmap_at S (contains addr) of None \<Rightarrow> Some (0, S)
      | Some a \<Rightarrow> Some (a, S\<lparr>kmaps := (kmaps S)(a := (kmaps S a)\<lparr>refcount := refcount (kmaps S a) + 1\<rparr>)\<rparr>)) \<and>
    kmap_is_pageable S addr = Some (case kmap_at S (contains addr) of None \<Rightarrow> False
      | Some a \<Rightarrow> pageable (kmaps S a) = KMAP_PAGEABLE, S) \<and>
    kmap_get_monitor_protection S addr = Some (case kmap_at S (contains addr) of None \<Rightarrow> KMAP_MONITOR_NONE
      | Some a \<Rightarrow> monitor (kmaps S a), S)"
proof -
  have l: "kmap_lookup S addr = (case kmap_at S (contains addr) of None \<Rightarrow> Some (0, S)
      | Some a \<Rightarrow> Some (a, upd_kmap a (\<lambda>k. k\<lparr>refcount := refcount k + 1\<rparr>) S))"
    unfolding kmap_lookup_def by (rule kmap_search_eq [OF assms(1)])
  show ?thesis
  proof (cases "kmap_at S (contains addr)")
    case None
    then show ?thesis
      by (simp add: l kmap_is_pageable_def kmap_get_monitor_protection_def)
  next
    case (Some a)
    note a = kmap_at_Some [OF assms(1) Some]
    have "refcount (kmaps S a) \<noteq> 0"
      using assms(2) a(1) by blast
    note p = kmap_get_put [OF a(3) this]
    show ?thesis
      using a(3) p by (simp add: l Some kmap_is_pageable_def kmap_get_monitor_protection_def upd_kmap_def)
  qed
qed

section \<open>Splitting and merging\<close>

text \<open>What a successful split does: the mapping \<open>a\<close> keeps the part below \<open>x\<close>, a new mapping right behind
  it has the part from \<open>x\<close> on.\<close>

definition split_at :: "kmap_state \<Rightarrow> u64 \<Rightarrow> u64 \<Rightarrow> u64 \<Rightarrow> kmap_state \<Rightarrow> bool" where
  "split_at S a x b S' \<longleftrightarrow> b \<notin> set (kmap_mappings S) \<and> b \<noteq> 0 \<and>
     (\<exists>us vs. kmap_mappings S = us @ a # vs \<and> kmap_mappings S' = us @ a # b # vs) \<and>
     kmaps S' = (kmaps S)(a := (kmaps S a)\<lparr>virt_end := x, num_pages := (x - virt_start (kmaps S a)) div PAGE_SIZE\<rparr>,
       b := (kmaps S a)\<lparr>virt_start := x, phys_base := phys_base (kmaps S a) + (x - virt_start (kmaps S a)), refcount := 1,
         num_pages := (virt_end (kmaps S a) - x) div PAGE_SIZE\<rparr>)"

lemma kmap_copy_eq:
  "\<lparr>virt_start = x, virt_end = virt_end k, phys_base = p, ktype = ktype k, pageable = pageable k, monitor = monitor k,
    kflags = kflags k, refcount = r, num_pages = n, kname = kname k\<rparr> =
   k\<lparr>virt_start := x, phys_base := p, refcount := r, num_pages := n\<rparr>"
  by (rule kmap_t.equality) simp_all

lemma kmap_split_spec:
  assumes ok: "kmap_ok C S" and a: "a \<in> set (kmap_mappings S)" and al: "PAGE_ALIGNED x" "virt_start (kmaps S a) < x" "x < virt_end (kmaps S a)"
  obtains (full) S' where "kmap_split S a x = Some (-1, S')" "fst (pmm_alloc (phys (km_mon S)) 0) = 0" "kmap_ok C S'"
      "kmap_mappings S' = kmap_mappings S" "kmaps S' = kmaps S"
    | (split) b S' where "kmap_split S a x = Some (0, S')" "kmap_ok C S'" "split_at S a x b S'" "b \<in> cache_live C 2 (km_slab S')"
proof -
  note D = kmap_okD [OF ok]
  obtain b s where sl: "slab_alloc (km_slab S) (Some 2) = Some (b, s)"
    using oc.alloc_returns [of C "km_slab S" 2] D(1,2) by blast
  note A = slab_step [OF ok sl]
  have g: "good_range (kmaps S a)" and a0: "a \<noteq> 0"
    using D(5,7) a by auto
  obtain us vs where xs: "kmap_mappings S = us @ a # vs"
    using a by (meson split_list)
  show thesis
  proof (cases "b = 0")
    case True
    have "kmap_ok C (S\<lparr>km_slab := s\<rparr>)" "kmap_mappings (S\<lparr>km_slab := s\<rparr>) = kmap_mappings S"
      using kmap_okI [of C "S\<lparr>km_slab := s\<rparr>" "kmap_mappings S"] A(1,2) D(2,3,5) by simp_all
    then show thesis
      using True sl al a0 A(5) by (intro full [of "S\<lparr>km_slab := s\<rparr>"]) (simp_all add: kmap_split_def slab_alloc_128 not_le)
  next
    case False
    let ?k1 = "(kmaps S a)\<lparr>virt_end := x, num_pages := (x - virt_start (kmaps S a)) div PAGE_SIZE\<rparr>"
    let ?k2 = "(kmaps S a)\<lparr>virt_start := x, phys_base := phys_base (kmaps S a) + (x - virt_start (kmaps S a)), refcount := 1,
         num_pages := (virt_end (kmaps S a) - x) div PAGE_SIZE\<rparr>"
    let ?S = "S\<lparr>km_slab := s, kmaps := (kmaps S)(a := ?k1, b := ?k2),
        km_links := list_push_front (km_links S) (KNode a) (KNode b)\<rparr>"
    have ab: "a \<noteq> b" "b \<notin> set (us @ a # vs)"
      using A(4) False a xs by auto
    have ret: "kmap_split S a x = Some (0, ?S)"
      using False sl al a0 ab(1)
      by (simp add: kmap_split_def slab_alloc_128 not_le upd_kmap_def Let_def fun_upd_twist kmap_copy_eq)
    have "ring (km_links S) KmapList (map KNode us @ KNode a # map KNode vs)"
      using D(3) xs by simp
    from ring_push_after [OF this, of "KNode b"]
    have r: "ring (km_links ?S) KmapList (map KNode (us @ a # b # vs))"
      using ab(2) by auto
    have "set (us @ a # b # vs) \<subseteq> cache_live C 2 (km_slab ?S)"
      using A(2,3) False xs by auto
    moreover have "\<forall>c\<in>set (us @ a # b # vs). good_range (kmaps ?S c)"
      using D(5) g al ab xs by (auto simp: good_range_def)
    ultimately have "kmap_ok C ?S" "kmap_mappings ?S = us @ a # b # vs"
      using kmap_okI [of C ?S "us @ a # b # vs"] A(1) D(2) r by simp_all
    then show thesis
      using ret A(3,4) False xs by (intro split [of ?S b]) (auto simp: split_at_def)
  qed
qed

lemma page_aligned_unat: "PAGE_ALIGNED a \<longleftrightarrow> unat a mod 4096 = 0"
  using unat_and_4095 [of a] by (simp add: PAGE_ALIGNED_def) (metis unat_0 unat_eq_zero)

lemma page_count_add:
  assumes "PAGE_ALIGNED a" "PAGE_ALIGNED b" "PAGE_ALIGNED c" "a < b" "b < c"
  shows "(b - a) div PAGE_SIZE + (c - b) div PAGE_SIZE = (c - a) div PAGE_SIZE"
proof -
  obtain i j k where e: "unat a = 4096 * i" "unat b = 4096 * j" "unat c = 4096 * k"
    using assms(1-3) unfolding page_aligned_unat mod_eq_0_iff_dvd by (elim dvdE) blast
  have lt: "unat a < unat b" "unat b < unat c" "unat a < unat c"
    using assms(4,5) by (simp_all add: word_less_nat_alt)
  have u: "unat (b - a) = 4096 * (j - i)" "unat (c - b) = 4096 * (k - j)" "unat (c - a) = 4096 * (k - i)"
    using lt by (simp_all add: unat_sub word_le_nat_alt e diff_mult_distrib2 [symmetric])
  have "unat ((b - a) div PAGE_SIZE) + unat ((c - b) div PAGE_SIZE) = unat ((c - a) div PAGE_SIZE)"
    using lt by (simp add: unat_div u e)
  then show ?thesis
    using unat_plus_no_wrap [of "(b - a) div PAGE_SIZE" "(c - b) div PAGE_SIZE"] unat_less_64 [of "(c - a) div PAGE_SIZE"]
    by (simp add: word_unat_eq_iff)
qed

lemma kmap_merge_spec:
  assumes ok: "kmap_ok C S" and xs: "kmap_mappings S = us @ b # vs" and a: "a \<in> set (us @ vs)"
    and adj: "virt_end (kmaps S a) = virt_start (kmaps S b)"
    and same: "ktype (kmaps S a) = ktype (kmaps S b)" "pageable (kmaps S a) = pageable (kmaps S b)"
      "monitor (kmaps S a) = monitor (kmaps S b)" "kflags (kmaps S a) = kflags (kmaps S b)"
    and refs: "refcount (kmaps S a) = 1" "refcount (kmaps S b) = 1"
  obtains S' where "kmap_merge S a b = (0, S')" "kmap_ok C S'" "kmap_mappings S' = us @ vs"
    "kmaps S' = (kmaps S)(a := (kmaps S a)\<lparr>virt_end := virt_end (kmaps S b), num_pages := num_pages (kmaps S a) + num_pages (kmaps S b)\<rparr>)"
proof -
  note D = kmap_okD [OF ok]
  let ?k = "(kmaps S a)\<lparr>virt_end := virt_end (kmaps S b), num_pages := num_pages (kmaps S a) + num_pages (kmaps S b)\<rparr>"
  let ?S = "S\<lparr>kmaps := (kmaps S)(a := ?k), km_links := list_remove (km_links S) (KNode b), km_slab := slab_free (km_slab S) (Some 2) b\<rparr>"
  have mem: "a \<in> set (kmap_mappings S)" "b \<in> set (kmap_mappings S)" "a \<noteq> 0" "b \<noteq> 0"
    using a xs D(7) by auto
  have ret: "kmap_merge S a b = (0, ?S)"
    using adj same refs mem(3,4) by (simp add: kmap_merge_def Let_def upd_kmap_def slab_free_128)
  have fr: "slab_ok C (km_slab ?S)" "cache_live C 2 (km_slab ?S) = cache_live C 2 (km_slab S) - {b}"
    using oc.release_live [of C "km_slab S" 2 b] D(1,2) D(4) [OF mem(2)] by simp_all
  have r: "ring (km_links ?S) KmapList (map KNode (us @ vs))"
    using ring_remove(1) [of "km_links S" KmapList "map KNode us" "KNode b" "map KNode vs"] D(3) xs by simp
  have "b \<notin> set (us @ vs)"
    using D(6) xs by auto
  then have sub: "set (us @ vs) \<subseteq> cache_live C 2 (km_slab ?S)"
    using D(4) xs fr(2) by auto
  note ga = D(5) [OF mem(1)] and gb = D(5) [OF mem(2)]
  have "num_pages ?k = (virt_end ?k - virt_start ?k) div PAGE_SIZE" "virt_start ?k < virt_end ?k"
    using ga gb adj page_count_add [of "virt_start (kmaps S a)" "virt_start (kmaps S b)" "virt_end (kmaps S b)"]
    by (auto simp: good_range_def)
  then have "good_range ?k"
    using ga gb by (simp add: good_range_def)
  then have "\<forall>c\<in>set (us @ vs). good_range (kmaps ?S c)"
    using D(5) xs by auto
  then have "kmap_ok C ?S" "kmap_mappings ?S = us @ vs"
    using kmap_okI [of C ?S "us @ vs"] fr(1) D(2) r sub by simp_all
  then show thesis
    using ret by (intro that [of ?S]) simp_all
qed


section \<open>An example\<close>

definition kmap_example :: kmap_state where
  "kmap_example = \<lparr>km_slab = snd (slab_cache_create slab_zero (Some 2) 128), km_links = \<lparr>nxt = (\<lambda>x. x), prv = (\<lambda>x. x)\<rparr>,
     kmaps = (\<lambda>_. new_kmap 0 0 0 0 KMAP_CODE KMAP_NONPAGEABLE KMAP_MONITOR_NONE None), kmap_initialized = True\<rparr>"

lemma kmap_example_facts: "kmap_ok {2} kmap_example" "kmap_mappings kmap_example = []" "phys (km_mon kmap_example) = phys_example"
proof -
  define s where "s = snd (slab_cache_create slab_zero (Some 2) 128)"
  have c: "slab_cache_create slab_zero (Some 2) 128 = (0, s)"
    by (simp add: s_def slab_cache_create_def Let_def)
  note Z = slab_create_zero_ok [OF c]
  have g: "good_size 128"
    by (simp add: good_size_def)
  have e: "km_slab kmap_example = s"
    by (simp add: kmap_example_def s_def)
  show "kmap_ok {2} kmap_example" "kmap_mappings kmap_example = []"
    using kmap_okI [of "{2}" kmap_example "[]"] Z(1) [OF g] e by (simp_all add: ring_Nil) (simp_all add: kmap_example_def)
  show "phys (km_mon kmap_example) = phys_example"
    using Z(3) [OF g] by (simp add: e mon_example_def)
qed

abbreviation example_create :: "kmap_state \<Rightarrow> (u64 \<times> kmap_state) option" where
  "example_create S \<equiv> kmap_create S 0x100000 0x103000 0 7 KMAP_DYNAMIC KMAP_PAGEABLE KMAP_MONITOR_NONE (Some ''heap'')"

lemma kmap_example_slab:
  assumes "example_create kmap_example = Some (a, S)"
  obtains s where "slab_alloc (km_slab kmap_example) (Some 2) = Some (a, s)" "km_slab S = s"
  using assms by (auto simp: kmap_create_def PAGE_ALIGNED_def slab_alloc_128 Let_def upd_kmap_def bind_eq_Some_conv
      split: if_splits option.splits)

lemma kmap_example_created:
  obtains a S where "example_create kmap_example = Some (a, S)" "a \<noteq> 0" "kmap_ok {2} S" "kmap_mappings S = [a]"
    "kmaps S a = new_kmap 0x100000 0x103000 0 7 KMAP_DYNAMIC KMAP_PAGEABLE KMAP_MONITOR_NONE (Some ''heap'')"
    "fst (pmm_alloc (phys (km_mon S)) 0) \<noteq> 0"
proof -
  obtain a S where ret: "example_create kmap_example = Some (a, S)" and S: "kmap_ok {2} S" "a \<noteq> 0 \<longrightarrow>
      kmaps S = (kmaps kmap_example)(a := new_kmap 0x100000 0x103000 0 7 KMAP_DYNAMIC KMAP_PAGEABLE KMAP_MONITOR_NONE (Some ''heap'')) \<and>
      kmap_mappings S = [a]"
    using kmap_create_spec [OF kmap_example_facts(1), where vstart = "0x100000" and vend = "0x103000" and pbase = 0 and flags = 7
        and type = KMAP_DYNAMIC and pg = KMAP_PAGEABLE and mon = KMAP_MONITOR_NONE and name = "Some ''heap''"]
      kmap_example_facts(2) by (auto split: if_splits)
  obtain s where s: "slab_alloc (km_slab kmap_example) (Some 2) = Some (a, s)" "km_slab S = s"
    by (rule kmap_example_slab [OF ret])
  note X = slab_alloc_example [OF kmap_okD(1,2) [OF kmap_example_facts(1)] kmap_example_facts(3) s(1)]
  then show thesis
    using that ret S s(2) by simp
qed

theorem kmap_create_inserts_witness:
  "\<exists>a S b S'. example_create kmap_example = Some (a, S) \<and> example_create S = Some (b, S') \<and> kmap_ok {2} S' \<and>
     a \<in> set (kmap_mappings S')"
proof (rule kmap_example_created)
  fix a S
  assume S: "example_create kmap_example = Some (a, S)" "kmap_ok {2} S" "kmap_mappings S = [a]"
  then show ?thesis
    using kmap_create_inserts [OF S(2), where vstart = "0x100000" and vend = "0x103000" and pbase = 0 and flags = 7
        and type = KMAP_DYNAMIC and pg = KMAP_PAGEABLE and mon = KMAP_MONITOR_NONE and name = "Some ''heap''"]
    by (auto simp: insert_behind_set split: if_splits)
qed

theorem kmap_lookup_finds_witness:
  "\<exists>a S. example_create kmap_example = Some (a, S) \<and> a \<noteq> 0 \<and> kmap_is_pageable S 0x101234 = Some (True, S) \<and>
     kmap_is_pageable S 0x103000 = Some (False, S)"
proof (rule kmap_example_created)
  fix a S
  assume S: "example_create kmap_example = Some (a, S)" "a \<noteq> 0" "kmap_ok {2} S" "kmap_mappings S = [a]"
    "kmaps S a = new_kmap 0x100000 0x103000 0 7 KMAP_DYNAMIC KMAP_PAGEABLE KMAP_MONITOR_NONE (Some ''heap'')"
  have r: "\<forall>b\<in>set (kmap_mappings S). refcount (kmaps S b) \<noteq> 0"
    by (simp add: S(4,5) new_kmap_def)
  have "kmap_at S (contains 0x101234) = Some a" "kmap_at S (contains 0x103000) = None"
    by (simp_all add: kmap_at_def S(4,5) new_kmap_def)
  then show ?thesis
    using kmap_lookup_finds [OF S(3) r, of "0x101234"] kmap_lookup_finds [OF S(3) r, of "0x103000"] S(1,2,5)
    by (intro exI [of _ a] exI [of _ S]) (simp add: new_kmap_def)
qed


end
