(* ===== verification/Kmap_Pages.thy ===== *)
theory Kmap_Pages
  imports Kmap_Props
begin

text \<open>
  Properties of the page table operations of \<^verbatim>\<open>src/kernel/kmap.c\<close>: the walk that creates missing
  tables either ends in the last table, with every table on the way present, or takes back
  everything it allocated; the page fault handler maps a fresh page or leaves the allocator as
  it was.
\<close>

section \<open>Entries and tables\<close>

lemma pt_index_less: "unat (get_pt_index v l) < 512"
  using unat_and_mask [of "drop_bit (12 + l * 9) v" 9] by (simp add: get_pt_index_def mask_eq_exp_minus_1)

lemma page_no_slot:
  assumes "unat t mod 4096 = 0" "unat i < 512"
  shows "page_no (t + 8 * i) = page_no t"
proof -
  have i: "unat (8 * i) = 8 * unat i"
    using assms(2) by (simp add: unat_word_ariths)
  obtain k where k: "unat t = 4096 * k"
    using assms(1) by (auto simp: mod_eq_0_iff_dvd elim: dvdE)
  have "k < 2 ^ 52"
    using unat_less_64 [of t] by (simp add: k)
  then have "unat (t + 8 * i) = 4096 * k + 8 * unat i"
    using assms(2) unat_plus_no_wrap [of t "8 * i"] by (simp add: i k)
  then show ?thesis
    using assms(2) by (simp add: page_no_def k)
qed

lemma pt_write_cr3 [simp]: "cr3 (pt_write m t i v) = cr3 m"
  by (simp add: pt_write_def)

lemma clear_table_fields [simp]: "phys (clear_table m p) = phys m" "cr3 (clear_table m p) = cr3 m"
proof -
  have "phys (fold (\<lambda>i m. pt_write m p (of_nat i) 0) is m) = phys m \<and> cr3 (fold (\<lambda>i m. pt_write m p (of_nat i) 0) is m) = cr3 m" for "is"
    by (induction "is" arbitrary: m) (simp_all add: pt_write_def)
  then show "phys (clear_table m p) = phys m" "cr3 (clear_table m p) = cr3 m"
    by (simp_all add: clear_table_def)
qed

lemma clear_table_mem:
  "ptmem (clear_table m p) w = (if \<exists>i\<in>{0..<512}. w = p + 8 * of_nat i then 0 else ptmem m w)"
proof -
  have "ptmem (fold (\<lambda>i m. pt_write m p (of_nat i) 0) is m) w = (if \<exists>i\<in>set is. w = p + 8 * of_nat i then 0 else ptmem m w)" for "is"
    by (induction "is" arbitrary: m) (auto simp: pt_write_def)
  then show ?thesis
    unfolding clear_table_def by simp
qed

lemma clear_table_read:
  assumes "unat i < 512"
  shows "pt_read (clear_table m p) p i = 0"
proof -
  have "\<exists>j\<in>{0..<512}. p + 8 * i = p + 8 * of_nat j"
    using assms by (intro bexI [of _ "unat i"]) auto
  then show ?thesis
    by (simp add: pt_read_def clear_table_mem)
qed

lemma clear_table_other:
  assumes "unat p mod 4096 = 0" "page_no w \<noteq> page_no p"
  shows "ptmem (clear_table m p) w = ptmem m w"
proof -
  have "w \<noteq> p + 8 * of_nat i" if "i < 512" for i
    using page_no_slot [OF assms(1), of "of_nat i"] that assms(2) by (auto simp: unat_of_nat)
  then show ?thesis
    by (auto simp: clear_table_mem)
qed

lemma pte_get_phys_aligned: "unat (pte_get_phys e) mod 4096 = 0"
proof -
  have "pte_get_phys e AND 0xFFF = 0"
    by (simp add: pte_get_phys_def and.assoc)
  then show ?thesis
    using unat_and_4095 [of "pte_get_phys e"] by simp
qed

text \<open>A page below 2^40 survives the mask that reads it back from an entry.\<close>

lemma pte_get_phys_link:
  assumes a: "unat p mod 4096 = 0" and lt: "page_no p < 2 ^ 28" and fl: "fl AND X86_PTE_PHYS_MASK = 0"
  shows "pte_get_phys (p OR fl) = p"
proof -
  have "p AND X86_PTE_PHYS_MASK = p"
  proof (rule bit_word_eqI)
    fix n
    assume n: "n < LENGTH(64)"
    have m: "(X86_PTE_PHYS_MASK :: u64) = push_bit 12 (mask 28)"
      by (simp add: mask_eq_exp_minus_1)
    have "\<not> bit p n" if "n < 12"
    proof -
      obtain k where "unat p = 4096 * k"
        using a by (auto simp: mod_eq_0_iff_dvd elim: dvdE)
      moreover have "(4096 :: nat) = 2 ^ (12 - n - 1) * 2 * 2 ^ n"
        using that by (simp flip: power_Suc power_add)
      ultimately have "unat p div 2 ^ n = 2 ^ (12 - n - 1) * 2 * k"
        by simp
      then show ?thesis
        by (simp add: word_bit_unat)
    qed
    moreover have "\<not> bit p n" if "40 \<le> n"
    proof -
      have "unat p < 2 ^ 40"
        using lt by (simp add: page_no_def)
      also have "2 ^ 40 \<le> (2 :: nat) ^ n"
        using that by (intro power_increasing) simp_all
      finally show ?thesis
        by (simp add: word_bit_unat)
    qed
    ultimately have "bit p n \<Longrightarrow> 12 \<le> n \<and> n < 40"
      by (meson not_le)
    then show "bit (p AND X86_PTE_PHYS_MASK) n = bit p n"
      unfolding m using n by (auto simp: bit_simps)
  qed
  then show ?thesis
    using fl by (simp add: pte_get_phys_def and.commute and.left_commute bit.conj_disj_distrib2)
qed

section \<open>One level of the walk\<close>

text \<open>The allocator is sound, page 0 is not free, and free pages are below 2^40.\<close>

abbreviation free_pages_of :: "mon_state \<Rightarrow> nat set" where
  "free_pages_of m \<equiv> free_frames (pmm (phys m))"

abbreviation mon_allocs :: "mon_state \<Rightarrow> (u64 \<times> nat) set" where
  "mon_allocs m \<equiv> allocs (pmm (phys m))"

definition pages_ok :: "mon_state \<Rightarrow> bool" where
  "pages_ok m \<longleftrightarrow> pmm_inv (pmm (phys m)) \<and> 0 \<notin> free_pages_of m \<and> (\<forall>f\<in>free_pages_of m. f < 2 ^ 28)"

lemma page_alloc_cases:
  assumes ok: "pages_ok m" and al: "mon_pmm_alloc m 0 = (a, m')"
  obtains (none) "a = 0" "m' = m" "free_pages_of m = {}"
    | (some) "a \<noteq> 0" "m' = m\<lparr>phys := phys m'\<rparr>" "pages_ok m'" "unat a mod 4096 = 0" "page_no a \<in> free_pages_of m"
      "free_pages_of m' \<subseteq> free_pages_of m - {page_no a}" "(a, 0) \<notin> mon_allocs m" "mon_allocs m' = insert (a, 0) (mon_allocs m)"
proof -
  have inv: "pmm_inv (pmm (phys m))" and z: "0 \<notin> free_pages_of m"
    using ok by (simp_all add: pages_ok_def)
  obtain p where p: "pmm_alloc (phys m) 0 = (a, p)" "m' = m\<lparr>phys := p\<rparr>"
    using al by (auto simp: mon_pmm_alloc_def split: prod.splits)
  show thesis
  proof (cases "a = 0")
    case True
    then have "\<not> has_free (pmm (phys m)) 0" "p = phys m"
      using pmm_alloc_null_full [OF inv z] pmm_alloc_null [OF inv z] p(1) by auto
    then show thesis
      using True p(2) has_free_0 by (intro none) auto
  next
    case False
    note B = pa.alloc_block [OF inv p(1) False] and N = pa.alloc_new [OF inv p(1) False] and I = pa.alloc_ok [OF inv p(1)]
    have "unat a mod 4096 = 0" "frames a 0 = {page_no a}"
      using B by (auto simp: aligned_def mod_eq_0_iff_dvd frames_def)
    then show thesis
      using False p(2) B N I ok by (intro some) (auto simp: pages_ok_def)
  qed
qed

lemma present_odd: "present e \<longleftrightarrow> odd e"
  by (simp add: present_def and_one_eq odd_iff_mod_2_eq_one)

lemma present_link [simp]: "present (p OR 7)" "\<not> present 0"
  by (simp_all add: present_odd even_or_iff)

text \<open>A level that does not fail leaves a present entry behind, keeps all memory outside the free
  pages but the entry, which it writes only when it was not present, and gives the address of the
  next table; a new table is empty.\<close>

lemma level_step:
  assumes ok: "pages_ok m" and t: "page_no (t + 8 * i) \<notin> free_pages_of m"
    and lv: "kmap_level m t i = (False, page, nx, m')" and nf: "present (pt_read m t i) \<Longrightarrow> page_no (pte_get_phys (pt_read m t i)) \<notin> free_pages_of m"
  shows "pages_ok m' \<and> cr3 m' = cr3 m \<and> present (pt_read m' t i) \<and> nx = pte_get_phys (pt_read m' t i) \<and> page_no nx \<notin> free_pages_of m' \<and>
    free_pages_of m' \<subseteq> free_pages_of m \<and> mon_allocs m' = (if page = 0 then mon_allocs m else insert (page, 0) (mon_allocs m)) \<and>
    (\<forall>w. page_no w \<notin> free_pages_of m \<longrightarrow> present (ptmem m w) \<or> w \<noteq> t + 8 * i \<longrightarrow> ptmem m' w = ptmem m w) \<and>
    (page = 0 \<longrightarrow> m' = m) \<and> (page \<noteq> 0 \<longrightarrow> (page, 0) \<notin> mon_allocs m \<and> \<not> present (pt_read m t i) \<and> page_no page \<in> free_pages_of m) \<and>
    (page \<noteq> 0 \<longrightarrow> (\<forall>j. unat j < 512 \<longrightarrow> pt_read m' nx j = 0))"
proof (cases "present (pt_read m t i)")
  case True
  then show ?thesis
    using lv ok nf by (auto simp: kmap_level_def)
next
  case False
  obtain m1 where al: "mon_pmm_alloc m 0 = (page, m1)"
    using lv False by (auto simp: kmap_level_def kmap_link_table_def split: prod.splits if_splits)
  from ok al show ?thesis
  proof (cases rule: page_alloc_cases)
    case none
    then show ?thesis
      using lv False al by (simp add: kmap_level_def kmap_link_table_def)
  next
    case some
    let ?m = "pt_write (clear_table m1 page) t i (page OR 7)"
    have m': "m' = ?m" "nx = pte_get_phys (page OR 7)"
      using lv False al some(1) by (simp_all add: kmap_level_def kmap_link_table_def) (simp add: pt_read_def pt_write_def)
    have "page_no page < 2 ^ 28"
      using ok some(5) by (auto simp: pages_ok_def)
    then have nx: "nx = page"
      using pte_get_phys_link [OF some(4)] m'(2) by simp
    have mem: "ptmem ?m w = ptmem m w" if "page_no w \<notin> free_pages_of m" "w \<noteq> t + 8 * i" for w
    proof -
      have "page_no w \<noteq> page_no page"
        using that(1) some(5) by auto
      then have "ptmem (clear_table m1 page) w = ptmem m1 w"
        by (rule clear_table_other [OF some(4)])
      moreover have "ptmem m1 = ptmem m"
        by (subst some(2)) simp
      ultimately show ?thesis
        using that(2) by (simp add: pt_write_def)
    qed
    have "pt_read ?m nx j = 0" if "unat j < 512" for j
    proof -
      have "page + 8 * j \<noteq> t + 8 * i"
        using page_no_slot [OF some(4) that] t some(5) by auto
      then show ?thesis
        using clear_table_read [OF that, of m1 page] by (simp add: nx pt_read_def pt_write_def)
    qed
    moreover have "cr3 m1 = cr3 m"
      by (subst some(2)) simp
    moreover have "pt_read ?m t i = page OR 7"
      by (simp add: pt_read_def pt_write_def)
    ultimately show ?thesis
      using False some m' nx mem by (auto simp: pages_ok_def pt_read_def [of m])
  qed
qed

lemma level_fail:
  assumes ok: "pages_ok m" and lv: "kmap_level m t i = (True, page, nx, m')"
  shows "m' = m" "free_pages_of m = {}"
proof -
  have np: "\<not> present (pt_read m t i)"
    using lv by (auto simp: kmap_level_def)
  obtain p m1 where al: "mon_pmm_alloc m 0 = (p, m1)"
    by (cases "mon_pmm_alloc m 0")
  from ok al have "m' = m \<and> free_pages_of m = {}"
    by (cases rule: page_alloc_cases) (use lv np al in \<open>auto simp: kmap_level_def kmap_link_table_def\<close>)
  then show "m' = m" "free_pages_of m = {}"
    by simp_all
qed

lemma unlink_step:
  assumes ok: "pages_ok m" and p: "page \<noteq> 0 \<Longrightarrow> (page, 0) \<in> mon_allocs m \<and> page_no page \<noteq> 0 \<and> page_no page < 2 ^ 28"
  obtains m' where "kmap_unlink_table m t i page = Some m'" "pages_ok m'" "cr3 m' = cr3 m"
    "mon_allocs m' = (if page = 0 then mon_allocs m else mon_allocs m - {(page, 0)})"
    "free_pages_of m' = (if page = 0 then free_pages_of m else insert (page_no page) (free_pages_of m))"
    "ptmem m' = (if page = 0 then ptmem m else (ptmem m)(t + 8 * i := 0))"
proof (cases "page = 0")
  case True
  then show thesis
    using that [of m] ok by (simp add: kmap_unlink_table_def)
next
  case False
  have inv: "pmm_inv (pmm (phys m))"
    using ok by (simp add: pages_ok_def)
  obtain q where q: "phys_free (phys m) page 0 = Some q" "pmm_inv (pmm q)" "allocs (pmm q) = mon_allocs m - {(page, 0)}"
      "free_frames (pmm q) = free_pages_of m \<union> frames page 0"
    using pa.release_block [OF inv, of page 0] p [OF False] by auto
  let ?m = "(pt_write m t i 0)\<lparr>phys := q\<rparr>"
  have "kmap_unlink_table m t i page = Some ?m"
    using False q(1) by (simp add: kmap_unlink_table_def mon_free_page_def pt_write_def)
  moreover have "pages_ok ?m"
    using ok q p [OF False] by (auto simp: pages_ok_def frames_def)
  ultimately show thesis
    using that [of ?m] False q by (simp add: frames_def pt_write_def)
qed

section \<open>The walk\<close>

text \<open>The entries on the way to a page; the tables that exist on that way are not free pages.\<close>

definition entry4 :: "mon_state \<Rightarrow> u64 \<Rightarrow> u64" where
  "entry4 m v = pt_read m (get_pml4 m) (get_pt_index v 3)"

definition entry3 :: "mon_state \<Rightarrow> u64 \<Rightarrow> u64" where
  "entry3 m v = pt_read m (pte_get_phys (entry4 m v)) (get_pt_index v 2)"

definition entry2 :: "mon_state \<Rightarrow> u64 \<Rightarrow> u64" where
  "entry2 m v = pt_read m (pte_get_phys (entry3 m v)) (get_pt_index v 1)"

definition leaf :: "mon_state \<Rightarrow> u64 \<Rightarrow> u64" where
  "leaf m v = pt_read m (pte_get_phys (entry2 m v)) (get_pt_index v 0)"

lemmas entry_defs = entry4_def entry3_def entry2_def leaf_def

definition tables_apart :: "mon_state \<Rightarrow> u64 \<Rightarrow> bool" where
  "tables_apart m v \<longleftrightarrow> page_no (get_pml4 m) \<notin> free_pages_of m \<and>
     (present (entry4 m v) \<longrightarrow> page_no (pte_get_phys (entry4 m v)) \<notin> free_pages_of m \<and>
       (present (entry3 m v) \<longrightarrow> page_no (pte_get_phys (entry3 m v)) \<notin> free_pages_of m \<and>
         (present (entry2 m v) \<longrightarrow> page_no (pte_get_phys (entry2 m v)) \<notin> free_pages_of m)))"

lemma kmap_walk_iff: "kmap_walk m v \<noteq> None \<longleftrightarrow> present (entry4 m v) \<and> present (entry3 m v) \<and> present (entry2 m v) \<and> present (leaf m v)"
  by (simp add: kmap_walk_def entry_defs Let_def)

lemma get_pml4_aligned: "unat (get_pml4 m) mod 4096 = 0"
proof -
  have "get_pml4 m AND 0xFFF = 0"
    by (simp add: get_pml4_def and.assoc)
  then show ?thesis
    using unat_and_4095 [of "get_pml4 m"] by simp
qed

text \<open>What every step of a walk keeps.\<close>

definition keeps :: "mon_state \<Rightarrow> mon_state \<Rightarrow> bool" where
  "keeps m m' \<longleftrightarrow> cr3 m' = cr3 m \<and> free_pages_of m' \<subseteq> free_pages_of m \<and> mon_allocs m \<subseteq> mon_allocs m' \<and>
     (\<forall>w. page_no w \<notin> free_pages_of m \<longrightarrow> present (ptmem m w) \<longrightarrow> ptmem m' w = ptmem m w)"

lemma keeps_trans: "keeps m m1 \<Longrightarrow> keeps m1 m2 \<Longrightarrow> keeps m m2"
  unfolding keeps_def by (metis subsetD subset_trans)

lemma keeps_read:
  assumes "keeps m m'" "page_no t \<notin> free_pages_of m" "unat t mod 4096 = 0" "unat i < 512" "present (pt_read m t i)"
  shows "pt_read m' t i = pt_read m t i"
  using assms page_no_slot [OF assms(3,4)] by (simp add: keeps_def pt_read_def)

text \<open>A table in use: not a free page. The next table of a level is one.\<close>

definition table_in :: "mon_state \<Rightarrow> u64 \<Rightarrow> bool" where
  "table_in m t \<longleftrightarrow> pages_ok m \<and> page_no t \<notin> free_pages_of m \<and> unat t mod 4096 = 0"

lemma level_ok:
  assumes t: "table_in m t" and i: "unat i < 512" and lv: "kmap_level m t i = (False, page, nx, m')"
    and nf: "present (pt_read m t i) \<longrightarrow> table_in m (pte_get_phys (pt_read m t i))"
  shows "keeps m m'" "table_in m' nx" "present (pt_read m' t i)" "nx = pte_get_phys (pt_read m' t i)"
    "mon_allocs m' = (if page = 0 then mon_allocs m else insert (page, 0) (mon_allocs m))"
    "\<And>w. page_no w \<notin> free_pages_of m \<Longrightarrow> w \<noteq> t + 8 * i \<Longrightarrow> ptmem m' w = ptmem m w"
    "page = 0 \<Longrightarrow> m' = m" "page \<noteq> 0 \<Longrightarrow> (page, 0) \<notin> mon_allocs m \<and> \<not> present (pt_read m t i) \<and> page_no page \<in> free_pages_of m"
    "page \<noteq> 0 \<Longrightarrow> unat j < 512 \<Longrightarrow> pt_read m' nx j = 0"
proof -
  have ok: "pages_ok m" and s: "page_no (t + 8 * i) \<notin> free_pages_of m"
    using t page_no_slot [of t i] i by (auto simp: table_in_def)
  have nf': "page_no (pte_get_phys (pt_read m t i)) \<notin> free_pages_of m" if "present (pt_read m t i)"
    using nf that by (simp add: table_in_def)
  note A = level_step [OF ok s lv nf']
  show "keeps m m'"
    using A unfolding keeps_def by auto
  have "nx = pte_get_phys (pt_read m' t i)"
    using A by blast
  then show "table_in m' nx" "nx = pte_get_phys (pt_read m' t i)"
    using A pte_get_phys_aligned by (auto simp: table_in_def)
  show "present (pt_read m' t i)" "page = 0 \<Longrightarrow> m' = m"
    "mon_allocs m' = (if page = 0 then mon_allocs m else insert (page, 0) (mon_allocs m))"
    using A by blast+
  show "ptmem m' w = ptmem m w" if "page_no w \<notin> free_pages_of m" "w \<noteq> t + 8 * i" for w
    using A that by blast
  show "page \<noteq> 0 \<Longrightarrow> (page, 0) \<notin> mon_allocs m \<and> \<not> present (pt_read m t i) \<and> page_no page \<in> free_pages_of m"
    "page \<noteq> 0 \<Longrightarrow> unat j < 512 \<Longrightarrow> pt_read m' nx j = 0"
    using A by blast+
qed

text \<open>What a walk to the table \<open>pt\<close> leaves, and what one leaves that was taken back, with at most \<open>k\<close>
  pages free.\<close>

definition walked :: "mon_state \<Rightarrow> u64 \<Rightarrow> u64 \<Rightarrow> mon_state \<Rightarrow> bool" where
  "walked m v pt m' \<longleftrightarrow> keeps m m' \<and> table_in m' pt \<and> present (entry4 m' v) \<and> present (entry3 m' v) \<and> present (entry2 m' v) \<and>
     pt = pte_get_phys (entry2 m' v) \<and> (kmap_walk m v = None \<longrightarrow> \<not> present (leaf m' v))"

definition taken_back :: "mon_state \<Rightarrow> nat \<Rightarrow> mon_state \<Rightarrow> bool" where
  "taken_back m k m' \<longleftrightarrow> pages_ok m' \<and> cr3 m' = cr3 m \<and> mon_allocs m' = mon_allocs m \<and> card (free_pages_of m') \<le> k \<and>
     (\<forall>w. page_no w \<notin> free_pages_of m \<longrightarrow> ptmem m' w = ptmem m w \<or> \<not> present (ptmem m w) \<and> ptmem m' w = 0)"

lemma table_pml4: "pages_ok m \<Longrightarrow> tables_apart m v \<Longrightarrow> table_in m (get_pml4 m)"
  by (simp add: table_in_def tables_apart_def get_pml4_aligned)

lemma level1_ok:
  assumes "pages_ok m" "tables_apart m v" "kmap_level m (get_pml4 m) (get_pt_index v 3) = (False, page, nx, m')"
  shows "present (pt_read m (get_pml4 m) (get_pt_index v 3)) \<longrightarrow> table_in m (pte_get_phys (pt_read m (get_pml4 m) (get_pt_index v 3)))"
    "present (pt_read m' nx (get_pt_index v 2)) \<Longrightarrow> page = 0 \<and> m' = m \<and> present (entry4 m v) \<and> nx = pte_get_phys (entry4 m v)"
proof -
  show nf: "present (pt_read m (get_pml4 m) (get_pt_index v 3)) \<longrightarrow> table_in m (pte_get_phys (pt_read m (get_pml4 m) (get_pt_index v 3)))"
    using assms(1,2) by (simp add: table_in_def tables_apart_def entry4_def pte_get_phys_aligned)
  note A = level_ok [OF table_pml4 [OF assms(1,2)] pt_index_less assms(3) nf]
  show "present (pt_read m' nx (get_pt_index v 2)) \<Longrightarrow> page = 0 \<and> m' = m \<and> present (entry4 m v) \<and> nx = pte_get_phys (entry4 m v)"
    using A(3,4,7) A(9) [OF _ pt_index_less, of v 2] by (cases "page = 0") (auto simp: entry4_def)
qed

lemma walk_down:
  assumes ok: "pages_ok m" and ap: "tables_apart m v"
    and l1: "kmap_level m (get_pml4 m) (get_pt_index v 3) = (False, p1, t3, m1)"
    and l2: "kmap_level m1 t3 (get_pt_index v 2) = (False, p2, t2, m2)"
  shows "keeps m m1" "table_in m1 t3" "present (entry4 m1 v)" "t3 = pte_get_phys (entry4 m1 v)"
    "keeps m1 m2" "table_in m2 t2" "present (pt_read m2 t3 (get_pt_index v 2))" "t2 = pte_get_phys (pt_read m2 t3 (get_pt_index v 2))"
    "present (pt_read m2 t2 (get_pt_index v 1)) \<Longrightarrow> m2 = m \<and> present (entry4 m v) \<and> present (entry3 m v) \<and>
       t2 = pte_get_phys (entry3 m v) \<and> table_in m2 (pte_get_phys (pt_read m2 t2 (get_pt_index v 1)))"
proof -
  note L = level1_ok [OF ok ap l1]
  note A = level_ok [OF table_pml4 [OF ok ap] pt_index_less l1 L(1)]
  show k1: "keeps m m1" and T3: "table_in m1 t3"
    by (rule A(1), rule A(2))
  have "get_pml4 m1 = get_pml4 m"
    using k1 by (simp add: keeps_def get_pml4_def)
  then show "present (entry4 m1 v)" "t3 = pte_get_phys (entry4 m1 v)"
    using A(3,4) by (simp_all add: entry4_def)
  have nf2: "present (pt_read m1 t3 (get_pt_index v 2)) \<longrightarrow> table_in m1 (pte_get_phys (pt_read m1 t3 (get_pt_index v 2)))"
    using L(2) ok ap by (auto simp: table_in_def tables_apart_def entry3_def pte_get_phys_aligned)
  note B = level_ok [OF T3 pt_index_less l2 nf2]
  show "keeps m1 m2" "table_in m2 t2" "present (pt_read m2 t3 (get_pt_index v 2))" "t2 = pte_get_phys (pt_read m2 t3 (get_pt_index v 2))"
    using B(1-4) by blast+
  show "m2 = m \<and> present (entry4 m v) \<and> present (entry3 m v) \<and> t2 = pte_get_phys (entry3 m v) \<and>
      table_in m2 (pte_get_phys (pt_read m2 t2 (get_pt_index v 1)))" if e2: "present (pt_read m2 t2 (get_pt_index v 1))"
  proof -
    have "p2 = 0"
      using B(9) [OF _ pt_index_less, of v 1] e2 by fastforce
    then have m2: "m2 = m1"
      by (rule B(7))
    then have "present (pt_read m1 t3 (get_pt_index v 2))" "t2 = pte_get_phys (pt_read m1 t3 (get_pt_index v 2))"
      using B(3,4) by blast+
    then have "m1 = m" "present (entry4 m v)" "present (entry3 m v)" "t2 = pte_get_phys (entry3 m v)"
      using L(2) by (auto simp: entry3_def)
    then show ?thesis
      using e2 m2 ok ap by (auto simp: table_in_def tables_apart_def entry2_def pte_get_phys_aligned)
  qed
qed

lemma walk_reached:
  assumes ok: "pages_ok m" and ap: "tables_apart m v"
    and l1: "kmap_level m (get_pml4 m) (get_pt_index v 3) = (False, p1, t3, m1)"
    and l2: "kmap_level m1 t3 (get_pt_index v 2) = (False, p2, t2, m2)"
    and l3: "kmap_level m2 t2 (get_pt_index v 1) = (False, p3, pt, m3)"
  shows "walked m v pt m3"
proof -
  note W = walk_down [OF ok ap l1 l2]
  have nf3: "present (pt_read m2 t2 (get_pt_index v 1)) \<longrightarrow> table_in m2 (pte_get_phys (pt_read m2 t2 (get_pt_index v 1)))"
    using W(9) by blast
  note C = level_ok [OF W(6) pt_index_less l3 nf3]
  have k: "keeps m1 m3" "keeps m m3"
    using keeps_trans [OF W(5) C(1)] keeps_trans [OF W(1)] by blast+
  have p4: "get_pml4 m1 = get_pml4 m" "get_pml4 m3 = get_pml4 m"
    using W(1) k(2) by (simp_all add: keeps_def get_pml4_def)
  have T4: "page_no (get_pml4 m) \<notin> free_pages_of m1"
    using W(1) ap by (auto simp: keeps_def tables_apart_def)
  have e4: "entry4 m3 v = entry4 m1 v"
    using keeps_read [OF k(1) T4 get_pml4_aligned pt_index_less] W(3) by (simp add: entry4_def p4)
  have T3: "page_no t3 \<notin> free_pages_of m2" "unat t3 mod 4096 = 0"
    using W(2,5) by (auto simp: table_in_def keeps_def)
  have e3: "entry3 m3 v = pt_read m2 t3 (get_pt_index v 2)"
    using keeps_read [OF C(1) T3 pt_index_less W(7)] W(4) e4 by (simp add: entry3_def)
  have e2: "entry2 m3 v = pt_read m3 t2 (get_pt_index v 1)"
    using e3 W(8) by (simp add: entry2_def)
  have "\<not> present (leaf m3 v)" if none: "kmap_walk m v = None"
  proof (cases "p3 = 0")
    case True
    then have m3: "m3 = m2"
      by (rule C(7))
    then have m: "m2 = m" "present (entry4 m v)" "present (entry3 m v)"
      using W(9) C(3) by auto
    then have "present (entry2 m v)"
      using e2 C(3) m3 by simp
    then show ?thesis
      using none m kmap_walk_iff [of m v] m3 by auto
  next
    case False
    then show ?thesis
      using C(9) [OF False pt_index_less, of v 0] C(4) e2 by (simp add: leaf_def)
  qed
  then show ?thesis
    using k(2) C(2-4) e4 W(3) e3 W(7) e2 by (simp add: walked_def)
qed

lemma card_insert_Suc: "card (insert x A) \<le> Suc (card A)"
  by (cases "finite A") (simp_all add: card_insert_if)

text \<open>Taking back one level, after what came below it has been taken back.\<close>

lemma level_back:
  assumes t: "table_in m t" and i: "unat i < 512" and lv: "kmap_level m t i = (False, page, nx, m1)"
    and nf: "present (pt_read m t i) \<longrightarrow> table_in m (pte_get_phys (pt_read m t i))" and tb: "taken_back m1 k mk"
  obtains m' where "kmap_unlink_table mk t i page = Some m'" "taken_back m (Suc k) m'"
proof -
  note A = level_ok [OF t i lv nf]
  have pg: "page_no page \<noteq> 0 \<and> page_no page < 2 ^ 28" if "page \<noteq> 0"
    using A(8) [OF that] t unfolding table_in_def pages_ok_def by metis
  have K: "pages_ok mk" "mon_allocs mk = mon_allocs m1" "card (free_pages_of mk) \<le> k" "cr3 mk = cr3 m1"
    "\<And>w. page_no w \<notin> free_pages_of m1 \<Longrightarrow> ptmem mk w = ptmem m1 w \<or> \<not> present (ptmem m1 w) \<and> ptmem mk w = 0"
    using tb by (auto simp: taken_back_def)
  obtain m' where m': "kmap_unlink_table mk t i page = Some m'" "pages_ok m'" "cr3 m' = cr3 mk"
    "mon_allocs m' = (if page = 0 then mon_allocs mk else mon_allocs mk - {(page, 0)})"
    "free_pages_of m' = (if page = 0 then free_pages_of mk else insert (page_no page) (free_pages_of mk))"
    "ptmem m' = (if page = 0 then ptmem mk else (ptmem mk)(t + 8 * i := 0))"
    by (rule unlink_step [OF K(1), of page]) (use A(5) K(2) pg in auto)
  have "ptmem m' w = ptmem m w \<or> \<not> present (ptmem m w) \<and> ptmem m' w = 0" if w: "page_no w \<notin> free_pages_of m" for w
  proof (cases "page = 0")
    case True
    then show ?thesis
      using m'(6) A(7) K(5) w by auto
  next
    case False
    have "page_no w \<notin> free_pages_of m1"
      using w A(1) by (auto simp: keeps_def)
    then show ?thesis
      using False m'(6) A(6) [OF w] A(8) K(5) [of w] by (auto simp: pt_read_def)
  qed
  moreover have "mon_allocs m' = mon_allocs m"
    using m'(4) A(5,8) K(2) by auto
  moreover have "card (free_pages_of m') \<le> Suc k" "cr3 m' = cr3 m"
    using m'(3,5) K(3,4) A(1) card_insert_Suc [of "page_no page" "free_pages_of mk"] by (auto simp: keeps_def)
  ultimately show thesis
    using that [OF m'(1)] m'(2) by (simp add: taken_back_def)
qed

lemma taken_back_full: "pages_ok m \<Longrightarrow> free_pages_of m = {} \<Longrightarrow> taken_back m 0 m"
  by (simp add: taken_back_def)

lemma taken_back_mono: "taken_back m k m' \<Longrightarrow> k \<le> l \<Longrightarrow> taken_back m l m'"
  by (auto simp: taken_back_def)

lemma walk_create_spec:
  assumes ok: "pages_ok m" and ap: "tables_apart m v"
  obtains (reached) pt m' where "kmap_walk_create m v = Some (Some pt, m')" "walked m v pt m'"
    | (undone) m' where "kmap_walk_create m v = Some (None, m')" "taken_back m 2 m'"
proof -
  obtain f1 p1 t3 m1 where l1: "kmap_level m (get_pml4 m) (get_pt_index v 3) = (f1, p1, t3, m1)"
    by (rule prod_cases4)
  show thesis
  proof (cases f1)
    case True
    then have "kmap_level m (get_pml4 m) (get_pt_index v 3) = (True, p1, t3, m1)"
      using l1 by simp
    from level_fail [OF ok this] True show thesis
      using l1 ok
      by (intro undone [of m]) (simp_all add: kmap_walk_create_def taken_back_def)
  next
    case f1: False
    have l1': "kmap_level m (get_pml4 m) (get_pt_index v 3) = (False, p1, t3, m1)"
      using l1 f1 by simp
    note L = level1_ok [OF ok ap l1']
    have m1: "pages_ok m1"
      using level_ok(2) [OF table_pml4 [OF ok ap] pt_index_less l1' L(1)] by (simp add: table_in_def)
    obtain f2 p2 t2 m2 where l2: "kmap_level m1 t3 (get_pt_index v 2) = (f2, p2, t2, m2)"
      by (rule prod_cases4)
    show thesis
    proof (cases f2)
      case True
      have "kmap_level m1 t3 (get_pt_index v 2) = (True, p2, t2, m2)"
        using l2 True by simp
      from level_fail [OF m1 this] have F: "m2 = m1" "taken_back m1 0 m1"
        using taken_back_full [OF m1] by simp_all
      obtain m' where "kmap_unlink_table m1 (get_pml4 m) (get_pt_index v 3) p1 = Some m'" "taken_back m (Suc 0) m'"
        by (rule level_back [OF table_pml4 [OF ok ap] pt_index_less l1' L(1) F(2)])
      then show thesis
        using l1 f1 l2 True F(1) by (intro undone [of m']) (simp_all add: kmap_walk_create_def Let_def taken_back_mono)
    next
      case f2: False
      have l2': "kmap_level m1 t3 (get_pt_index v 2) = (False, p2, t2, m2)"
        using l2 f2 by simp
      note W = walk_down [OF ok ap l1' l2']
      have m2: "pages_ok m2"
        using W(6) by (simp add: table_in_def)
      obtain f3 p3 pt m3 where l3: "kmap_level m2 t2 (get_pt_index v 1) = (f3, p3, pt, m3)"
        by (rule prod_cases4)
      show thesis
      proof (cases f3)
        case True
        have "kmap_level m2 t2 (get_pt_index v 1) = (True, p3, pt, m3)"
          using l3 True by simp
        from level_fail [OF m2 this] have F: "m3 = m2" "taken_back m2 0 m2"
          using taken_back_full [OF m2] by simp_all
        have nf2: "present (pt_read m1 t3 (get_pt_index v 2)) \<longrightarrow> table_in m1 (pte_get_phys (pt_read m1 t3 (get_pt_index v 2)))"
          using L(2) ok ap by (auto simp: table_in_def tables_apart_def entry3_def pte_get_phys_aligned)
        obtain mb where mb: "kmap_unlink_table m2 t3 (get_pt_index v 2) p2 = Some mb" "taken_back m1 (Suc 0) mb"
          by (rule level_back [OF W(2) pt_index_less l2' nf2 F(2)])
        obtain m' where "kmap_unlink_table mb (get_pml4 m) (get_pt_index v 3) p1 = Some m'" "taken_back m (Suc (Suc 0)) m'"
          by (rule level_back [OF table_pml4 [OF ok ap] pt_index_less l1' L(1) mb(2)])
        then show thesis
          using l1 f1 l2 f2 l3 True F(1) mb(1)
          by (intro undone [of m']) (simp_all add: kmap_walk_create_def Let_def numeral_2_eq_2)
      next
        case f3: False
        then have "kmap_level m2 t2 (get_pt_index v 1) = (False, p3, pt, m3)"
          using l3 by simp
        from walk_reached [OF ok ap l1' l2' this] f3 show thesis
          using l1 f1 l2 f2 l3
          by (intro reached [of pt m3]) (simp_all add: kmap_walk_create_def Let_def)
      qed
    qed
  qed
qed

section \<open>A fresh page\<close>

lemma free_page_step:
  assumes ok: "pages_ok m" and p: "(page, 0) \<in> mon_allocs m" "page_no page \<noteq> 0" "page_no page < 2 ^ 28"
  obtains m' where "mon_free_page m page = Some m'" "pages_ok m'" "m' = m\<lparr>phys := phys m'\<rparr>" "mon_allocs m' = mon_allocs m - {(page, 0)}"
    "free_pages_of m' = insert (page_no page) (free_pages_of m)"
proof -
  have inv: "pmm_inv (pmm (phys m))"
    using ok by (simp add: pages_ok_def)
  obtain q where q: "phys_free (phys m) page 0 = Some q" "pmm_inv (pmm q)" "allocs (pmm q) = mon_allocs m - {(page, 0)}"
      "free_frames (pmm q) = free_pages_of m \<union> frames page 0"
    using pa.release_block [OF inv, of page 0] p by auto
  then show thesis
    using that [of "m\<lparr>phys := q\<rparr>"] ok p by (auto simp: mon_free_page_def pages_ok_def frames_def)
qed

lemma entries_phys: "entry4 (m\<lparr>phys := q\<rparr>) v = entry4 m v" "entry3 (m\<lparr>phys := q\<rparr>) v = entry3 m v"
  "entry2 (m\<lparr>phys := q\<rparr>) v = entry2 m v" "leaf (m\<lparr>phys := q\<rparr>) v = leaf m v" "kmap_walk (m\<lparr>phys := q\<rparr>) v = kmap_walk m v"
  by (simp_all add: entry_defs pt_read_def get_pml4_def kmap_walk_def Let_def)

text \<open>The result of mapping a fresh page with entry flags \<open>flags\<close>.\<close>

definition mapped_page :: "mon_state \<Rightarrow> u64 \<Rightarrow> u64 \<Rightarrow> u64 \<Rightarrow> mon_state \<Rightarrow> bool" where
  "mapped_page m v flags page m' \<longleftrightarrow> page_no page \<in> free_pages_of m \<and> page_no page \<notin> free_pages_of m' \<and> (page, 0) \<notin> mon_allocs m \<and>
     (page, 0) \<in> mon_allocs m' \<and> mon_allocs m \<subseteq> mon_allocs m' \<and> pages_ok m' \<and>
     present (entry4 m' v) \<and> present (entry3 m' v) \<and> present (entry2 m' v) \<and> leaf m' v = page OR flags \<and>
     (\<forall>w. page_no w \<notin> free_pages_of m \<longrightarrow> present (ptmem m w) \<longrightarrow> ptmem m' w = ptmem m w) \<and> v \<in> set (tlb_log m')"

lemma leaf_write:
  assumes w: "walked m v pt m2" and none: "kmap_walk m v = None"
    and m3: "m3 = arch_tlb_invalidate_page (pt_write m2 pt (get_pt_index v 0) e) v"
  shows "entry4 m3 v = entry4 m2 v" "entry3 m3 v = entry3 m2 v" "entry2 m3 v = entry2 m2 v" "leaf m3 v = e"
    "present (ptmem m2 w) \<Longrightarrow> ptmem m3 w = ptmem m2 w" "phys m3 = phys m2" "v \<in> set (tlb_log m3)"
proof -
  have pt: "pt = pte_get_phys (entry2 m2 v)" and np: "\<not> present (leaf m2 v)"
    and pr: "present (entry4 m2 v)" "present (entry3 m2 v)" "present (entry2 m2 v)"
    using w none by (auto simp: walked_def)
  have mem: "ptmem m3 = (ptmem m2)(pt + 8 * get_pt_index v 0 := e)" and c: "get_pml4 m3 = get_pml4 m2"
    by (simp_all add: m3 arch_tlb_invalidate_page_def pt_write_def get_pml4_def)
  have ne: "x \<noteq> pt + 8 * get_pt_index v 0" if "present (ptmem m2 x)" for x
    using np that pt by (auto simp: leaf_def pt_read_def)
  show k: "ptmem m3 x = ptmem m2 x" if "present (ptmem m2 x)" for x
    using ne [OF that] mem by simp
  show e4: "entry4 m3 v = entry4 m2 v"
    using pr(1) k by (simp add: entry4_def pt_read_def c)
  show e3: "entry3 m3 v = entry3 m2 v"
    using pr(2) k by (simp add: entry3_def pt_read_def e4)
  show e2: "entry2 m3 v = entry2 m2 v"
    using pr(3) k by (simp add: entry2_def pt_read_def e3)
  show "leaf m3 v = e"
    by (simp add: leaf_def e2 pt [symmetric] pt_read_def mem)
  show "phys m3 = phys m2" "v \<in> set (tlb_log m3)"
    by (simp_all add: m3 arch_tlb_invalidate_page_def pt_write_def)
qed

lemma alloc_page_spec:
  assumes ok: "pages_ok m" and ap: "tables_apart m v" and none: "kmap_walk m v = None"
  obtains (mapped) page m' where "kmap_alloc_page m v flags = Some (0, m')" "mapped_page m v flags page m'"
    | (failed) m' where "kmap_alloc_page m v flags = Some (-1, m')" "taken_back m 3 m'"
proof -
  obtain page m1 where al: "mon_pmm_alloc m 0 = (page, m1)"
    by (cases "mon_pmm_alloc m 0")
  from ok al show thesis
  proof (cases rule: page_alloc_cases)
    case none
    then show thesis
      using al ok taken_back_mono [OF taken_back_full [OF ok]] by (intro failed [of m]) (simp_all add: kmap_alloc_page_def)
  next
    case some
    note e = entries_phys [where m = m and q = "phys m1" and v = v, folded some(2)]
    have c: "cr3 m1 = cr3 m" "ptmem m1 = ptmem m"
      by (subst some(2), simp)+
    then have ap1: "tables_apart m1 v"
      using ap some(6) by (auto simp: tables_apart_def e get_pml4_def)
    have none1: "kmap_walk m1 v = None"
      using none e(5) by simp
    have pg: "page_no page \<noteq> 0" "page_no page < 2 ^ 28"
      using ok some(5) unfolding pages_ok_def by metis+
    show thesis
    proof (rule walk_create_spec [OF some(3) ap1])
      fix pt m2
      assume w: "kmap_walk_create m1 v = Some (Some pt, m2)" "walked m1 v pt m2"
      define m3 where "m3 = arch_tlb_invalidate_page (pt_write m2 pt (get_pt_index v 0) (page OR flags)) v"
      note L = leaf_write [OF w(2) none1 m3_def]
      have K: "keeps m1 m2" "pages_ok m2" "present (entry4 m2 v)" "present (entry3 m2 v)" "present (entry2 m2 v)"
        using w(2) by (auto simp: walked_def table_in_def)
      have "ptmem m3 x = ptmem m x" if "page_no x \<notin> free_pages_of m" "present (ptmem m x)" for x
        using K(1) L(5) [of x] that some(6) unfolding keeps_def c by (metis Diff_iff subsetD)
      then have "mapped_page m v flags page m3"
        using K some L by (auto simp: mapped_page_def keeps_def pages_ok_def)
      then show thesis
        using al some(1) w(1) by (intro mapped [of m3 page]) (simp_all add: kmap_alloc_page_def m3_def)
    next
      fix m2
      assume w: "kmap_walk_create m1 v = Some (None, m2)" "taken_back m1 2 m2"
      have T: "pages_ok m2" "mon_allocs m2 = insert (page, 0) (mon_allocs m)" "card (free_pages_of m2) \<le> 2" "cr3 m2 = cr3 m"
        "\<And>w. page_no w \<notin> free_pages_of m1 \<Longrightarrow> ptmem m2 w = ptmem m w \<or> \<not> present (ptmem m w) \<and> ptmem m2 w = 0"
        using w(2) some(8) by (auto simp: taken_back_def c)
      obtain m' where m': "mon_free_page m2 page = Some m'" "pages_ok m'" "m' = m2\<lparr>phys := phys m'\<rparr>"
        "mon_allocs m' = mon_allocs m2 - {(page, 0)}" "free_pages_of m' = insert (page_no page) (free_pages_of m2)"
        by (rule free_page_step [OF T(1) _ pg]) (use T(2) in simp)
      have "ptmem m' = ptmem m2" "cr3 m' = cr3 m2"
        by (subst m'(3), simp)+
      moreover have "card (free_pages_of m') \<le> 3"
        using T(3) m'(5) card_insert_Suc [of "page_no page" "free_pages_of m2"] by simp
      ultimately have "taken_back m 3 m'"
        using T(2,4,5) m'(2,4) some(6,7) unfolding taken_back_def by auto
      then show thesis
        using al some(1) w(1) m'(1) by (intro failed [of m']) (simp_all add: kmap_alloc_page_def)
    qed
  qed
qed

section \<open>The page fault handler\<close>

lemma kmap_get_put_mon:
  assumes "a \<noteq> 0" "refcount (kmaps S a) \<noteq> 0"
  shows "kmap_put (set_km_mon (upd_kmap a (\<lambda>k. k\<lparr>refcount := refcount k + 1\<rparr>) S) m) a = set_km_mon S m"
  using assms by (simp add: kmap_put_def upd_kmap_def set_km_mon_def Let_def fun_upd_idem)

lemma kmap_ok_mon:
  assumes ok: "kmap_ok C S" and p: "pages_ok m" and a: "mon_allocs (km_mon S) \<subseteq> mon_allocs m"
  shows "kmap_ok C (set_km_mon S m)"
proof -
  note D = kmap_okD [OF ok]
  have "pmm_inv (pmm (phys m))"
    using p by (simp add: pages_ok_def)
  then have "slab_ok C ((km_slab S)\<lparr>slab_mon := m\<rparr>)" "cache_live C 2 ((km_slab S)\<lparr>slab_mon := m\<rparr>) = cache_live C 2 (km_slab S)"
    using slab_ok_mon(1,4) [OF D(1)] slab_ok_inv(3) [OF D(1)] a by blast+
  then show ?thesis
    using kmap_okI(1) [of C "set_km_mon S m" "kmap_mappings S"] D(2-5) by (auto simp: set_km_mon_def)
qed

text \<open>C24: \<open>kmap_handle_page_fault\<close> returns and leaves the mappings and their reference counts as they
  were. A fault outside every mapping or in one that is not pageable is refused without any effect,
  and one on a page that is mapped by now succeeds without any. Otherwise it either maps a fresh
  page at the faulting page with the mapping's flags: all levels of the page tables are present,
  the last entry holds the page and the flags, no entry that was present before changes, and the
  TLB entry is invalidated; or it reports failure, which happens only with at most three pages
  free, and then nothing stays allocated and every entry that was present is as before.\<close>

theorem page_fault_resolved:
  assumes "kmap_ok C S" and "\<forall>a\<in>set (kmap_mappings S). refcount (kmaps S a) \<noteq> 0" and "pages_ok (km_mon S)"
    and "tables_apart (km_mon S) v" and "v = addr AND NOT 0xFFF"
  shows "\<exists>r S'. kmap_handle_page_fault S addr err = Some (r, S') \<and> kmap_ok C S' \<and> kmaps S' = kmaps S \<and> km_links S' = km_links S \<and>
    (case kmap_at S (contains addr) of
       None \<Rightarrow> r = -1 \<and> S' = S
     | Some a \<Rightarrow>
         if pageable (kmaps S a) \<noteq> KMAP_PAGEABLE then r = -1 \<and> S' = S
         else if kmap_walk (km_mon S) v \<noteq> None then r = 0 \<and> S' = S
         else r = 0 \<and> (\<exists>page. mapped_page (km_mon S) v (kflags (kmaps S a)) page (km_mon S')) \<or>
              r = -1 \<and> taken_back (km_mon S) 3 (km_mon S'))"
proof (cases "kmap_at S (contains addr)")
  case None
  then show ?thesis
    using assms(1) kmap_search_eq [OF assms(1), of "contains addr"]
    by (intro exI [of _ "-1"] exI [of _ S]) (simp add: kmap_handle_page_fault_def kmap_lookup_def)
next
  case (Some a)
  note a = kmap_at_Some [OF assms(1) Some]
  have rc: "refcount (kmaps S a) \<noteq> 0"
    using assms(2) a(1) by blast
  let ?S = "upd_kmap a (\<lambda>k. k\<lparr>refcount := refcount k + 1\<rparr>) S"
  have lk: "kmap_lookup S addr = Some (a, ?S)"
    using kmap_search_eq [OF assms(1), of "contains addr"] Some by (simp add: kmap_lookup_def)
  have S: "km_mon ?S = km_mon S" "pageable (kmaps ?S a) = pageable (kmaps S a)" "kflags (kmaps ?S a) = kflags (kmaps S a)"
    by (simp_all add: upd_kmap_def)
  note put = kmap_get_put [OF a(3) rc] kmap_get_put_mon [OF a(3) rc]
  have v: "addr AND - PAGE_SIZE = v"
    using assms(5) by simp
  note H = kmap_handle_page_fault_def [of S addr err] lk S put a(3) v
  show ?thesis
  proof (cases "pageable (kmaps S a) = KMAP_PAGEABLE \<and> kmap_walk (km_mon S) v = None")
    case False
    then show ?thesis
      using Some assms(1) by (cases "pageable (kmaps S a) = KMAP_PAGEABLE") (auto simp: H Let_def)
  next
    case True
    from assms(3,4) conjunct2 [OF True] show ?thesis
    proof (cases rule: alloc_page_spec [where flags = "kflags (kmaps S a)"])
      case (mapped page m)
      then have "kmap_handle_page_fault S addr err = Some (0, set_km_mon S m)" "kmap_ok C (set_km_mon S m)"
        using True kmap_ok_mon [OF assms(1), of m] by (auto simp: H Let_def mapped_page_def)
      moreover have "km_mon (set_km_mon S m) = m"
        by (simp add: set_km_mon_def)
      ultimately show ?thesis
        using True Some mapped(2) by (intro exI [of _ 0] exI [of _ "set_km_mon S m"]) (auto simp: set_km_mon_def)
    next
      case (failed m)
      then have "kmap_handle_page_fault S addr err = Some (-1, set_km_mon S m)" "kmap_ok C (set_km_mon S m)"
        using True kmap_ok_mon [OF assms(1), of m] by (auto simp: H Let_def taken_back_def)
      moreover have "km_mon (set_km_mon S m) = m"
        by (simp add: set_km_mon_def)
      ultimately show ?thesis
        using True Some failed(2) by (intro exI [of _ "-1"] exI [of _ "set_km_mon S m"]) (auto simp: set_km_mon_def)
    qed
  qed
qed

lemma slab_alloc_mem:
  assumes "slab_alloc s (Some c) = Some (a, s')"
  shows "ptmem (slab_mon s') = ptmem (slab_mon s)" "cr3 (slab_mon s') = cr3 (slab_mon s)"
proof -
  have "ptmem m' = ptmem m \<and> cr3 m' = cr3 m" if "monitor_pmm_alloc m 0 = Some (p, m')" for m m' p
    using that by (auto simp: monitor_pmm_alloc_eq after_call_def)
  then show "ptmem (slab_mon s') = ptmem (slab_mon s)" "cr3 (slab_mon s') = cr3 (slab_mon s)"
    using slab_alloc_frame [OF assms] by metis+
qed

theorem page_fault_resolved_witness:
  "\<exists>a S r S'. example_create kmap_example = Some (a, S) \<and> kmap_handle_page_fault S 0x101234 2 = Some (r, S') \<and>
     (r = 0 \<and> (\<exists>page. mapped_page (km_mon S) 0x101000 7 page (km_mon S')) \<or> r = -1 \<and> taken_back (km_mon S) 3 (km_mon S'))"
proof (rule kmap_example_created)
  fix a S
  assume S: "example_create kmap_example = Some (a, S)" "a \<noteq> 0" "kmap_ok {2} S" "kmap_mappings S = [a]"
    "kmaps S a = new_kmap 0x100000 0x103000 0 7 KMAP_DYNAMIC KMAP_PAGEABLE KMAP_MONITOR_NONE (Some ''heap'')"
  note K = kmap_okD [OF kmap_example_facts(1)]
  obtain s where s: "slab_alloc (km_slab kmap_example) (Some 2) = Some (a, s)" "km_slab S = s"
    by (rule kmap_example_slab [OF S(1)])
  have fr: "free_pages_of (km_mon S) \<subseteq> {1024..<1536}"
    using slab_alloc_pages(2) [OF K(1,2) s(1)] by (simp add: s(2) kmap_example_facts(3) phys_example_facts(4))
  have mon: "km_mon kmap_example = mon_example"
    by (simp add: kmap_example_def slab_cache_create_def slab_zero_def)
  have m: "ptmem (km_mon S) = ptmem mon_example" "cr3 (km_mon S) = 0x1000"
    using slab_alloc_mem [OF s(1)] by (simp_all add: s(2) mon) (simp add: mon_example_def)
  have r: "\<forall>b\<in>set (kmap_mappings S). refcount (kmaps S b) \<noteq> 0"
    by (simp add: S(4,5) new_kmap_def)
  have po: "pages_ok (km_mon S)"
    using fr slab_ok_inv(2) [OF kmap_okD(1) [OF S(3)]] by (auto simp: pages_ok_def)
  have e: "entry4 (km_mon S) 0x101000 = 0x2003" "entry3 (km_mon S) 0x101000 = 0x3003" "entry2 (km_mon S) 0x101000 = 0x4003"
    "leaf (km_mon S) 0x101000 = 0"
    by (simp_all add: entry_defs pt_read_def m get_pml4_def get_pt_index_def pte_get_phys_def mon_example_def)
  have ap: "tables_apart (km_mon S) 0x101000"
    using fr by (auto simp: tables_apart_def e get_pml4_def m pte_get_phys_def page_no_def)
  have "kmap_walk (km_mon S) 0x101000 = None"
    using kmap_walk_iff [of "km_mon S" "0x101000"] e(4) by (metis present_link(2))
  moreover have "kmap_at S (contains 0x101234) = Some a"
    by (simp add: kmap_at_def S(4,5) new_kmap_def)
  ultimately show ?thesis
    using page_fault_resolved [OF S(3) r po ap, of "0x101234" 2] S(1,5) by (fastforce simp: new_kmap_def)
qed

end
