(* ===== verification/Device.thy ===== *)
theory Device
  imports EK_Prelude "HOL-Library.Multiset"
begin

text \<open>
  The device framework, \<^verbatim>\<open>src/kernel/device.c\<close>, and the two drivers that use it, the serial port of
  \<^verbatim>\<open>src/arch/x86_64/serial_driver.c\<close> and the IPI device of \<^verbatim>\<open>src/arch/x86_64/ipi.c\<close>. Devices and
  drivers are static structures found by their address, chained by their \<open>next\<close> pointers; 0 is the
  null pointer. What a call of a callback does is a parameter of the operations, which
  \<open>call_dev_fn\<close> instantiates with the functions of the two drivers. Operations that hold the registry locks are one step. \<open>None\<close> as a result is a loop
  along a chain of pointers that does not end.
\<close>

section \<open>State\<close>

datatype device_type = DEVICE_TYPE_PLATFORM | DEVICE_TYPE_SERIAL

datatype device_state_t = DEVICE_STATE_UNINITIALIZED | DEVICE_STATE_PROBED | DEVICE_STATE_INITIALIZED | DEVICE_STATE_FAILED

record device =
  dev_name :: u64
  dev_type :: device_type
  dev_state :: device_state_t
  dev_match_id :: u16
  init_priority :: u8
  mmio_base :: u64
  mmio_size :: u32
  io_port_base :: u16
  io_port_count :: u16
  bound_driver :: u64
  driver_data :: u64
  dev_next :: u64

text \<open>The functions the kernel stores in \<open>probe\<close> and \<open>init\<close>; \<open>None\<close> is the null pointer.\<close>

datatype dev_fn = serial_probe_fn | serial_init_fn | ipi_probe_fn | ipi_init_fn

record driver =
  drv_name :: u64
  drv_match_id :: u16
  drv_match_mask :: u16
  probe_fn :: "dev_fn option"
  init_fn :: "dev_fn option"
  drv_next :: u64

text \<open>The registries, the private data of the serial port, and the bytes sent to ports, the latest
  first.\<close>

record dev_sys =
  devices :: "u64 \<Rightarrow> device"
  drivers :: "u64 \<Rightarrow> driver"
  device_list :: u64
  driver_list :: u64
  device_count :: int
  com1_base_port :: u16
  com1_initialized :: bool
  port_writes :: "(u16 \<times> u8) list"

text \<open>A call of a function with a device as its argument.\<close>

type_synonym callbacks = "dev_fn \<Rightarrow> u64 \<Rightarrow> dev_sys \<Rightarrow> int \<times> dev_sys"

abbreviation MAX_DEVICES :: int where "MAX_DEVICES \<equiv> 32"

definition upd_device :: "u64 \<Rightarrow> (device \<Rightarrow> device) \<Rightarrow> dev_sys \<Rightarrow> dev_sys" where
  "upd_device d f S = S\<lparr>devices := (devices S)(d := f (devices S d))\<rparr>"

section \<open>Registration\<close>

definition driver_register :: "dev_sys \<Rightarrow> u64 \<Rightarrow> int \<times> dev_sys" where
  "driver_register S drv =
     (if drv = 0 \<or> drv_name (drivers S drv) = 0 then (-1, S)
      else (0, S\<lparr>drivers := (drivers S)(drv := (drivers S drv)\<lparr>drv_next := driver_list S\<rparr>), driver_list := drv\<rparr>))"

definition device_register :: "dev_sys \<Rightarrow> u64 \<Rightarrow> int \<times> dev_sys" where
  "device_register S dev =
     (if dev = 0 \<or> dev_name (devices S dev) = 0 then (-1, S)
      else if device_count S \<ge> MAX_DEVICES then (-2, S)
      else let S = upd_device dev (\<lambda>d. d\<lparr>dev_state := DEVICE_STATE_UNINITIALIZED, driver_data := 0, bound_driver := 0\<rparr>) S;
               S = upd_device dev (\<lambda>d. d\<lparr>dev_next := device_list S\<rparr>) S
           in (0, S\<lparr>device_list := dev, device_count := device_count S + 1\<rparr>))"

section \<open>Matching\<close>

definition match_device_driver :: "callbacks \<Rightarrow> dev_sys \<Rightarrow> u64 \<Rightarrow> u64 \<Rightarrow> bool \<times> dev_sys" where
  "match_device_driver call S drv dev =
     (let dev_id = dev_match_id (devices S dev);
          drv_id = drv_match_id (drivers S drv);
          mask = drv_match_mask (drivers S drv)
      in if dev_id AND mask = drv_id AND mask then
           (case probe_fn (drivers S drv) of
              Some f \<Rightarrow> (case call f dev S of (r, S) \<Rightarrow> (r = 0, S))
            | None \<Rightarrow> (True, S))
         else (False, S))"

text \<open>The inner loop of \<open>device_probe_all\<close>, from the driver \<open>drv\<close>, and the outer one, from the device
  \<open>dev\<close>.\<close>

partial_function (option) probe_drivers :: "callbacks \<Rightarrow> u64 \<Rightarrow> u64 \<Rightarrow> int \<Rightarrow> dev_sys \<Rightarrow> (int \<times> dev_sys) option" where
  "probe_drivers call dev drv matched_count S =
     (if drv = 0 then Some (matched_count, S)
      else case match_device_driver call S drv dev of
        (m, S) \<Rightarrow>
          if m then
            let S = upd_device dev (\<lambda>d. d\<lparr>bound_driver := drv\<rparr>) S
            in Some (matched_count + 1, upd_device dev (\<lambda>d. d\<lparr>dev_state := DEVICE_STATE_PROBED\<rparr>) S)
          else probe_drivers call dev (drv_next (drivers S drv)) matched_count S)"

partial_function (option) probe_devices :: "callbacks \<Rightarrow> u64 \<Rightarrow> int \<Rightarrow> dev_sys \<Rightarrow> (int \<times> dev_sys) option" where
  "probe_devices call dev matched_count S =
     (if dev = 0 then Some (matched_count, S)
      else Option.bind (probe_drivers call dev (driver_list S) matched_count S) (\<lambda>(matched_count, S).
             probe_devices call (dev_next (devices S dev)) matched_count S))"

definition device_probe_all :: "callbacks \<Rightarrow> dev_sys \<Rightarrow> (int \<times> dev_sys) option" where
  "device_probe_all call S = probe_devices call (device_list S) 0 S"

section \<open>Initialisation\<close>

text \<open>Phase 1: the devices put into the array \<open>devices_to_init\<close>.\<close>

partial_function (option) collect_probed :: "dev_sys \<Rightarrow> u64 \<Rightarrow> u64 list \<Rightarrow> u64 list option" where
  "collect_probed S dev devices_to_init =
     (if dev = 0 then Some devices_to_init
      else collect_probed S (dev_next (devices S dev))
             (if dev_state (devices S dev) = DEVICE_STATE_PROBED \<and> bound_driver (devices S dev) \<noteq> 0
              then devices_to_init @ [dev] else devices_to_init))"

text \<open>Phase 2: one comparison, one round and the whole bubble sort of the array.\<close>

definition bubble_step :: "(u64 \<Rightarrow> u8) \<Rightarrow> nat \<Rightarrow> u64 list \<Rightarrow> u64 list" where
  "bubble_step pri j xs =
     (if pri (xs ! j) > pri (xs ! (j + 1)) then xs[j := xs ! (j + 1), j + 1 := xs ! j] else xs)"

definition bubble_round :: "(u64 \<Rightarrow> u8) \<Rightarrow> nat \<Rightarrow> u64 list \<Rightarrow> u64 list" where
  "bubble_round pri n xs = fold (bubble_step pri) [0..<n] xs"

definition bubble_sort :: "(u64 \<Rightarrow> u8) \<Rightarrow> u64 list \<Rightarrow> u64 list" where
  "bubble_sort pri xs =
     (let count = length xs in fold (\<lambda>i xs. bubble_round pri (count - i - 1) xs) [0..<count - 1] xs)"

text \<open>Phase 3: one device.\<close>

definition init_device :: "callbacks \<Rightarrow> u64 \<Rightarrow> int \<times> dev_sys \<Rightarrow> int \<times> dev_sys" where
  "init_device call d = (\<lambda>(success_count, S).
     let drv = bound_driver (devices S d)
     in case init_fn (drivers S drv) of
          Some f \<Rightarrow>
            (case call f d S of
               (ret, S) \<Rightarrow>
                 if ret = 0 then (success_count + 1, upd_device d (\<lambda>d. d\<lparr>dev_state := DEVICE_STATE_INITIALIZED\<rparr>) S)
                 else (success_count, upd_device d (\<lambda>d. d\<lparr>dev_state := DEVICE_STATE_FAILED\<rparr>) S))
        | None \<Rightarrow> (success_count + 1, upd_device d (\<lambda>d. d\<lparr>dev_state := DEVICE_STATE_INITIALIZED\<rparr>) S))"

definition device_init_all :: "callbacks \<Rightarrow> dev_sys \<Rightarrow> (int \<times> dev_sys) option" where
  "device_init_all call S =
     Option.bind (collect_probed S (device_list S) []) (\<lambda>devices_to_init.
       let devices_to_init = bubble_sort (\<lambda>d. init_priority (devices S d)) devices_to_init
       in Some (fold (init_device call) devices_to_init (0, S)))"

section \<open>The serial port and the IPI device\<close>

text \<open>Where the linker puts the structures and names of the two drivers.\<close>

record driver_syms =
  serial_driver :: u64
  com1_device :: u64
  com1_data :: u64
  ipi_driver :: u64
  ipi_device :: u64
  serial_name :: u64
  com1_name :: u64
  ipi_name :: u64

text \<open>The structures as they are initialised, and the state at the start of the kernel.\<close>

definition serial_driver_struct :: "driver_syms \<Rightarrow> driver" where
  "serial_driver_struct sy =
     \<lparr>drv_name = serial_name sy, drv_match_id = 1, drv_match_mask = 0xFFFF, probe_fn = Some serial_probe_fn,
      init_fn = Some serial_init_fn, drv_next = 0\<rparr>"

definition com1_device_struct :: "driver_syms \<Rightarrow> device" where
  "com1_device_struct sy =
     \<lparr>dev_name = com1_name sy, dev_type = DEVICE_TYPE_SERIAL, dev_state = DEVICE_STATE_UNINITIALIZED,
      dev_match_id = 1, init_priority = 10, mmio_base = 0, mmio_size = 0, io_port_base = 0x3F8, io_port_count = 8,
      bound_driver = 0, driver_data = com1_data sy, dev_next = 0\<rparr>"

definition ipi_driver_struct :: "driver_syms \<Rightarrow> driver" where
  "ipi_driver_struct sy =
     \<lparr>drv_name = ipi_name sy, drv_match_id = 0x4950, drv_match_mask = 0xFFFF, probe_fn = Some ipi_probe_fn,
      init_fn = Some ipi_init_fn, drv_next = 0\<rparr>"

definition ipi_device_struct :: "driver_syms \<Rightarrow> device" where
  "ipi_device_struct sy =
     \<lparr>dev_name = ipi_name sy, dev_type = DEVICE_TYPE_PLATFORM, dev_state = DEVICE_STATE_UNINITIALIZED,
      dev_match_id = 0x4950, init_priority = 10, mmio_base = 0, mmio_size = 0, io_port_base = 0, io_port_count = 0,
      bound_driver = 0, driver_data = 0, dev_next = 0\<rparr>"

definition dev_boot :: "driver_syms \<Rightarrow> dev_sys" where
  "dev_boot sy =
     \<lparr>devices = (\<lambda>d. if d = com1_device sy then com1_device_struct sy else ipi_device_struct sy),
      drivers = (\<lambda>d. if d = serial_driver sy then serial_driver_struct sy else ipi_driver_struct sy),
      device_list = 0, driver_list = 0, device_count = 0, com1_base_port = 0, com1_initialized = False, port_writes = []\<rparr>"

definition outb :: "u16 \<Rightarrow> u8 \<Rightarrow> dev_sys \<Rightarrow> dev_sys" where
  "outb port val S = S\<lparr>port_writes := (port, val) # port_writes S\<rparr>"

definition serial_probe :: "u64 \<Rightarrow> dev_sys \<Rightarrow> int \<times> dev_sys" where
  "serial_probe dev S = (0, S)"

definition serial_init_device :: "u64 \<Rightarrow> dev_sys \<Rightarrow> int \<times> dev_sys" where
  "serial_init_device dev S =
     (if driver_data (devices S dev) = 0 then (-1, S)
      else let base = com1_base_port S;
               S = outb (base + 1) 0x00 S;
               S = outb (base + 3) 0x80 S;
               S = outb base 0x01 S;
               S = outb (base + 1) 0x00 S;
               S = outb (base + 3) 0x03 S;
               S = outb (base + 2) 0xC7 S;
               S = outb (base + 4) 0x0B S
           in (0, S\<lparr>com1_initialized := True\<rparr>))"

definition com1_data_init :: "dev_sys \<Rightarrow> dev_sys" where
  "com1_data_init S = S\<lparr>com1_base_port := 0x3F8, com1_initialized := False\<rparr>"

definition serial_driver_init :: "driver_syms \<Rightarrow> dev_sys \<Rightarrow> int \<times> dev_sys" where
  "serial_driver_init sy S =
     (let S = com1_data_init S
      in case driver_register S (serial_driver sy) of
           (ret, S) \<Rightarrow> if ret \<noteq> 0 then (ret, S) else device_register S (com1_device sy))"

definition ipi_device_probe :: "u64 \<Rightarrow> dev_sys \<Rightarrow> int \<times> dev_sys" where
  "ipi_device_probe dev S = (0, S)"

definition ipi_device_init :: "u64 \<Rightarrow> dev_sys \<Rightarrow> int \<times> dev_sys" where
  "ipi_device_init dev S = (0, S)"

definition ipi_driver_init :: "driver_syms \<Rightarrow> dev_sys \<Rightarrow> int \<times> dev_sys" where
  "ipi_driver_init sy S =
     (case driver_register S (ipi_driver sy) of
        (ret, S) \<Rightarrow>
          if ret < 0 then (ret, S)
          else case device_register S (ipi_device sy) of
            (ret, S) \<Rightarrow> if ret < 0 then (ret, S) else (0, S))"

text \<open>The callbacks of the kernel.\<close>

fun call_dev_fn :: callbacks where
  "call_dev_fn serial_probe_fn dev S = serial_probe dev S"
| "call_dev_fn serial_init_fn dev S = serial_init_device dev S"
| "call_dev_fn ipi_probe_fn dev S = ipi_device_probe dev S"
| "call_dev_fn ipi_init_fn dev S = ipi_device_init dev S"

section \<open>The bubble sort\<close>

text \<open>Two lists hold the same devices, those of equal priority in the same order.\<close>

definition stable_eq :: "('a \<Rightarrow> 'k) \<Rightarrow> 'a list \<Rightarrow> 'a list \<Rightarrow> bool" where
  "stable_eq pri xs ys \<longleftrightarrow> mset xs = mset ys \<and> (\<forall>k. filter (\<lambda>x. k = pri x) xs = filter (\<lambda>x. k = pri x) ys)"

lemma stable_eq_refl [simp]: "stable_eq pri xs xs"
  by (simp add: stable_eq_def)

lemma stable_eq_trans: "stable_eq pri xs ys \<Longrightarrow> stable_eq pri ys zs \<Longrightarrow> stable_eq pri xs zs"
  by (simp add: stable_eq_def)

lemma stable_eq_length: "stable_eq pri xs ys \<Longrightarrow> length xs = length ys"
  unfolding stable_eq_def by (blast dest: mset_eq_length)

lemma stable_eq_sort_key: "stable_eq pri ys xs \<Longrightarrow> sorted (map pri ys) \<Longrightarrow> ys = sort_key pri xs"
proof -
  assume "stable_eq pri ys xs" "sorted (map pri ys)"
  then have "sort_key pri xs = ys"
    by (intro properties_for_sort_key) (simp_all add: stable_eq_def)
  then show "ys = sort_key pri xs"
    by simp
qed

lemma bubble_step_cases:
  assumes "j + 1 < length xs"
  obtains us a b vs where "xs = us @ a # b # vs" "length us = j"
    "bubble_step pri j xs = us @ (if pri b < pri a then [b, a] else [a, b]) @ vs"
proof -
  have j: "j < length xs" "Suc j < length xs"
    using assms by simp_all
  have "xs = take j xs @ xs ! j # xs ! Suc j # drop (Suc (Suc j)) xs"
    unfolding Cons_nth_drop_Suc [OF j(2)] Cons_nth_drop_Suc [OF j(1)] append_take_drop_id by (rule refl)
  then obtain us a b vs where e: "xs = us @ a # b # vs" "length us = j"
    using j(1) by (metis length_take min.absorb4)
  moreover have "bubble_step pri j xs = us @ (if pri b < pri a then [b, a] else [a, b]) @ vs"
    unfolding e(1) e(2) [symmetric] by (simp add: bubble_step_def nth_append list_update_append)
  ultimately show thesis
    by (rule that)
qed

lemma bubble_step_stable: "j + 1 < length xs \<Longrightarrow> stable_eq pri (bubble_step pri j xs) xs"
  by (erule bubble_step_cases [of j xs pri]) (auto simp: stable_eq_def)

lemma bubble_round_Suc: "bubble_round pri (Suc n) xs = bubble_step pri n (bubble_round pri n xs)"
  by (simp add: bubble_round_def)

text \<open>One round moves the largest of the first \<open>n + 1\<close> devices to place \<open>n\<close>.\<close>

lemma bubble_round_max:
  assumes "n < length xs"
  shows "stable_eq pri (bubble_round pri n xs) xs \<and> drop (n + 1) (bubble_round pri n xs) = drop (n + 1) xs \<and>
    (\<forall>x\<in>set (take (n + 1) (bubble_round pri n xs)). pri x \<le> pri (bubble_round pri n xs ! n))"
  using assms
proof (induction n)
  case 0
  then show ?case
    by (cases xs) (auto simp: bubble_round_def)
next
  case (Suc n)
  let ?ys = "bubble_round pri n xs"
  have IH: "stable_eq pri ?ys xs" "drop (n + 1) ?ys = drop (n + 1) xs" "\<forall>x\<in>set (take (n + 1) ?ys). pri x \<le> pri (?ys ! n)"
    using Suc by auto
  have l: "n + 1 < length ?ys"
    using stable_eq_length [OF IH(1)] Suc.prems by simp
  obtain us a b vs where e: "?ys = us @ a # b # vs" "length us = n"
      "bubble_step pri n ?ys = us @ (if pri b < pri a then [b, a] else [a, b]) @ vs"
    using bubble_step_cases [OF l, of pri] by metis
  have us: "\<forall>x\<in>set us. pri x \<le> pri a"
    using IH(3) [unfolded e(1)] e(2) by (auto simp: nth_append)
  have "drop (n + 2) xs = vs"
    using arg_cong [OF IH(2) [unfolded e(1)], of "drop 1"] e(2) by simp
  then show ?case
    using stable_eq_trans [OF bubble_step_stable [OF l] IH(1)] us e(2) unfolding bubble_round_Suc e(3)
    by (auto simp: nth_append)
qed

text \<open>After \<open>k\<close> rounds the last \<open>k\<close> devices are in place.\<close>

definition tail_sorted :: "('a \<Rightarrow> 'k::linorder) \<Rightarrow> nat \<Rightarrow> 'a list \<Rightarrow> bool" where
  "tail_sorted pri m xs \<longleftrightarrow> sorted (map pri (drop m xs)) \<and> (\<forall>x\<in>set (take m xs). \<forall>y\<in>set (drop m xs). pri x \<le> pri y)"

lemma bubble_round_tail:
  assumes n: "n < length xs" and t: "tail_sorted pri (n + 1) xs"
  shows "tail_sorted pri n (bubble_round pri n xs)"
proof -
  let ?ys = "bubble_round pri n xs"
  note r = bubble_round_max [OF n, of pri]
  have l: "n < length ?ys"
    using n r stable_eq_length by metis
  have m: "mset (take (n + 1) ?ys) = mset (take (n + 1) xs)"
  proof -
    have "mset (take (n + 1) ?ys) + mset (drop (n + 1) ?ys) = mset (take (n + 1) xs) + mset (drop (n + 1) xs)"
      using r unfolding mset_append [symmetric] append_take_drop_id by (simp add: stable_eq_def)
    then show ?thesis
      using r by simp
  qed
  then have s: "set (take (n + 1) ?ys) = set (take (n + 1) xs)"
    by (rule mset_eq_setD)
  have d: "drop n ?ys = ?ys ! n # drop (n + 1) xs"
    using r l by (simp add: Cons_nth_drop_Suc [symmetric])
  have k: "take (n + 1) ?ys = take n ?ys @ [?ys ! n]"
    using l by (simp add: take_Suc_conv_app_nth)
  have "\<forall>x\<in>set (take (n + 1) ?ys). \<forall>y\<in>set (drop (n + 1) xs). pri x \<le> pri y"
    using t unfolding s by (simp add: tail_sorted_def)
  then show ?thesis
    using r t unfolding tail_sorted_def d k by auto
qed

lemma bubble_rounds:
  assumes "k \<le> length xs - 1"
  shows "stable_eq pri (fold (\<lambda>i. bubble_round pri (length xs - i - 1)) [0..<k] xs) xs \<and>
    tail_sorted pri (length xs - k) (fold (\<lambda>i. bubble_round pri (length xs - i - 1)) [0..<k] xs)"
  using assms
proof (induction k)
  case 0
  then show ?case
    by (simp add: tail_sorted_def)
next
  case (Suc k)
  let ?ys = "fold (\<lambda>i. bubble_round pri (length xs - i - 1)) [0..<k] xs" and ?n = "length xs - k - 1"
  have IH: "stable_eq pri ?ys xs" "tail_sorted pri (?n + 1) ?ys"
    using Suc.IH Suc.prems by (simp_all add: Suc_diff_Suc)
  have n: "?n < length ?ys"
    using Suc.prems stable_eq_length [OF IH(1)] by simp
  show ?case
    using stable_eq_trans [OF conjunct1 [OF bubble_round_max [OF n]] IH(1)] bubble_round_tail [OF n IH(2)] by simp
qed

lemma bubble_sort_sort_key: "bubble_sort pri xs = sort_key pri xs"
proof (rule stable_eq_sort_key)
  note r = bubble_rounds [of "length xs - 1" xs pri]
  show "stable_eq pri (bubble_sort pri xs) xs"
    using r by (simp add: bubble_sort_def Let_def)
  have t: "tail_sorted pri (length xs - (length xs - 1)) (bubble_sort pri xs)"
    using r by (simp add: bubble_sort_def Let_def)
  show "sorted (map pri (bubble_sort pri xs))"
  proof (cases "bubble_sort pri xs")
    case (Cons y ys)
    then have "length xs \<ge> 1"
      using stable_eq_length [OF conjunct1 [OF r]] by (auto simp: bubble_sort_def Let_def Suc_le_eq)
    then show ?thesis
      using t Cons by (auto simp: tail_sorted_def)
  qed simp
qed

end
