(* ===== verification/Device_Props.thy ===== *)
theory Device_Props
  imports Device
begin

text \<open>
  Properties of the device framework: the registries are chains of distinct structures, probing
  binds every device to the first driver that takes it, and initialisation visits the probed
  devices in the order of their priority. The contract a driver's callbacks keep is a locale; the
  interpretation is on the callbacks of the serial port and of the IPI device.
\<close>

section \<open>Registries\<close>

text \<open>The structures from \<open>p\<close> on along \<open>next\<close> pointers, up to the null pointer.\<close>

primrec chain :: "(u64 \<Rightarrow> u64) \<Rightarrow> u64 \<Rightarrow> u64 list \<Rightarrow> bool" where
  "chain f p [] \<longleftrightarrow> p = 0"
| "chain f p (x # xs) \<longleftrightarrow> p = x \<and> x \<noteq> 0 \<and> chain f (f x) xs"

lemma chain_unique: "chain f p xs \<Longrightarrow> chain f p ys \<Longrightarrow> xs = ys"
proof (induction xs arbitrary: p ys)
  case Nil
  then show ?case
    by (cases ys) auto
next
  case (Cons x xs)
  then show ?case
    by (cases ys) auto
qed

lemma chain_suffix: "chain f p (us @ vs) \<Longrightarrow> \<exists>q. chain f q vs"
  by (induction us arbitrary: p) auto

lemma chain_distinct: "chain f p xs \<Longrightarrow> distinct xs"
proof (induction xs arbitrary: p)
  case (Cons x xs)
  have "x \<notin> set xs"
  proof
    assume "x \<in> set xs"
    then obtain us vs where xs: "xs = us @ x # vs"
      by (meson split_list)
    then obtain q where "chain f q (x # vs)"
      using Cons.prems chain_suffix [of f "f x" us "x # vs"] by auto
    then have "chain f (f x) vs"
      by simp
    then show False
      using chain_unique [of f "f x" xs vs] Cons.prems xs by simp
  qed
  then show ?case
    using Cons by auto
qed simp

lemma chain_cong: "(\<And>x. x \<in> set xs \<Longrightarrow> f x = g x) \<Longrightarrow> chain f p xs = chain g p xs"
  by (induction xs arbitrary: p) auto

lemma chain_update: "x \<notin> set xs \<Longrightarrow> chain (f(x := v)) p xs = chain f p xs"
  by (rule chain_cong) auto

abbreviation dev_chain :: "dev_sys \<Rightarrow> u64 \<Rightarrow> u64 list \<Rightarrow> bool" where
  "dev_chain S \<equiv> chain (\<lambda>d. dev_next (devices S d))"

abbreviation drv_chain :: "dev_sys \<Rightarrow> u64 \<Rightarrow> u64 list \<Rightarrow> bool" where
  "drv_chain S \<equiv> chain (\<lambda>d. drv_next (drivers S d))"

definition registry :: "dev_sys \<Rightarrow> u64 list \<Rightarrow> u64 list \<Rightarrow> bool" where
  "registry S devs drvs \<longleftrightarrow> dev_chain S (device_list S) devs \<and> drv_chain S (driver_list S) drvs \<and>
     device_count S = int (length devs) \<and> device_count S \<le> MAX_DEVICES"

lemma device_register_registry:
  assumes "registry S devs drvs" "dev \<notin> set devs" "device_register S dev = (r, S')"
  shows "if r = 0 then registry S' (dev # devs) drvs \<and> dev_state (devices S' dev) = DEVICE_STATE_UNINITIALIZED \<and>
      driver_data (devices S' dev) = 0
    else S' = S"
proof -
  have "chain (\<lambda>d. dev_next (((devices S)(dev := x)) d)) p devs = dev_chain S p devs" for p x
    using assms(2) by (intro chain_cong) auto
  then show ?thesis
    using assms by (auto simp: device_register_def registry_def upd_device_def Let_def split: if_splits)
qed

lemma driver_register_registry:
  assumes "registry S devs drvs" "drv \<notin> set drvs" "driver_register S drv = (r, S')"
  shows "if r = 0 then registry S' devs (drv # drvs) else S' = S"
proof -
  have "chain (\<lambda>d. drv_next (((drivers S)(drv := x)) d)) p drvs = drv_chain S p drvs" for p x
    using assms(2) by (intro chain_cong) auto
  then show ?thesis
    using assms by (auto simp: driver_register_def registry_def split: if_splits)
qed

section \<open>The contract of a callback\<close>

text \<open>A device but for the pointer to its driver's private data.\<close>

definition core :: "device \<Rightarrow> device" where
  "core d = d\<lparr>driver_data := 0\<rparr>"

lemma coreD:
  assumes "core d = core e"
  shows "dev_next d = dev_next e" "dev_state d = dev_state e" "bound_driver d = bound_driver e"
    "dev_match_id d = dev_match_id e" "init_priority d = init_priority e"
  using assms by (cases d; cases e; simp add: core_def)+

lemma core_upd:
  "core d = core e \<Longrightarrow> core (d\<lparr>dev_state := x\<rparr>) = core (e\<lparr>dev_state := x\<rparr>)"
  "core d = core e \<Longrightarrow> core (d\<lparr>bound_driver := b, dev_state := x\<rparr>) = core (e\<lparr>bound_driver := b, dev_state := x\<rparr>)"
  by (cases d; cases e; simp add: core_def)+

definition same_registry :: "dev_sys \<Rightarrow> dev_sys \<Rightarrow> bool" where
  "same_registry S S' \<longleftrightarrow> drivers S' = drivers S \<and> device_list S' = device_list S \<and> driver_list S' = driver_list S \<and>
     device_count S' = device_count S"

lemma same_registry_upd [simp]: "same_registry S (upd_device d f S') = same_registry S S'"
  by (simp add: same_registry_def upd_device_def)

lemma same_registry_trans: "same_registry S T \<Longrightarrow> same_registry T U \<Longrightarrow> same_registry S U"
  by (simp add: same_registry_def)

lemma same_registry_refl [simp]: "same_registry S S"
  by (simp add: same_registry_def)

text \<open>A callback leaves the registries alone and changes at most the private data of devices. The
  answer of a probe function depends on the device only.\<close>

locale device_callbacks =
  fixes call :: callbacks
    and probes :: "dev_fn set"
    and accepts :: "dev_fn \<Rightarrow> u64 \<Rightarrow> bool"
  assumes call_registry: "call f d S = (r, S') \<Longrightarrow> same_registry S S'"
    and call_core: "call f d S = (r, S') \<Longrightarrow> core (devices S' x) = core (devices S x)"
    and call_probe: "f \<in> probes \<Longrightarrow> call f d S = (r, S') \<Longrightarrow> r = 0 \<longleftrightarrow> accepts f d"

definition id_match :: "dev_sys \<Rightarrow> u64 \<Rightarrow> u64 \<Rightarrow> bool" where
  "id_match S d drv \<longleftrightarrow> dev_match_id (devices S d) AND drv_match_mask (drivers S drv) =
     drv_match_id (drivers S drv) AND drv_match_mask (drivers S drv)"

definition takes :: "(dev_fn \<Rightarrow> u64 \<Rightarrow> bool) \<Rightarrow> dev_sys \<Rightarrow> u64 \<Rightarrow> u64 \<Rightarrow> bool" where
  "takes acc S d drv \<longleftrightarrow> id_match S d drv \<and> (case probe_fn (drivers S drv) of None \<Rightarrow> True | Some f \<Rightarrow> acc f d)"

definition bind_to :: "u64 option \<Rightarrow> device \<Rightarrow> device" where
  "bind_to r d = (case r of None \<Rightarrow> d | Some drv \<Rightarrow> d\<lparr>bound_driver := drv, dev_state := DEVICE_STATE_PROBED\<rparr>)"

lemma takes_cong:
  assumes "same_registry S S'" "core (devices S' d) = core (devices S d)"
  shows "takes acc S' d = takes acc S d"
  using assms coreD(4) [OF assms(2)] by (auto simp: fun_eq_iff takes_def id_match_def same_registry_def)

lemma bind_to_core:
  assumes "core d = core e"
  shows "core (bind_to r d) = core (bind_to r e)"
  by (cases r) (simp_all add: bind_to_def assms core_upd(2) [OF assms])

context device_callbacks
begin

lemma match_spec:
  assumes "set_option (probe_fn (drivers S drv)) \<subseteq> probes" "match_device_driver call S drv d = (m, S')"
  shows "m = takes accepts S d drv" "same_registry S S'" "core (devices S' x) = core (devices S x)"
  using assms call_registry call_core call_probe
  by (auto simp: match_device_driver_def takes_def id_match_def Let_def split: if_splits option.splits prod.splits)

lemma probe_drivers_spec:
  assumes "drv_chain S p drvs" "\<forall>drv\<in>set drvs. set_option (probe_fn (drivers S drv)) \<subseteq> probes"
  shows "\<exists>S'. probe_drivers call d p n S = Some (n + (if find (takes accepts S d) drvs = None then 0 else 1), S') \<and>
    same_registry S S' \<and>
    (\<forall>x. core (devices S' x) = core (if x = d then bind_to (find (takes accepts S d) drvs) (devices S x) else devices S x))"
  using assms
proof (induction drvs arbitrary: p S)
  case Nil
  then show ?case
    by (simp add: probe_drivers.simps bind_to_def)
next
  case (Cons drv drvs)
  have p: "p = drv" "drv \<noteq> 0"
    using Cons.prems by auto
  obtain m S1 where m: "match_device_driver call S drv d = (m, S1)"
    by (cases "match_device_driver call S drv d")
  note M = match_spec [OF _ m]
  have sr: "same_registry S S1" and cr: "\<And>x. core (devices S1 x) = core (devices S x)"
    using M(2,3) Cons.prems(2) by auto
  have dr: "drivers S1 = drivers S"
    using sr by (simp add: same_registry_def)
  have tk: "takes accepts S1 d = takes accepts S d"
    by (rule takes_cong [OF sr cr])
  show ?case
  proof (cases m)
    case True
    then have "takes accepts S d drv"
      using M(1) Cons.prems(2) by simp
    moreover have "probe_drivers call d p n S =
        Some (n + 1, upd_device d (\<lambda>d. d\<lparr>dev_state := DEVICE_STATE_PROBED\<rparr>) (upd_device d (\<lambda>d. d\<lparr>bound_driver := drv\<rparr>) S1))"
      using True by (simp add: probe_drivers.simps [of call d drv] p m Let_def)
    ultimately show ?thesis
      using sr core_upd(2) [OF cr] by (simp add: bind_to_def upd_device_def same_registry_def cr)
  next
    case False
    then have nt: "\<not> takes accepts S d drv"
      using M(1) Cons.prems(2) by simp
    have "drv_chain S1 (drv_next (drivers S1 drv)) drvs" "\<forall>drv\<in>set drvs. set_option (probe_fn (drivers S1 drv)) \<subseteq> probes"
      using Cons.prems by (simp_all add: dr)
    from Cons.IH [OF this] obtain S' where S': "probe_drivers call d (drv_next (drivers S1 drv)) n S1 =
        Some (n + (if find (takes accepts S1 d) drvs = None then 0 else 1), S')" "same_registry S1 S'"
        "\<forall>x. core (devices S' x) = core (if x = d then bind_to (find (takes accepts S1 d) drvs) (devices S1 x) else devices S1 x)"
      by blast
    moreover have "probe_drivers call d p n S = probe_drivers call d (drv_next (drivers S1 drv)) n S1"
      using False by (simp add: probe_drivers.simps [of call d drv] p m)
    ultimately show ?thesis
      using nt same_registry_trans [OF sr S'(2)] bind_to_core [OF cr] by (intro exI [of _ S']) (simp add: tk cr)
  qed
qed

lemma probe_devices_spec:
  assumes "dev_chain S p devs" "drv_chain S (driver_list S) drvs"
    "\<forall>drv\<in>set drvs. set_option (probe_fn (drivers S drv)) \<subseteq> probes"
  shows "\<exists>S'. probe_devices call p n S = Some (n + int (length (filter (\<lambda>d. find (takes accepts S d) drvs \<noteq> None) devs)), S') \<and>
    same_registry S S' \<and>
    (\<forall>x. core (devices S' x) = core (if x \<in> set devs then bind_to (find (takes accepts S x) drvs) (devices S x) else devices S x))"
  using assms
proof (induction devs arbitrary: p n S)
  case Nil
  then show ?case
    by (simp add: probe_devices.simps)
next
  case (Cons d devs)
  have p: "p = d" "d \<noteq> 0" and nd: "d \<notin> set devs"
    using Cons.prems(1) chain_distinct [OF Cons.prems(1)] by auto
  let ?k = "if find (takes accepts S d) drvs = None then 0 else (1::int)"
  obtain S1 where S1: "probe_drivers call d (driver_list S) n S = Some (n + ?k, S1)" "same_registry S S1"
      "\<And>x. core (devices S1 x) = core (if x = d then bind_to (find (takes accepts S d) drvs) (devices S x) else devices S x)"
    using probe_drivers_spec [OF Cons.prems(2,3), of d n] by blast
  have e: "drivers S1 = drivers S" "driver_list S1 = driver_list S"
    using S1(2) by (simp_all add: same_registry_def)
  have nx: "dev_next (devices S1 x) = dev_next (devices S x)" for x
    using coreD(1) [OF S1(3) [of x]] by (simp add: bind_to_def split: if_splits option.splits)
  have tk: "takes accepts S1 x = takes accepts S x" if "x \<noteq> d" for x
    by (rule takes_cong [OF S1(2)]) (simp add: S1(3) that)
  have "dev_chain S1 (dev_next (devices S1 d)) devs" "drv_chain S1 (driver_list S1) drvs"
    "\<forall>drv\<in>set drvs. set_option (probe_fn (drivers S1 drv)) \<subseteq> probes"
    using Cons.prems by (simp_all add: nx e)
  from Cons.IH [OF this, of "n + ?k"] obtain S' where S': "probe_devices call (dev_next (devices S1 d)) (n + ?k) S1 =
      Some (n + ?k + int (length (filter (\<lambda>d. find (takes accepts S1 d) drvs \<noteq> None) devs)), S')" "same_registry S1 S'"
      "\<And>x. core (devices S' x) = core (if x \<in> set devs then bind_to (find (takes accepts S1 x) drvs) (devices S1 x) else devices S1 x)"
    by blast
  have f: "filter (\<lambda>d. find (takes accepts S1 d) drvs \<noteq> None) devs = filter (\<lambda>d. find (takes accepts S d) drvs \<noteq> None) devs"
  proof (rule filter_cong)
    fix x
    assume "x \<in> set devs"
    then have "x \<noteq> d"
      using nd by blast
    then show "(find (takes accepts S1 x) drvs \<noteq> None) = (find (takes accepts S x) drvs \<noteq> None)"
      by (simp add: tk)
  qed (rule refl)
  have "core (devices S' x) = core (if x \<in> set (d # devs) then bind_to (find (takes accepts S x) drvs) (devices S x) else devices S x)" for x
  proof (cases "x \<in> set devs")
    case True
    then have ne: "x \<noteq> d"
      using nd by blast
    have "core (devices S1 x) = core (devices S x)"
      by (simp add: S1(3) ne)
    from bind_to_core [OF this] show ?thesis
      using True S'(3) [of x] by (simp add: tk [OF ne])
  next
    case False
    then show ?thesis
      using S'(3) [of x] S1(3) [of x] by simp
  qed
  moreover have "probe_devices call p n S = probe_devices call (dev_next (devices S1 d)) (n + ?k) S1"
    using S1(1) by (simp add: probe_devices.simps [of call d] p)
  ultimately show ?case
    using S'(1) [unfolded f] same_registry_trans [OF S1(2) S'(2)] by (intro exI [of _ S']) simp
qed

lemma init_device_spec:
  obtains st S' where "init_device call d (n, S) = (n + (if st = DEVICE_STATE_INITIALIZED then 1 else 0), S')"
    "st = DEVICE_STATE_INITIALIZED \<or> st = DEVICE_STATE_FAILED" "same_registry S S'"
    "\<And>x. core (devices S' x) = core (if x = d then (devices S x)\<lparr>dev_state := st\<rparr> else devices S x)"
proof (cases "init_fn (drivers S (bound_driver (devices S d)))")
  case None
  then show thesis
    by (intro that [of DEVICE_STATE_INITIALIZED "upd_device d (\<lambda>d. d\<lparr>dev_state := DEVICE_STATE_INITIALIZED\<rparr>) S"])
      (auto simp: init_device_def upd_device_def same_registry_def)
next
  case (Some f)
  obtain r S1 where c: "call f d S = (r, S1)"
    by (cases "call f d S")
  note cr = call_core [OF c] and sr = call_registry [OF c]
  show thesis
    by (rule that [of "if r = 0 then DEVICE_STATE_INITIALIZED else DEVICE_STATE_FAILED"
          "upd_device d (\<lambda>x. x\<lparr>dev_state := if r = 0 then DEVICE_STATE_INITIALIZED else DEVICE_STATE_FAILED\<rparr>) S1"])
      (use Some c sr core_upd(1) [OF cr] cr in \<open>simp_all add: init_device_def upd_device_def same_registry_def\<close>)
qed

lemma init_fold_spec:
  assumes "distinct ds"
  shows "\<exists>S'. fold (init_device call) ds (n, S) =
      (n + int (length (filter (\<lambda>d. dev_state (devices S' d) = DEVICE_STATE_INITIALIZED) ds)), S') \<and>
    same_registry S S' \<and> (\<forall>x. x \<notin> set ds \<longrightarrow> core (devices S' x) = core (devices S x)) \<and>
    (\<forall>d\<in>set ds. dev_state (devices S' d) = DEVICE_STATE_INITIALIZED \<or> dev_state (devices S' d) = DEVICE_STATE_FAILED)"
  using assms
proof (induction ds arbitrary: n S)
  case (Cons d ds)
  obtain st S1 where S1: "init_device call d (n, S) = (n + (if st = DEVICE_STATE_INITIALIZED then 1 else 0), S1)"
      "st = DEVICE_STATE_INITIALIZED \<or> st = DEVICE_STATE_FAILED" "same_registry S S1"
      "\<And>x. core (devices S1 x) = core (if x = d then (devices S x)\<lparr>dev_state := st\<rparr> else devices S x)"
    by (rule init_device_spec [of d n S], rule that)
  let ?n = "n + (if st = DEVICE_STATE_INITIALIZED then 1 else 0)"
  obtain S' where S': "fold (init_device call) ds (?n, S1) =
        (?n + int (length (filter (\<lambda>d. dev_state (devices S' d) = DEVICE_STATE_INITIALIZED) ds)), S')"
      "same_registry S1 S'" "\<And>x. x \<notin> set ds \<Longrightarrow> core (devices S' x) = core (devices S1 x)"
      "\<forall>d\<in>set ds. dev_state (devices S' d) = DEVICE_STATE_INITIALIZED \<or> dev_state (devices S' d) = DEVICE_STATE_FAILED"
    using Cons.IH [of ?n S1] Cons.prems by auto
  have "core (devices S' d) = core ((devices S d)\<lparr>dev_state := st\<rparr>)"
    using S'(3) [of d] S1(4) [of d] Cons.prems by simp
  from coreD(2) [OF this] have st: "dev_state (devices S' d) = st"
    by simp
  have "core (devices S' x) = core (devices S x)" if "x \<notin> set (d # ds)" for x
    using S'(3) [of x] S1(4) [of x] that by simp
  then show ?case
    using S'(1,4) S1(1,2) st same_registry_trans [OF S1(3) S'(2)] by (intro exI [of _ S']) auto
qed simp

end

text \<open>The callbacks of the kernel keep the contract; their probe functions take every device.\<close>

interpretation kdev: device_callbacks call_dev_fn "{serial_probe_fn, ipi_probe_fn}" "\<lambda>_ _. True"
proof
  fix f d S r S' x
  assume c: "call_dev_fn f d S = (r, S')"
  show "same_registry S S'"
    using c by (cases f) (auto simp: serial_probe_def serial_init_device_def ipi_device_probe_def ipi_device_init_def
        same_registry_def outb_def Let_def split: if_splits)
  show "core (devices S' x) = core (devices S x)"
    using c by (cases f) (auto simp: serial_probe_def serial_init_device_def ipi_device_probe_def ipi_device_init_def
        outb_def Let_def split: if_splits)
  show "f \<in> {serial_probe_fn, ipi_probe_fn} \<Longrightarrow> (r = 0) = True"
    using c by (auto simp: serial_probe_def ipi_device_probe_def)
qed

lemma takes_kdev: "takes (\<lambda>_ _. True) S d = id_match S d"
  by (auto simp: fun_eq_iff takes_def split: option.split)

section \<open>Probing and initialisation\<close>

text \<open>C29: probing. When the drivers' probe functions are those of the kernel, \<open>device_probe_all\<close> returns
  the number of devices that some driver matches. Each of them is bound to the first driver of
  the registry whose identifier agrees with the device's under the driver's mask, and is marked
  probed; other devices keep their state and their driver, and the registries do not change.\<close>

theorem device_probe_all_binds:
  assumes "registry S devs drvs"
    and "\<forall>drv\<in>set drvs. probe_fn (drivers S drv) \<in> {None, Some serial_probe_fn, Some ipi_probe_fn}"
  shows "\<exists>S'. device_probe_all call_dev_fn S =
      Some (int (length (filter (\<lambda>d. find (id_match S d) drvs \<noteq> None) devs)), S') \<and> registry S' devs drvs \<and>
    (\<forall>d. case if d \<in> set devs then find (id_match S d) drvs else None of
       Some drv \<Rightarrow> bound_driver (devices S' d) = drv \<and> dev_state (devices S' d) = DEVICE_STATE_PROBED
     | None \<Rightarrow> bound_driver (devices S' d) = bound_driver (devices S d) \<and> dev_state (devices S' d) = dev_state (devices S d))"
proof -
  have r: "dev_chain S (device_list S) devs" "drv_chain S (driver_list S) drvs"
    using assms(1) by (simp_all add: registry_def)
  have p: "\<forall>drv\<in>set drvs. set_option (probe_fn (drivers S drv)) \<subseteq> {serial_probe_fn, ipi_probe_fn}"
    using assms(2) by fastforce
  obtain S' where S': "device_probe_all call_dev_fn S = Some (int (length (filter (\<lambda>d. find (id_match S d) drvs \<noteq> None) devs)), S')"
      "same_registry S S'"
      "\<And>x. core (devices S' x) = core (if x \<in> set devs then bind_to (find (id_match S x) drvs) (devices S x) else devices S x)"
    using kdev.probe_devices_spec [OF r p, of 0] unfolding takes_kdev device_probe_all_def by auto
  have "dev_next (devices S' x) = dev_next (devices S x)" for x
    using coreD(1) [OF S'(3) [of x]] by (simp add: bind_to_def split: if_splits option.splits)
  then have "registry S' devs drvs"
    using assms(1) S'(2) by (simp add: registry_def same_registry_def)
  moreover have "case if d \<in> set devs then find (id_match S d) drvs else None of
       Some drv \<Rightarrow> bound_driver (devices S' d) = drv \<and> dev_state (devices S' d) = DEVICE_STATE_PROBED
     | None \<Rightarrow> bound_driver (devices S' d) = bound_driver (devices S d) \<and> dev_state (devices S' d) = dev_state (devices S d)" for d
    using coreD(2,3) [OF S'(3) [of d]] by (simp add: bind_to_def split: option.split)
  ultimately show ?thesis
    using S'(1) by blast
qed

definition ready :: "dev_sys \<Rightarrow> u64 \<Rightarrow> bool" where
  "ready S d \<longleftrightarrow> dev_state (devices S d) = DEVICE_STATE_PROBED \<and> bound_driver (devices S d) \<noteq> 0"

lemma collect_probed_chain: "dev_chain S p ds \<Longrightarrow> collect_probed S p acc = Some (acc @ filter (ready S) ds)"
  by (induction ds arbitrary: p acc) (simp_all add: collect_probed.simps ready_def)

text \<open>C28: initialisation. \<open>device_init_all\<close> returns. The devices it puts into its array of 32 are the
  probed ones with a driver, at most 32, and it initialises them in the order of the stable sort
  by priority. Afterwards each of them is initialised or failed, the result is the number of the
  initialised ones, and all other devices keep their state.\<close>

theorem device_init_all_order:
  assumes "registry S devs drvs"
  shows "length (filter (ready S) devs) \<le> 32 \<and>
    (\<exists>n S'. device_init_all call_dev_fn S = Some (n, S') \<and>
       fold (init_device call_dev_fn) (sort_key (\<lambda>d. init_priority (devices S d)) (filter (ready S) devs)) (0, S) = (n, S') \<and>
       n = int (card {d \<in> set devs. ready S d \<and> dev_state (devices S' d) = DEVICE_STATE_INITIALIZED}) \<and>
       (\<forall>d. if d \<in> set devs \<and> ready S d
            then dev_state (devices S' d) = DEVICE_STATE_INITIALIZED \<or> dev_state (devices S' d) = DEVICE_STATE_FAILED
            else dev_state (devices S' d) = dev_state (devices S d)))"
proof -
  let ?ds = "sort_key (\<lambda>d. init_priority (devices S d)) (filter (ready S) devs)"
  have ch: "dev_chain S (device_list S) devs"
    using assms by (simp add: registry_def)
  note dd = chain_distinct [OF ch]
  then have "distinct ?ds"
    by simp
  from kdev.init_fold_spec [OF this, of 0 S] obtain n S' where S': "fold (init_device call_dev_fn) ?ds (0, S) = (n, S')"
      "n = int (length (filter (\<lambda>d. dev_state (devices S' d) = DEVICE_STATE_INITIALIZED) ?ds))"
      "\<forall>x. x \<notin> set ?ds \<longrightarrow> core (devices S' x) = core (devices S x)"
      "\<forall>d\<in>set ?ds. dev_state (devices S' d) = DEVICE_STATE_INITIALIZED \<or> dev_state (devices S' d) = DEVICE_STATE_FAILED"
    by auto
  have ret: "device_init_all call_dev_fn S = Some (n, S')"
    using S'(1) by (simp add: device_init_all_def collect_probed_chain [OF ch] bubble_sort_sort_key)
  have "distinct (filter (\<lambda>d. dev_state (devices S' d) = DEVICE_STATE_INITIALIZED) ?ds)"
    using dd by simp
  from distinct_card [OF this]
  have "n = int (card {d \<in> set devs. ready S d \<and> dev_state (devices S' d) = DEVICE_STATE_INITIALIZED})"
    by (simp add: S'(2) conj_assoc)
  moreover have "length (filter (ready S) devs) \<le> 32"
    using assms by (intro le_trans [OF length_filter_le]) (simp add: registry_def)
  moreover have "if d \<in> set devs \<and> ready S d
      then dev_state (devices S' d) = DEVICE_STATE_INITIALIZED \<or> dev_state (devices S' d) = DEVICE_STATE_FAILED
      else dev_state (devices S' d) = dev_state (devices S d)" for d
    using S'(3,4) coreD(2) [of "devices S' d" "devices S d"] by auto
  ultimately show ?thesis
    using ret S'(1) by simp
qed

section \<open>The devices of the kernel\<close>

text \<open>The serial port at boot. \<open>kernel_main\<close> registers it and calls \<open>device_init_all\<close> without
  \<open>device_probe_all\<close>, so that nothing is initialised. With the probing the port would fail:
  \<open>device_register\<close> has cleared \<open>driver_data\<close>, and \<open>serial_init_device\<close> refuses a device without it before
  it has written to any port.\<close>

lemma com1_not_initialized:
  assumes "com1_device sy \<noteq> 0" "serial_driver sy \<noteq> 0" "com1_name sy \<noteq> 0" "serial_name sy \<noteq> 0"
    and "serial_driver_init sy (dev_boot sy) = (r, S)"
  shows "r = 0 \<and> device_init_all call_dev_fn S = Some (0, S) \<and>
    (\<exists>S1 S2. device_probe_all call_dev_fn S = Some (1, S1) \<and> bound_driver (devices S1 (com1_device sy)) = serial_driver sy \<and>
       device_init_all call_dev_fn S1 = Some (0, S2) \<and> dev_state (devices S2 (com1_device sy)) = DEVICE_STATE_FAILED \<and>
       port_writes S2 = [])"
proof -
  let ?S = "snd (serial_driver_init sy (dev_boot sy))"
  have r: "r = 0" "S = ?S"
    using assms by (auto simp: serial_driver_init_def driver_register_def device_register_def com1_data_init_def dev_boot_def
        serial_driver_struct_def com1_device_struct_def upd_device_def Let_def)
  have d: "devices ?S (com1_device sy) = (com1_device_struct sy)\<lparr>driver_data := 0\<rparr>"
    "drivers ?S (serial_driver sy) = serial_driver_struct sy" "device_list ?S = com1_device sy" "driver_list ?S = serial_driver sy"
    "port_writes ?S = []"
    using assms(1-4) by (simp_all add: serial_driver_init_def driver_register_def device_register_def com1_data_init_def dev_boot_def
        serial_driver_struct_def com1_device_struct_def upd_device_def Let_def)
  have i: "device_init_all call_dev_fn ?S = Some (0, ?S)"
    using assms(1) by (simp add: device_init_all_def d com1_device_struct_def collect_probed.simps bubble_sort_def)
  let ?S1 = "upd_device (com1_device sy) (\<lambda>d. d\<lparr>bound_driver := serial_driver sy, dev_state := DEVICE_STATE_PROBED\<rparr>) ?S"
  have p: "device_probe_all call_dev_fn ?S = Some (1, ?S1)"
    using assms(1,2) by (simp add: device_probe_all_def d com1_device_struct_def serial_driver_struct_def probe_devices.simps
        probe_drivers.simps match_device_driver_def serial_probe_def upd_device_def)
  let ?S2 = "upd_device (com1_device sy) (\<lambda>d. d\<lparr>dev_state := DEVICE_STATE_FAILED\<rparr>) ?S1"
  have "device_init_all call_dev_fn ?S1 = Some (0, ?S2)"
    using assms(1,2) by (simp add: device_init_all_def d com1_device_struct_def serial_driver_struct_def collect_probed.simps
        bubble_sort_def init_device_def serial_init_device_def upd_device_def)
  then show ?thesis
    using r i p d(5) by (intro conjI exI [of _ ?S1] exI [of _ ?S2]) (simp_all add: upd_device_def)
qed

definition syms_example :: driver_syms where
  "syms_example = \<lparr>serial_driver = 0x100, com1_device = 0x200, com1_data = 0x300, ipi_driver = 0x400, ipi_device = 0x500,
     serial_name = 0x600, com1_name = 0x700, ipi_name = 0x800\<rparr>"

lemma com1_not_initialized_witness:
  "device_init_all call_dev_fn (snd (serial_driver_init syms_example (dev_boot syms_example))) =
     Some (0, snd (serial_driver_init syms_example (dev_boot syms_example)))"
  using com1_not_initialized [of syms_example] by (simp add: syms_example_def prod_eq_iff)

text \<open>Both devices registered.\<close>

definition dev_example :: dev_sys where
  "dev_example = snd (ipi_driver_init syms_example (snd (serial_driver_init syms_example (dev_boot syms_example))))"

lemmas dev_example_defs = dev_example_def ipi_driver_init_def serial_driver_init_def driver_register_def device_register_def
  com1_data_init_def dev_boot_def syms_example_def serial_driver_struct_def com1_device_struct_def ipi_driver_struct_def
  ipi_device_struct_def upd_device_def Let_def

lemma dev_example_registry: "registry dev_example [0x500, 0x200] [0x400, 0x100]"
  by (simp add: registry_def dev_example_defs)

theorem device_probe_all_binds_witness:
  "registry dev_example [0x500, 0x200] [0x400, 0x100] \<and>
   (\<exists>S. device_probe_all call_dev_fn dev_example = Some (2, S) \<and> bound_driver (devices S 0x200) = 0x100)"
proof -
  have m: "id_match dev_example 0x200 0x400 = False" "id_match dev_example 0x200 0x100" "id_match dev_example 0x500 0x400"
    by (simp_all add: id_match_def dev_example_defs)
  have "\<forall>drv\<in>set [0x400, 0x100]. probe_fn (drivers dev_example drv) \<in> {None, Some serial_probe_fn, Some ipi_probe_fn}"
    by (simp add: dev_example_defs)
  from device_probe_all_binds [OF dev_example_registry this] obtain S where S: "device_probe_all call_dev_fn dev_example = Some (2, S)"
      "\<forall>d. case if d \<in> set [0x500, 0x200] then find (id_match dev_example d) [0x400, 0x100] else None of
       Some drv \<Rightarrow> bound_driver (devices S d) = drv \<and> dev_state (devices S d) = DEVICE_STATE_PROBED
     | None \<Rightarrow> bound_driver (devices S d) = bound_driver (devices dev_example d) \<and> dev_state (devices S d) = dev_state (devices dev_example d)"
    using m by auto
  show ?thesis
    using S(1) spec [OF S(2), of "0x200"] dev_example_registry m by simp
qed

definition dev_probed :: dev_sys where
  "dev_probed = upd_device 0x500 (\<lambda>d. d\<lparr>bound_driver := 0x400, dev_state := DEVICE_STATE_PROBED\<rparr>) dev_example"

theorem device_init_all_order_witness:
  "registry dev_probed [0x500, 0x200] [0x400, 0x100] \<and> (\<exists>n S. device_init_all call_dev_fn dev_probed = Some (n, S) \<and>
     init_device call_dev_fn 0x500 (0, dev_probed) = (n, S))"
proof -
  have r: "registry dev_probed [0x500, 0x200] [0x400, 0x100]"
    by (simp add: registry_def dev_probed_def dev_example_defs)
  have "filter (ready dev_probed) [0x500, 0x200] = [0x500]"
    by (simp add: ready_def dev_probed_def dev_example_defs)
  then show ?thesis
    using device_init_all_order [OF r] r by auto
qed

end
