(* ===== verification/Multiboot.thy ===== *)
theory Multiboot
  imports Pmm_Props Minilibc
begin

text \<open>
  The boot information, \<^verbatim>\<open>src/arch/x86_64/multiboot2.c\<close>: the walk along the tags the boot loader left in
  memory, the memory map that feeds the page allocator, and the kernel command line with its
  lookup of options; and the initialisation of the page allocator, \<open>pmm_init\<close>, and of the page
  type table, \<open>pcd_init\<close>, which build on it. The structures are read from a byte memory. The
  contents of the static buffer \<open>kernel_cmdline\<close> are a string, without its terminator. \<open>None\<close> as a
  result is a loop that does not end; log output and the dump of the first bytes are not
  modelled.
\<close>

section \<open>State\<close>

text \<open>Little-endian words in memory.\<close>

definition read32 :: "mem \<Rightarrow> u64 \<Rightarrow> u32" where
  "read32 m a = ucast (m a) OR push_bit 8 (ucast (m (a + 1))) OR push_bit 16 (ucast (m (a + 2))) OR push_bit 24 (ucast (m (a + 3)))"

definition read64 :: "mem \<Rightarrow> u64 \<Rightarrow> u64" where
  "read64 m a = ucast (read32 m a) OR push_bit 32 (ucast (read32 m (a + 4)))"

text \<open>The variables of the parser, with the page allocator it feeds, and what the linker and the
  build give: the kernel's extent, its stacks, and the embedded command line.\<close>

record boot_state =
  kernel_cmdline :: string
  stored_mbi_addr :: u32
  stored_mbi_size :: u32
  boot_pmm :: pmm_state

record boot_layout =
  kernel_start :: u64
  kernel_end :: u64
  nk_boot_stack_bottom :: u64
  nk_boot_stack_top :: u64
  nk_trampoline_stack_bottom :: u64
  nk_trampoline_stack_end :: u64
  ok_cpu_stacks :: u64
  embedded_cmdline :: string

abbreviation CMDLINE_MAX :: nat where "CMDLINE_MAX \<equiv> 1023"
abbreviation MULTIBOOT_TAG_END :: u32 where "MULTIBOOT_TAG_END \<equiv> 0"
abbreviation MULTIBOOT_TAG_CMDLINE :: u32 where "MULTIBOOT_TAG_CMDLINE \<equiv> 1"
abbreviation MULTIBOOT_TAG_MMAP :: u32 where "MULTIBOOT_TAG_MMAP \<equiv> 6"
abbreviation MULTIBOOT_MEMORY_AVAILABLE :: u32 where "MULTIBOOT_MEMORY_AVAILABLE \<equiv> 1"

section \<open>The command line\<close>

text \<open>The loop that copies at most \<open>n\<close> characters of a string in memory.\<close>

primrec copy_cstr :: "mem \<Rightarrow> nat \<Rightarrow> u64 \<Rightarrow> string" where
  "copy_cstr m 0 src = []"
| "copy_cstr m (Suc n) src = (if m src \<noteq> 0 then char_of (unat (m src)) # copy_cstr m n (src + 1) else [])"

definition parse_cmdline :: "mem \<Rightarrow> u64 \<Rightarrow> boot_state \<Rightarrow> boot_state" where
  "parse_cmdline m tag st = st\<lparr>kernel_cmdline := copy_cstr m CMDLINE_MAX (tag + 8)\<rparr>"

text \<open>The lookup of an option. A pointer into the command line is the rest of the string from there;
  the empty rest is the terminator. \<open>match_key\<close> is the comparison loop with its \<open>match\<close> and \<open>i\<close>.\<close>

fun match_key :: "string \<Rightarrow> string \<Rightarrow> nat \<Rightarrow> bool \<times> nat" where
  "match_key (k # ks) (c # cs) i =
     (if c = CHR ''='' \<or> c = CHR '' '' then (True, i)
      else if c \<noteq> k then (False, i)
      else match_key ks cs (i + 1))"
| "match_key _ _ i = (True, i)"

text \<open>The copying of a value into \<open>value_buf\<close>, of at most \<open>n\<close> characters.\<close>

fun copy_value :: "bool \<Rightarrow> nat \<Rightarrow> string \<Rightarrow> string" where
  "copy_value in_quotes (Suc n) (c # cs) =
     (if in_quotes then
        if c = CHR 0x22 then [] else c # copy_value in_quotes n cs
      else if c = CHR '' '' then [] else c # copy_value in_quotes n cs)"
| "copy_value in_quotes _ _ = []"

definition option_value :: "string \<Rightarrow> string" where
  "option_value p =
     (case p of
        c # cs \<Rightarrow> if c = CHR 0x22 then copy_value True 255 cs else copy_value False 255 p
      | [] \<Rightarrow> [])"

definition skip_dashes :: "string \<Rightarrow> string" where
  "skip_dashes p = (if take 2 p = ''--'' then drop 2 p else p)"

text \<open>A round of the lookup consumes something.\<close>

lemma token_shorter:
  assumes "p \<noteq> []"
  shows "length (dropWhile (\<lambda>c. c \<noteq> CHR '' '') (skip_dashes (dropWhile (\<lambda>c. c = CHR '' '') p))) < length p"
proof -
  let ?s = "\<lambda>c. c = CHR '' ''" and ?w = "\<lambda>c. c \<noteq> CHR '' ''"
  have le: "length (dropWhile ?w (skip_dashes q)) \<le> length q" for q
    by (rule le_trans [OF length_dropWhile_le]) (simp add: skip_dashes_def)
  show ?thesis
  proof (cases "?s (hd p)")
    case True
    then have "length (dropWhile ?s p) < length p"
      using assms by (cases p) (simp_all add: le_imp_less_Suc length_dropWhile_le)
    then show ?thesis
      using le [of "dropWhile ?s p"] by linarith
  next
    case False
    then obtain c cs where p: "p = c # cs" "c \<noteq> CHR '' ''"
      using assms by (cases p) auto
    have "length (dropWhile ?w cs) \<le> length cs" "length (dropWhile ?w (drop 1 cs)) \<le> length cs"
      by (rule length_dropWhile_le, rule le_trans [OF length_dropWhile_le]) simp
    then show ?thesis
      using p by (auto simp: skip_dashes_def)
  qed
qed

function get_value :: "string \<Rightarrow> string \<Rightarrow> string option" where
  "get_value key p =
     (if p = [] then None
      else let p = dropWhile (\<lambda>c. c = CHR '' '') p;
               p = skip_dashes p;
               (m, i) = match_key key p 0
           in if m \<and> i < length p \<and> p ! i = CHR ''='' then Some (option_value (drop (i + 1) p))
              else get_value key (dropWhile (\<lambda>c. c \<noteq> CHR '' '') p))"
  by auto
termination
  by (relation "measure (\<lambda>(key, p). length p)") (use token_shorter in auto)

declare get_value.simps [simp del]

definition cmdline_get_value :: "boot_state \<Rightarrow> string \<Rightarrow> string option" where
  "cmdline_get_value st key = get_value key (kernel_cmdline st)"

text \<open>\<open>multiboot_get_cmdline\<close> only logs what it finds.\<close>

definition multiboot_get_cmdline :: "boot_state \<Rightarrow> string" where
  "multiboot_get_cmdline st = kernel_cmdline st"

section \<open>The memory map\<close>

definition add_mmap_entry :: "u64 \<Rightarrow> u64 \<Rightarrow> pmm_state \<Rightarrow> pmm_state" where
  "add_mmap_entry base len s =
     (let aligned_base = page_up base;
          aligned_length = len - (aligned_base - base);
          aligned_length = page_down aligned_length
      in if PAGE_SIZE \<le> aligned_length then pmm_add_region s aligned_base aligned_length else s)"

definition parse_mmap_entry :: "mem \<Rightarrow> u64 \<Rightarrow> pmm_state \<Rightarrow> pmm_state" where
  "parse_mmap_entry m entry s =
     (if read32 m (entry + 16) = MULTIBOOT_MEMORY_AVAILABLE
      then add_mmap_entry (read64 m entry) (read64 m (entry + 8)) s else s)"

partial_function (option) mmap_loop :: "mem \<Rightarrow> u64 \<Rightarrow> u64 \<Rightarrow> pmm_state \<Rightarrow> pmm_state option" where
  "mmap_loop m tag entry s =
     (if entry < tag + ucast (read32 m (tag + 4))
      then mmap_loop m tag (entry + ucast (read32 m (tag + 8))) (parse_mmap_entry m entry s)
      else Some s)"

definition parse_memory_map :: "mem \<Rightarrow> u64 \<Rightarrow> pmm_state \<Rightarrow> pmm_state option" where
  "parse_memory_map m tag s = mmap_loop m tag (tag + 16) s"

section \<open>The boot information\<close>

text \<open>What the switch does with one tag, with \<open>found_memory\<close>, and the loop over the tags.\<close>

definition parse_tag :: "mem \<Rightarrow> u64 \<Rightarrow> boot_state \<times> bool \<Rightarrow> (boot_state \<times> bool) option" where
  "parse_tag m tag = (\<lambda>(st, found_memory).
     if read32 m tag = MULTIBOOT_TAG_CMDLINE then Some (parse_cmdline m tag st, found_memory)
     else if read32 m tag = MULTIBOOT_TAG_MMAP then
       map_option (\<lambda>s. (st\<lparr>boot_pmm := s\<rparr>, True)) (parse_memory_map m tag (boot_pmm st))
     else Some (st, found_memory))"

partial_function (option) parse_tags :: "mem \<Rightarrow> u64 \<Rightarrow> u64 \<Rightarrow> u64 \<Rightarrow> boot_state \<times> bool \<Rightarrow> (boot_state \<times> bool) option" where
  "parse_tags m mbi total_size tag r =
     (if read32 m tag = MULTIBOOT_TAG_END then Some r
      else if read32 m (tag + 4) < 8 \<or> read32 m (tag + 4) > 4096 then Some r
      else Option.bind (parse_tag m tag r) (\<lambda>r.
        let tag = tag + ucast ((read32 m (tag + 4) + 7) AND NOT 7)
        in if tag - mbi \<ge> total_size then Some r else parse_tags m mbi total_size tag r))"

definition boot_defaults :: "boot_layout \<Rightarrow> boot_state \<times> bool \<Rightarrow> boot_state" where
  "boot_defaults sy = (\<lambda>(st, found_memory).
     let st = (if kernel_cmdline st = [] then st\<lparr>kernel_cmdline := take CMDLINE_MAX (embedded_cmdline sy)\<rparr> else st)
     in if found_memory then st
        else st\<lparr>boot_pmm := pmm_add_region (boot_pmm st) 0x400000 (128 * 1024 * 1024 - 0x400000)\<rparr>)"

definition multiboot2_parse :: "boot_layout \<Rightarrow> mem \<Rightarrow> u32 \<Rightarrow> boot_state \<Rightarrow> boot_state option" where
  "multiboot2_parse sy m mbi_addr st =
     (let mbi = ucast mbi_addr;
          st = st\<lparr>stored_mbi_addr := mbi_addr\<rparr>
      in if mbi_addr = 0 then Some (boot_defaults sy (st, False))
         else let total_size = ucast (read32 m mbi) :: u64;
                  st = st\<lparr>stored_mbi_size := ucast total_size\<rparr>
              in if total_size < 8 then Some (boot_defaults sy (st, False))
                 else map_option (boot_defaults sy) (parse_tags m mbi total_size (mbi + 8) (st, False)))"

definition multiboot_get_info :: "boot_state \<Rightarrow> u32 \<times> u32" where
  "multiboot_get_info st = (stored_mbi_addr st, stored_mbi_size st)"

section \<open>Initialisation of the allocator and of the page types\<close>

definition reserve :: "u64 \<Rightarrow> u64 \<Rightarrow> boot_state \<Rightarrow> boot_state option" where
  "reserve base sz st = map_option (\<lambda>s. st\<lparr>boot_pmm := s\<rparr>) (pmm_reserve_region (boot_pmm st) base sz)"

definition reserve_mbi :: "boot_state \<Rightarrow> boot_state option" where
  "reserve_mbi st =
     (case multiboot_get_info st of
        (mbi_info_addr, mbi_info_size) \<Rightarrow>
          if mbi_info_addr \<noteq> 0 \<and> mbi_info_size \<noteq> 0 then
            let mbi_pages = (mbi_info_size + 4096 - 1) div 4096;
                mbi_size_aligned = ucast (mbi_pages * 4096)
            in reserve (ucast mbi_info_addr) mbi_size_aligned st
          else Some st)"

definition pmm_init :: "boot_layout \<Rightarrow> mem \<Rightarrow> u32 \<Rightarrow> boot_state \<Rightarrow> boot_state option" where
  "pmm_init sy m mbi_addr st =
     (let st = st\<lparr>boot_pmm := pmm_reset (boot_pmm st)\<rparr>
      in Option.bind (multiboot2_parse sy m mbi_addr st) (\<lambda>st.
         Option.bind (reserve_mbi st) (\<lambda>st.
         Option.bind (reserve (kernel_start sy) (kernel_end sy - kernel_start sy) st) (\<lambda>st.
         Option.bind (reserve 0x7000 12288 st) (\<lambda>st.
         Option.bind (reserve (nk_boot_stack_bottom sy) 16384 st) (\<lambda>st.
         reserve 0x100000 0x300000 st))))))"

text \<open>The loop of \<open>pcd_init\<close> that finds the order of the table.\<close>

function pcd_order_loop :: "u64 \<Rightarrow> nat \<Rightarrow> u64 \<Rightarrow> nat" where
  "pcd_order_loop pcd_array_size pcd_order order_size =
     (if order_size < pcd_array_size \<and> pcd_order < MAX_ORDER
      then pcd_order_loop pcd_array_size (pcd_order + 1) (push_bit 1 order_size) else pcd_order)"
  by auto
termination
  by (relation "measure (\<lambda>(_, pcd_order, _). MAX_ORDER - pcd_order)") auto

declare pcd_order_loop.simps [simp del]

definition set_all_normal :: "u64 \<Rightarrow> (nat \<Rightarrow> pcd_t) \<Rightarrow> nat \<Rightarrow> pcd_t" where
  "set_all_normal tot_pages pages =
     (\<lambda>i. if i < unat tot_pages then \<lparr>pcd_type = PCD_TYPE_NK_NORMAL, pcd_flags = 0, pcd_reserved = 0\<rparr> else pages i)"

definition mark_region :: "u64 \<Rightarrow> u64 \<Rightarrow> u8 \<Rightarrow> phys_state \<Rightarrow> phys_state option" where
  "mark_region base sz t p = map_option (\<lambda>(_, s). p\<lparr>pcd := s\<rparr>) (pcd_mark_region (pcd p) base sz t)"

definition pcd_init :: "boot_layout \<Rightarrow> phys_state \<Rightarrow> phys_state option" where
  "pcd_init sy p =
     (let p = p\<lparr>pcd := (pcd p)\<lparr>pcd_initialized := False\<rparr>\<rparr>;
          tot_pages = pmm_get_total_pages (pmm p)
      in if tot_pages = 0 then Some p
         else let pcd_array_size = tot_pages * 4;
                  pcd_order = pcd_order_loop pcd_array_size 0 PAGE_SIZE
              in if pcd_order > MAX_ORDER then Some p
                 else case pmm_alloc p pcd_order of
                   (pages, p) \<Rightarrow>
                     let p = p\<lparr>pcd := (pcd p)\<lparr>pcd_array := pages\<rparr>\<rparr>
                     in if pages = 0 then Some p
                        else let p = p\<lparr>pcd := (pcd p)\<lparr>pcd_max_pages := tot_pages, pcd_base_page := 0,
                                   pcd_pages := set_all_normal tot_pages (pcd_pages (pcd p)), pcd_initialized := True\<rparr>\<rparr>
                             in Option.bind (mark_region (kernel_start sy) (kernel_end sy - kernel_start sy) PCD_TYPE_NK_NORMAL p) (\<lambda>p.
                                Option.bind (mark_region (nk_boot_stack_bottom sy)
                                  (nk_boot_stack_top sy - nk_boot_stack_bottom sy) PCD_TYPE_NK_NORMAL p) (\<lambda>p.
                                Option.bind (mark_region (nk_trampoline_stack_bottom sy)
                                  (nk_trampoline_stack_end sy - nk_trampoline_stack_bottom sy) PCD_TYPE_NK_NORMAL p) (\<lambda>p.
                                mark_region (ok_cpu_stacks sy) (4 * 16384) PCD_TYPE_OK_NORMAL p))))"

end
