(* ===== verification/Multiboot_Props.thy ===== *)
theory Multiboot_Props
  imports Multiboot
begin

text \<open>
  Properties of the boot information: the lookup of options in the command line, the memory map
  as a list of entries, the end of the tag loop, and what the initialised page allocator and page
  type table cover.
\<close>

section \<open>Options of the command line\<close>

text \<open>A command line of options \<open>name=value\<close> separated by blanks.\<close>

primrec render :: "(string \<times> string) list \<Rightarrow> string" where
  "render [] = []"
| "render (x # xs) = fst x @ CHR ''='' # snd x @ (if xs = [] then [] else CHR '' '' # render xs)"

definition good_option :: "string \<times> string \<Rightarrow> bool" where
  "good_option x \<longleftrightarrow> fst x \<noteq> [] \<and> CHR ''='' \<notin> set (fst x) \<and> CHR '' '' \<notin> set (fst x @ snd x) \<and> take 2 (fst x) \<noteq> ''--'' \<and>
     take 1 (snd x) \<noteq> [CHR 0x22] \<and> length (snd x) \<le> 255"

lemma match_key_full:
  assumes "CHR ''='' \<notin> set n" "CHR '' '' \<notin> set n" "take (length n) key = n"
  shows "match_key key (n @ CHR ''='' # r) i = (True, i + length n)"
  using assms
proof (induction n arbitrary: key i)
  case Nil
  then show ?case
    by (cases key) simp_all
next
  case (Cons c n)
  then obtain ks where "key = c # ks" "take (length n) ks = n"
    by (cases key) auto
  then show ?case
    using Cons.IH [of ks "i + 1"] Cons.prems by auto
qed

lemma match_key_part:
  assumes "CHR ''='' \<notin> set n" "CHR '' '' \<notin> set n" "take (length n) key \<noteq> n"
  shows "\<exists>m k. k < length n \<and> match_key key (n @ CHR ''='' # r) i = (m, i + k)"
  using assms
proof (induction n arbitrary: key i)
  case (Cons c n)
  show ?case
  proof (cases "key \<noteq> [] \<and> hd key = c")
    case True
    then obtain ks where ks: "key = c # ks" "take (length n) ks \<noteq> n"
      using Cons.prems(3) by (cases key) auto
    then obtain m k where "k < length n" "match_key ks (n @ CHR ''='' # r) (i + 1) = (m, i + 1 + k)"
      using Cons.IH [of ks "i + 1"] Cons.prems by auto
    then show ?thesis
      using ks Cons.prems by (intro exI [of _ m] exI [of _ "Suc k"]) auto
  next
    case False
    then show ?thesis
      using Cons.prems by (cases key) (auto intro!: exI [of _ 0])
  qed
qed simp

lemma copy_value_word:
  assumes "CHR '' '' \<notin> set v" "length v \<le> n" "r = [] \<or> hd r = CHR '' ''"
  shows "copy_value False n (v @ r) = v"
  using assms
proof (induction v arbitrary: n)
  case Nil
  then show ?case
    by (cases n; cases r) auto
next
  case (Cons c v)
  then show ?case
    by (cases n) auto
qed

lemma option_value_word:
  assumes "good_option (n, v)" "r = [] \<or> hd r = CHR '' ''"
  shows "option_value (v @ r) = v"
proof -
  have "option_value (v @ r) = copy_value False 255 (v @ r)"
    using assms by (cases v; cases r) (auto simp: option_value_def good_option_def)
  then show ?thesis
    using copy_value_word [of v 255 r] assms by (simp add: good_option_def)
qed

text \<open>One option, then the rest.\<close>

lemma get_value_option:
  assumes "good_option (n, v)" "r = [] \<or> hd r = CHR '' ''"
  shows "get_value key (n @ CHR ''='' # v @ r) = (if take (length n) key = n then Some v else get_value key r)"
proof -
  let ?p = "n @ CHR ''='' # v @ r"
  obtain c cs where n: "n = c # cs" "c \<noteq> CHR '' ''"
    using assms(1) by (cases n) (auto simp: good_option_def)
  have p: "dropWhile (\<lambda>c. c = CHR '' '') ?p = ?p"
    using n by simp
  have d: "skip_dashes ?p = ?p"
    using assms(1) n by (cases cs) (auto simp: skip_dashes_def good_option_def)
  have w: "dropWhile (\<lambda>c. c \<noteq> CHR '' '') ?p = r"
  proof -
    have "dropWhile (\<lambda>c. c \<noteq> CHR '' '') ((n @ CHR ''='' # v) @ r) = dropWhile (\<lambda>c. c \<noteq> CHR '' '') r"
      by (rule dropWhile_append2) (use assms(1) in \<open>auto simp: good_option_def\<close>)
    then show ?thesis
      using assms(2) by (cases r) auto
  qed
  have cs: "CHR ''='' \<notin> set n" "CHR '' '' \<notin> set n"
    using assms(1) by (auto simp: good_option_def)
  have e: "get_value key ?p = (if m \<and> i < length ?p \<and> ?p ! i = CHR ''='' then Some (option_value (drop (i + 1) ?p)) else get_value key r)"
    if "match_key key ?p 0 = (m, i)" for m i
  proof -
    have "(?p = []) = False"
      by simp
    then show ?thesis
      by (subst get_value.simps) (simp only: Let_def p d that w prod.case if_False)
  qed
  show ?thesis
  proof (cases "take (length n) key = n")
    case True
    from e [OF match_key_full [OF cs True]] show ?thesis
      using True option_value_word [OF assms] by simp
  next
    case False
    obtain m k where k: "k < length n" "match_key key ?p 0 = (m, k)"
      using match_key_part [OF cs False, of "v @ r" 0] by auto
    have "?p ! k \<noteq> CHR ''=''"
      using k(1) cs(1) by (auto simp: nth_append in_set_conv_nth)
    then show ?thesis
      using e [OF k(2)] False by simp
  qed
qed

lemma get_value_blank: "q \<noteq> [] \<Longrightarrow> get_value key (CHR '' '' # q) = get_value key q"
  by (simp add: get_value.simps [of key "CHR '' '' # q"] get_value.simps [of key q])

text \<open>C34: lookup of an option. In a command line of options \<open>name=value\<close> separated by blanks,
  \<open>cmdline_get_value\<close> returns the value of the first option whose name is a prefix of the key asked for,
  not only of the option with that name, and null when there is none.\<close>

theorem cmdline_get_value_prefix:
  assumes "list_all good_option opts" and "kernel_cmdline st = render opts"
  shows "cmdline_get_value st key = map_option snd (find (\<lambda>x. take (length (fst x)) key = fst x) opts)"
proof -
  have "get_value key (render opts) = map_option snd (find (\<lambda>x. take (length (fst x)) key = fst x) opts)"
    using assms(1)
  proof (induction opts)
    case Nil
    then show ?case
      by (simp add: get_value.simps)
  next
    case (Cons x xs)
    obtain n v where x: "x = (n, v)"
      by (cases x)
    let ?r = "if xs = [] then [] else CHR '' '' # render xs"
    have r: "get_value key ?r = get_value key (render xs)"
      using get_value_blank [of "render xs" key] by (cases xs) auto
    have "get_value key (render (x # xs)) = (if take (length n) key = n then Some v else get_value key ?r)"
      using get_value_option [of n v ?r key] Cons.prems x by simp
    then show ?case
      using Cons x r by simp
  qed
  then show ?thesis
    by (simp add: cmdline_get_value_def assms(2))
qed

section \<open>The memory map\<close>

text \<open>The addresses of the entries of a memory map tag: as many as the loop visits.\<close>

definition mmap_count :: "mem \<Rightarrow> u64 \<Rightarrow> nat" where
  "mmap_count m tag = (unat (read32 m (tag + 4)) - 16 + unat (read32 m (tag + 8)) - 1) div unat (read32 m (tag + 8))"

definition mmap_entries :: "mem \<Rightarrow> u64 \<Rightarrow> u64 list" where
  "mmap_entries m tag = map (\<lambda>i. tag + 16 + of_nat i * ucast (read32 m (tag + 8))) [0..<mmap_count m tag]"

lemma less_ceil_div: "0 < (d::nat) \<Longrightarrow> k < (n + d - 1) div d \<longleftrightarrow> k * d < n"
proof -
  assume d: "0 < d"
  have "k < (n + d - 1) div d \<longleftrightarrow> (k + 1) * d \<le> n + d - 1"
    using d by (simp add: less_eq_div_iff_mult_less_eq Suc_le_eq [symmetric])
  also have "\<dots> \<longleftrightarrow> k * d < n"
    using d by auto
  finally show ?thesis .
qed

lemma unat_of_nat_small: "n < 2 ^ 64 \<Longrightarrow> unat (of_nat n :: u64) = n"
  by (simp add: unat_of_nat)

text \<open>The loop stops behind the last of these entries.\<close>

lemma mmap_entry_less:
  assumes es: "read32 m (tag + 8) \<noteq> 0" and nw: "unat tag + unat (read32 m (tag + 4)) + unat (read32 m (tag + 8)) + 16 < 2 ^ 64"
    and k: "k \<le> mmap_count m tag"
  shows "tag + 16 + of_nat k * ucast (read32 m (tag + 8)) < tag + ucast (read32 m (tag + 4)) \<longleftrightarrow> k < mmap_count m tag"
proof -
  let ?d = "unat (read32 m (tag + 8))" and ?z = "unat (read32 m (tag + 4))"
  have d: "0 < ?d"
    using es by (simp add: unat_gt_0)
  have c: "j < mmap_count m tag \<longleftrightarrow> j * ?d < ?z - 16" for j
    using less_ceil_div [OF d] by (simp add: mmap_count_def)
  have "k * ?d < ?z - 16 + ?d"
    using k c [of "k - 1"] d by (cases k) auto
  then have b: "unat tag + 16 + k * ?d < 2 ^ 64"
    using nw by linarith
  have "tag + 16 + of_nat k * ucast (read32 m (tag + 8)) = of_nat (unat tag + 16 + k * ?d)"
    by simp
  moreover have "tag + ucast (read32 m (tag + 4)) = of_nat (unat tag + ?z)"
    by simp
  ultimately have "tag + 16 + of_nat k * ucast (read32 m (tag + 8)) < tag + ucast (read32 m (tag + 4)) \<longleftrightarrow>
      unat tag + 16 + k * ?d < unat tag + ?z"
    using b nw by (simp only: word_less_nat_alt unat_of_nat_small)
  then show ?thesis
    using c [of k] by auto
qed

lemma mmap_loop_fold:
  assumes es: "read32 m (tag + 8) \<noteq> 0" and nw: "unat tag + unat (read32 m (tag + 4)) + unat (read32 m (tag + 8)) + 16 < 2 ^ 64"
    and k: "k \<le> mmap_count m tag"
  shows "mmap_loop m tag (tag + 16 + of_nat k * ucast (read32 m (tag + 8))) s =
    Some (fold (parse_mmap_entry m) (map (\<lambda>i. tag + 16 + of_nat i * ucast (read32 m (tag + 8))) [k..<mmap_count m tag]) s)"
  using k
proof (induction "mmap_count m tag - k" arbitrary: k s)
  case (0 k)
  then show ?case
    using mmap_entry_less [OF es nw, of k] by (subst mmap_loop.simps) simp
next
  case (Suc n k)
  let ?e = "\<lambda>i. tag + 16 + of_nat i * ucast (read32 m (tag + 8))"
  have k: "k < mmap_count m tag"
    using Suc by simp
  have "mmap_loop m tag (?e k) s = mmap_loop m tag (?e (Suc k)) (parse_mmap_entry m (?e k) s)"
    using mmap_entry_less [OF es nw, of k] k by (subst mmap_loop.simps) (simp add: algebra_simps)
  also have "\<dots> = Some (fold (parse_mmap_entry m) (map ?e [Suc k..<mmap_count m tag]) (parse_mmap_entry m (?e k) s))"
    using Suc k by (intro Suc.hyps(1)) auto
  finally show ?case
    using k by (simp add: upt_conv_Cons)
qed

lemma parse_memory_map_fold:
  assumes "read32 m (tag + 8) \<noteq> 0" "unat tag + unat (read32 m (tag + 4)) + unat (read32 m (tag + 8)) + 16 < 2 ^ 64"
  shows "parse_memory_map m tag s = Some (fold (parse_mmap_entry m) (mmap_entries m tag) s)"
  using mmap_loop_fold [OF assms, of 0] by (simp add: parse_memory_map_def mmap_entries_def)

text \<open>Entries of size 0 make the loop run forever.\<close>

lemma mmap_loop_stuck:
  assumes "mmap_loop m tag entry s = Some s'"
  shows "\<not> (read32 m (tag + 8) = 0 \<and> entry < tag + ucast (read32 m (tag + 4)))"
  by (rule mmap_loop.raw_induct [OF _ assms]) (auto split: if_splits)

section \<open>One entry\<close>

text \<open>An available entry that reaches beyond its first page boundary.\<close>

definition good_entry :: "u64 \<Rightarrow> u64 \<Rightarrow> bool" where
  "good_entry base len \<longleftrightarrow> unat base + unat len + 4095 < 2 ^ 64 \<and> unat (page_up base) \<le> unat base + unat len"

lemma add_mmap_entry_region:
  assumes "good_entry base len"
  shows "add_mmap_entry base len s = (if whole_pages base len = {} then s
      else pmm_add_region s (page_up base) (page_down (len - (page_up base - base))))"
    "region_frames (page_up base) (page_down (len - (page_up base - base))) = whole_pages base len"
    "unat (page_up base) + unat (page_down (len - (page_up base - base))) \<le> unat base + unat len"
proof -
  let ?a = "page_up base" and ?x = "len - (page_up base - base)"
  have nw: "unat base + unat len + 4095 < 2 ^ 64" and a: "unat ?a \<le> unat base + unat len"
    using assms by (auto simp: good_entry_def)
  have up: "unat ?a = (unat base + 4095) div 4096 * 4096"
    using nw by (simp add: unat_page_up)
  have ba: "unat base \<le> unat ?a"
    unfolding up using div_mult_mod_eq [of "unat base + 4095" 4096] mod_less_divisor [of 4096 "unat base + 4095"] by linarith
  have "unat (?a - base) = unat ?a - unat base"
    using ba by (simp add: unat_sub word_le_nat_alt)
  then have x: "unat ?x = unat base + unat len - unat ?a"
    using a ba by (simp add: unat_sub word_le_nat_alt)
  have ux: "unat (page_down ?x) = unat ?x div 4096 * 4096"
    by (simp add: unat_page_down minus_mod_eq_div_mult)
  then show "unat ?a + unat (page_down ?x) \<le> unat base + unat len"
    using x a div_times_less_eq_dividend [of "unat ?x" 4096] by linarith
  have "page_no (page_down (base + len)) = (unat base + unat len) div 4096"
    using nw unfolding page_no_page_down by (simp add: page_no_def unat_plus_no_wrap)
  also have "\<dots> = (unat ?a + unat ?x) div 4096"
    using x a by simp
  also have "\<dots> = (unat base + 4095) div 4096 + unat ?x div 4096"
    by (simp add: up)
  finally have w: "whole_pages base len = {(unat base + 4095) div 4096..<(unat base + 4095) div 4096 + unat ?x div 4096}"
    using up by (simp add: whole_pages_range [OF nw] page_no_def)
  show "region_frames ?a (page_down ?x) = whole_pages base len"
    unfolding w region_frames_def ux up by simp
  have "PAGE_SIZE \<le> page_down ?x \<longleftrightarrow> whole_pages base len \<noteq> {}"
    unfolding w word_le_nat_alt ux by (auto simp: Suc_le_eq)
  then show "add_mmap_entry base len s = (if whole_pages base len = {} then s else pmm_add_region s ?a (page_down ?x))"
    by (simp add: add_mmap_entry_def Let_def)
qed

lemma add_mmap_entry_spec:
  assumes inv: "pmm_inv s" and g: "good_entry base len" and dis: "whole_pages base len \<inter> (free_frames s \<union> used_frames s) = {}"
  shows "pmm_inv (add_mmap_entry base len s)" "allocs (add_mmap_entry base len s) = allocs s"
    "block_count s \<le> block_count (add_mmap_entry base len s)"
    "free_frames (add_mmap_entry base len s) \<subseteq> free_frames s \<union> whole_pages base len"
    "block_count (add_mmap_entry base len s) < MAX_BLOCK_DESC \<Longrightarrow>
      free_frames (add_mmap_entry base len s) = free_frames s \<union> whole_pages base len"
proof -
  note r = add_mmap_entry_region [OF g]
  have nw: "unat (page_up base) + unat (page_down (len - (page_up base - base))) + 4095 < 2 ^ 64"
    using r(3) g by (simp add: good_entry_def)
  have d: "region_frames (page_up base) (page_down (len - (page_up base - base))) \<inter> (free_frames s \<union> used_frames s) = {}"
    using dis by (simp add: r(2))
  note p = pmm_add_region_spec [OF inv nw d refl, unfolded r(2)] pmm_add_region_count [OF inv nw d]
  show "pmm_inv (add_mmap_entry base len s)" "allocs (add_mmap_entry base len s) = allocs s"
    "block_count s \<le> block_count (add_mmap_entry base len s)"
    "free_frames (add_mmap_entry base len s) \<subseteq> free_frames s \<union> whole_pages base len"
    "block_count (add_mmap_entry base len s) < MAX_BLOCK_DESC \<Longrightarrow>
      free_frames (add_mmap_entry base len s) = free_frames s \<union> whole_pages base len"
    using p inv by (cases "whole_pages base len = {}"; simp add: r(1))+
qed

text \<open>Entries whose pages are apart from each other and from the pages \<open>X\<close>.\<close>

primrec apart :: "nat set \<Rightarrow> (u64 \<times> u64) list \<Rightarrow> bool" where
  "apart X [] \<longleftrightarrow> True"
| "apart X (e # es) \<longleftrightarrow> good_entry (fst e) (snd e) \<and> whole_pages (fst e) (snd e) \<inter> X = {} \<and>
     apart (X \<union> whole_pages (fst e) (snd e)) es"

lemma apart_mono: "apart X es \<Longrightarrow> Y \<subseteq> X \<Longrightarrow> apart Y es"
proof (induction es arbitrary: X Y)
  case (Cons e es)
  show ?case
    using Cons.prems Cons.IH [of "X \<union> whole_pages (fst e) (snd e)" "Y \<union> whole_pages (fst e) (snd e)"] by auto
qed simp

abbreviation add_entries :: "(u64 \<times> u64) list \<Rightarrow> pmm_state \<Rightarrow> pmm_state" where
  "add_entries \<equiv> fold (\<lambda>e. add_mmap_entry (fst e) (snd e))"

lemma add_entries_spec:
  assumes "pmm_inv s" "apart (free_frames s \<union> used_frames s) es"
  shows "pmm_inv (add_entries es s) \<and> allocs (add_entries es s) = allocs s \<and> block_count s \<le> block_count (add_entries es s) \<and>
    free_frames (add_entries es s) \<subseteq> free_frames s \<union> (\<Union>e\<in>set es. whole_pages (fst e) (snd e)) \<and>
    (block_count (add_entries es s) < MAX_BLOCK_DESC \<longrightarrow>
      free_frames (add_entries es s) = free_frames s \<union> (\<Union>e\<in>set es. whole_pages (fst e) (snd e)))"
  using assms
proof (induction es arbitrary: s)
  case (Cons e es)
  let ?t = "add_mmap_entry (fst e) (snd e) s"
  have "good_entry (fst e) (snd e)" "whole_pages (fst e) (snd e) \<inter> (free_frames s \<union> used_frames s) = {}"
    using Cons.prems(2) by auto
  note t = add_mmap_entry_spec [OF Cons.prems(1) this]
  have "used_frames ?t = used_frames s"
    by (simp add: used_frames_def t(2))
  then have "apart (free_frames ?t \<union> used_frames ?t) es"
    using Cons.prems(2) t(4) by (auto elim!: apart_mono)
  note IH = Cons.IH [OF t(1) this]
  show ?case
    using IH t(2-5) by auto
qed simp

lemma fold_parse_entries:
  "fold (parse_mmap_entry m) es s =
   add_entries (map (\<lambda>e. (read64 m e, read64 m (e + 8))) (filter (\<lambda>e. read32 m (e + 16) = MULTIBOOT_MEMORY_AVAILABLE) es)) s"
  by (induction es arbitrary: s) (simp_all add: parse_mmap_entry_def)

text \<open>The base address and length of the available entries of a memory map tag.\<close>

definition mmap_available :: "mem \<Rightarrow> u64 \<Rightarrow> (u64 \<times> u64) list" where
  "mmap_available m tag = map (\<lambda>e. (read64 m e, read64 m (e + 8)))
     (filter (\<lambda>e. read32 m (e + 16) = MULTIBOOT_MEMORY_AVAILABLE) (mmap_entries m tag))"

text \<open>C31: the memory map. For a memory map tag whose entries have a size other than 0,
  \<open>parse_memory_map\<close> returns. If the available entries do not overlap in whole pages, and each
  reaches its first page boundary, the page allocator keeps its invariant and what it has
  handed out; the frames that become free are whole pages of available entries, and all of
  these while block descriptors last.\<close>

theorem parse_memory_map_adds:
  assumes "pmm_inv s" and "read32 m (tag + 8) \<noteq> 0"
    and "unat tag + unat (read32 m (tag + 4)) + unat (read32 m (tag + 8)) + 16 < 2 ^ 64"
    and "apart (free_frames s \<union> used_frames s) (mmap_available m tag)"
  shows "\<exists>s'. parse_memory_map m tag s = Some s' \<and> pmm_inv s' \<and> allocs s' = allocs s \<and>
    free_frames s' \<subseteq> free_frames s \<union> (\<Union>(base, len)\<in>set (mmap_available m tag). whole_pages base len) \<and>
    (block_count s' < MAX_BLOCK_DESC \<longrightarrow>
      free_frames s' = free_frames s \<union> (\<Union>(base, len)\<in>set (mmap_available m tag). whole_pages base len))"
proof -
  have "parse_memory_map m tag s = Some (add_entries (mmap_available m tag) s)"
    by (simp add: parse_memory_map_fold [OF assms(2,3)] fold_parse_entries mmap_available_def)
  moreover have "(\<Union>(base, len)\<in>X. whole_pages base len) = (\<Union>e\<in>X. whole_pages (fst e) (snd e))" for X
    by auto
  ultimately show ?thesis
    using add_entries_spec [OF assms(1,4)] by simp
qed

lemma short_page_up:
  assumes "unat base + unat len < unat (page_up base)"
  shows "4096 dvd unat (page_up base)" and "4096 \<le> unat (page_up base)" and "unat (page_up base) \<le> unat base + 4095"
    and "page_up (page_up base) = page_up base"
proof -
  let ?a = "page_up base"
  have nw: "unat base + 4095 < 2 ^ 64"
  proof (rule ccontr)
    assume "\<not> ?thesis"
    then have "unat (base + 4095) < 4096"
      using unat_less_64 [of base] by (simp add: unat_word_ariths mod_if) linarith
    then have "unat ?a = 0"
      by (simp add: page_up_eq unat_page_down)
    then show False
      using assms by simp
  qed
  have ua: "unat ?a = (unat base + 4095) div 4096 * 4096"
    by (rule unat_page_up [OF nw])
  then show d: "4096 dvd unat ?a" and "4096 \<le> unat ?a" and "unat ?a \<le> unat base + 4095"
    using assms by (auto simp: Suc_le_eq intro: dvd_imp_le)
  have "unat ?a + 4095 < 2 ^ 64"
    using d unat_less_64 [of ?a] by (auto elim!: dvdE)
  from unat_page_up [OF this] have "unat (page_up ?a) = unat ?a"
    using d by (auto elim!: dvdE)
  then show "page_up ?a = ?a"
    by (simp only: word_eq_iff_unsigned [where ?'a = nat])
qed

lemma short_length_wraps:
  assumes "unat base + unat len < unat (page_up base)"
  shows "page_down (len - (page_up base - base)) = - 4096"
proof -
  let ?x = "len - (page_up base - base)"
  define y where "y = page_up base - base - len"
  have y: "unat y = unat (page_up base) - unat base - unat len"
    using assms by (simp add: y_def unat_sub word_le_nat_alt)
  have x: "?x = - y"
    by (simp add: y_def)
  have y1: "1 \<le> unat y" "unat y \<le> 4095"
    using y short_page_up(3) [OF assms] assms by auto
  have "?x = of_nat (2 ^ 64 - unat y)"
    unfolding x using y1 by (simp add: of_nat_diff)
  moreover have "unat (of_nat (2 ^ 64 - unat y) :: u64) = 2 ^ 64 - unat y"
    by (rule unat_of_nat_small) (use y1 in simp)
  ultimately have "unat ?x = 2 ^ 64 - unat y"
    by (simp only:)
  also have "\<dots> = 4096 * (2 ^ 52 - 1) + (4096 - unat y)"
    using y1 by simp
  finally have ux: "unat ?x = 4096 * (2 ^ 52 - 1) + (4096 - unat y)" .
  have "unat ?x mod 4096 = 4096 - unat y"
    unfolding ux mod_mult_self4 using y1 by simp
  then have "unat (page_down ?x) = 2 ^ 64 - 4096"
    using y1 by (simp only: unat_page_down ux) simp
  then have "unat (page_down ?x) = unat (- 4096 :: u64)"
    by simp
  then show ?thesis
    by (simp only: word_eq_iff_unsigned [where ?'a = nat])
qed

text \<open>A short entry. An available entry that ends before its first page boundary adds no page,
  but the subtraction of the bytes before that boundary wraps around, and the number of all pages
  grows by \<open>2 ^ 52 - 1\<close>.\<close>

lemma short_entry_total_pages:
  assumes "unat base + unat len < unat (page_up base)"
  shows "add_mmap_entry base len s = s\<lparr>total_pages := total_pages s + (2 ^ 52 - 1)\<rparr>"
proof -
  let ?a = "page_up base"
  note d = short_page_up [OF assms]
  have pd: "page_down (- 4096) = - 4096"
    by (simp add: page_down_def)
  have "unat (?a - 4096) = unat ?a - 4096"
    using d(2) by (simp add: unat_sub word_le_nat_alt)
  then have "\<not> ?a < ?a + - 4096"
    using d(2) by (simp add: word_less_nat_alt)
  then have l: "add_region_loop s ?a (?a + - 4096) = s"
    by (simp only: add_region_loop.simps [of s ?a] if_False)
  have dv: "(- 4096 :: u64) div 4096 = 2 ^ 52 - 1"
    by (simp add: word_unat_eq_iff unat_div)
  have "add_mmap_entry base len s = pmm_add_region s ?a (- 4096)"
    by (simp add: add_mmap_entry_def Let_def short_length_wraps [OF assms])
  also have "\<dots> = s\<lparr>total_pages := total_pages s + (2 ^ 52 - 1)\<rparr>"
    unfolding pmm_add_region_def Let_def d(4) pd l dv by simp
  finally show ?thesis .
qed

section \<open>The tags\<close>

lemma copy_cstr_length: "length (copy_cstr m n a) \<le> n"
  by (induction n arbitrary: a) simp_all

lemma unat_less_32: "unat (w :: u32) < 2 ^ 32"
  using unsigned_less [of w] by simp

lemma unat_ucast32: "unat (ucast (w :: u32) :: u64) = unat w"
  using unat_less_32 [of w] by (simp add: unsigned_ucast_eq take_bit_nat_eq_self_iff)

text \<open>The distance to the next tag.\<close>

lemma tag_step:
  assumes "\<not> (z < 8 \<or> z > (4096::u32))"
  shows "8 \<le> unat (ucast ((z + 7) AND NOT 7) :: u64)" "unat (ucast ((z + 7) AND NOT 7) :: u64) \<le> 4103"
proof -
  have z: "8 \<le> unat z" "unat z \<le> 4096"
    using assms by (auto simp: word_less_nat_alt)
  have "unat (z + 7) = unat z + 7"
    using z by (simp add: unat_plus_no_wrap)
  then have "unat ((z + 7) AND NOT 7) = unat z + 7 - (unat z + 7) mod 8"
    using unat_and_not_mask [of "z + 7" 3] by (simp add: mask_eq_exp_minus_1)
  moreover have "(unat z + 7) mod 8 < 8"
    by simp
  ultimately show "8 \<le> unat (ucast ((z + 7) AND NOT 7) :: u64)" "unat (ucast ((z + 7) AND NOT 7) :: u64) \<le> 4103"
    unfolding unat_ucast32 using z by linarith+
qed

definition entries_sized :: "mem \<Rightarrow> u64 \<Rightarrow> u64 \<Rightarrow> bool" where
  "entries_sized m mbi total_size \<longleftrightarrow>
     (\<forall>tag. tag - mbi \<le> total_size \<and> read32 m tag = MULTIBOOT_TAG_MMAP \<longrightarrow> read32 m (tag + 8) \<noteq> 0)"

lemma parse_tag_returns:
  assumes "read32 m tag = MULTIBOOT_TAG_MMAP \<longrightarrow> read32 m (tag + 8) \<noteq> 0" "unat tag < 2 ^ 34"
    "\<not> read32 m (tag + 4) > 4096"
  shows "\<exists>r'. parse_tag m tag r = Some r' \<and> stored_mbi_addr (fst r') = stored_mbi_addr (fst r) \<and>
    stored_mbi_size (fst r') = stored_mbi_size (fst r) \<and>
    (length (kernel_cmdline (fst r)) \<le> CMDLINE_MAX \<longrightarrow> length (kernel_cmdline (fst r')) \<le> CMDLINE_MAX)"
proof (cases "read32 m tag = MULTIBOOT_TAG_MMAP")
  case True
  have "unat (read32 m (tag + 4)) \<le> 4096" "unat (read32 m (tag + 8)) < 2 ^ 32"
    using assms(3) unat_less_32 by (simp_all add: word_less_nat_alt)
  then have "unat tag + unat (read32 m (tag + 4)) + unat (read32 m (tag + 8)) + 16 < 2 ^ 64"
    using assms(2) by simp
  then show ?thesis
    using True assms(1) parse_memory_map_fold by (cases r) (simp add: parse_tag_def)
next
  case False
  then show ?thesis
    by (cases r) (simp add: parse_tag_def parse_cmdline_def copy_cstr_length)
qed

lemma parse_tags_returns:
  assumes es: "entries_sized m mbi total_size" and b: "unat mbi < 2 ^ 32" "unat total_size < 2 ^ 32"
    and t: "tag - mbi \<le> total_size"
  shows "\<exists>r'. parse_tags m mbi total_size tag r = Some r' \<and> stored_mbi_addr (fst r') = stored_mbi_addr (fst r) \<and>
    stored_mbi_size (fst r') = stored_mbi_size (fst r) \<and>
    (length (kernel_cmdline (fst r)) \<le> CMDLINE_MAX \<longrightarrow> length (kernel_cmdline (fst r')) \<le> CMDLINE_MAX)"
  using t
proof (induction "unat total_size - unat (tag - mbi)" arbitrary: tag r rule: less_induct)
  case less
  let ?z = "read32 m (tag + 4)"
  show ?case
  proof (cases "read32 m tag = MULTIBOOT_TAG_END \<or> ?z < 8 \<or> ?z > 4096")
    case True
    then have "parse_tags m mbi total_size tag r = Some r"
      by (subst parse_tags.simps) auto
    then show ?thesis
      by simp
  next
    case False
    let ?t = "tag + ucast ((?z + 7) AND NOT 7)"
    have st: "8 \<le> unat (ucast ((?z + 7) AND NOT 7) :: u64)" "unat (ucast ((?z + 7) AND NOT 7) :: u64) \<le> 4103"
      using tag_step [of ?z] False by blast+
    have le: "unat (tag - mbi) < 2 ^ 32"
      using less.prems b(2) by (simp add: word_le_nat_alt)
    have "tag = mbi + (tag - mbi)"
      by simp
    then have "unat tag = unat mbi + unat (tag - mbi)"
      using unat_plus_no_wrap [of mbi "tag - mbi"] le b(1) by simp
    then have "unat tag < 2 ^ 34"
      using le b(1) by simp
    moreover have "read32 m tag = MULTIBOOT_TAG_MMAP \<longrightarrow> read32 m (tag + 8) \<noteq> 0"
      using es less.prems by (simp add: entries_sized_def)
    ultimately obtain r1 where r1: "parse_tag m tag r = Some r1" "stored_mbi_addr (fst r1) = stored_mbi_addr (fst r)"
        "stored_mbi_size (fst r1) = stored_mbi_size (fst r)"
        "length (kernel_cmdline (fst r)) \<le> CMDLINE_MAX \<longrightarrow> length (kernel_cmdline (fst r1)) \<le> CMDLINE_MAX"
      using parse_tag_returns [of m tag r] False by blast
    have e: "parse_tags m mbi total_size tag r = (if ?t - mbi \<ge> total_size then Some r1 else parse_tags m mbi total_size ?t r1)"
      using False r1(1) by (subst parse_tags.simps) (simp add: Let_def)
    show ?thesis
    proof (cases "?t - mbi \<ge> total_size")
      case True
      then show ?thesis
        using e r1 by simp
    next
      case nx: False
      have e1: "?t - mbi = (tag - mbi) + ucast ((?z + 7) AND NOT 7)"
        by (simp add: algebra_simps)
      have "unat (?t - mbi) = unat (tag - mbi) + unat (ucast ((?z + 7) AND NOT 7) :: u64)"
        unfolding e1 by (rule unat_plus_no_wrap) (use le st(2) in simp)
      moreover have "unat (?t - mbi) < unat total_size"
        using nx by (simp add: word_less_nat_alt not_le)
      ultimately have "unat total_size - unat (?t - mbi) < unat total_size - unat (tag - mbi)"
        using st(1) by linarith
      moreover have "?t - mbi \<le> total_size"
        using nx by simp
      ultimately show ?thesis
        using less.hyps [of ?t r1] e nx r1 by auto
    qed
  qed
qed


section \<open>The initialised page allocator\<close>

text \<open>Reserving pages keeps the number of all pages.\<close>

lemma add_free_block_total: "total_pages (add_free_block s a x) = total_pages s"
  by (simp add: add_free_block_def alloc_block_def set_block_def set_links_def add_count_def add_free_pages_def Let_def)

lemma readd_total: "readd_blocks ord a sz s = Some s' \<Longrightarrow> total_pages s' = total_pages s"
  by (rule readd_blocks.raw_induct [where P = "\<lambda>ord a sz s s'. total_pages s' = total_pages s"])
    (auto simp: add_free_block_total split: if_splits option.splits)

lemma reserve_block_total: "reserve_block ord a e pos s = Some s' \<Longrightarrow> total_pages s' = total_pages s"
  by (auto simp: reserve_block_def Let_def set_links_def add_count_def add_free_pages_def bind_eq_Some_conv dest!: readd_total
      split: if_splits)

lemma reserve_list_total: "reserve_list ord a e pos n s = Some s' \<Longrightarrow> total_pages s' = total_pages s"
  by (rule reserve_list.raw_induct [where P = "\<lambda>ord a e pos n s s'. total_pages s' = total_pages s"])
    (auto simp: bind_eq_Some_conv dest!: reserve_block_total split: if_splits)

lemma reserve_orders_total: "reserve_orders a e ords s = Some s' \<Longrightarrow> total_pages s' = total_pages s"
  by (induction ords arbitrary: s) (auto simp: bind_eq_Some_conv Let_def dest!: reserve_list_total)

lemma reserve_total: "reserve base sz st = Some st' \<Longrightarrow> total_pages (boot_pmm st') = total_pages (boot_pmm st)"
  by (auto simp: reserve_def pmm_reserve_region_def Let_def dest!: reserve_orders_total split: if_splits)

text \<open>The pages of the boot information that \<open>pmm_init\<close> reserves.\<close>

definition mbi_frames :: "boot_state \<Rightarrow> nat set" where
  "mbi_frames st = (if stored_mbi_addr st \<noteq> 0 \<and> stored_mbi_size st \<noteq> 0
     then whole_pages (ucast (stored_mbi_addr st)) (ucast ((stored_mbi_size st + 4096 - 1) div 4096 * 4096)) else {})"

text \<open>From \<open>st\<close> to \<open>st'\<close> the pages \<open>W\<close> have left the free lists.\<close>

definition withdrawn :: "nat set \<Rightarrow> boot_state \<Rightarrow> boot_state \<Rightarrow> bool" where
  "withdrawn W st st' \<longleftrightarrow> pmm_inv (boot_pmm st') \<and> allocs (boot_pmm st') = allocs (boot_pmm st) \<and>
     block_count (boot_pmm st) \<le> block_count (boot_pmm st') \<and> free_frames (boot_pmm st') \<subseteq> free_frames (boot_pmm st) - W \<and>
     (block_count (boot_pmm st') < MAX_BLOCK_DESC \<longrightarrow> free_frames (boot_pmm st') = free_frames (boot_pmm st) - W) \<and>
     total_pages (boot_pmm st') = total_pages (boot_pmm st) \<and> multiboot_get_info st' = multiboot_get_info st"

lemma withdrawn_trans:
  assumes "withdrawn V st st1" "withdrawn W st1 st2"
  shows "withdrawn (V \<union> W) st st2"
proof -
  have "block_count (boot_pmm st1) < MAX_BLOCK_DESC" if "block_count (boot_pmm st2) < MAX_BLOCK_DESC"
    using assms(2) that by (simp add: withdrawn_def)
  then show ?thesis
    using assms by (auto simp: withdrawn_def)
qed

lemma reserve_spec:
  assumes "pmm_inv (boot_pmm st)" "2 ^ 52 - 1 \<notin> free_frames (boot_pmm st)" "unat base + unat sz + 4095 < 2 ^ 64"
  obtains st' where "reserve base sz st = Some st'" "withdrawn (whole_pages base sz) st st'" "2 ^ 52 - 1 \<notin> free_frames (boot_pmm st')"
    "pmm_inv (boot_pmm st')"
proof -
  obtain s where s: "pmm_reserve_region (boot_pmm st) base sz = Some s" "pmm_inv s" "allocs s = allocs (boot_pmm st)"
      "free_frames s \<subseteq> free_frames (boot_pmm st) - whole_pages base sz"
      "block_count s < MAX_BLOCK_DESC \<longrightarrow> free_frames s = free_frames (boot_pmm st) - whole_pages base sz"
      "block_count (boot_pmm st) \<le> block_count s"
    using pmm_reserve_region_spec [OF assms(1,3,2)] by blast
  have r: "reserve base sz st = Some (st\<lparr>boot_pmm := s\<rparr>)"
    by (simp add: reserve_def s(1))
  show thesis
    by (rule that [OF r]) (use s assms(2) reserve_total [OF r] in \<open>auto simp: withdrawn_def multiboot_get_info_def\<close>)
qed

lemma reserve_mbi_spec:
  assumes "pmm_inv (boot_pmm st)" "2 ^ 52 - 1 \<notin> free_frames (boot_pmm st)"
  obtains st' where "reserve_mbi st = Some st'" "withdrawn (mbi_frames st) st st'" "2 ^ 52 - 1 \<notin> free_frames (boot_pmm st')"
    "pmm_inv (boot_pmm st')"
proof (cases "stored_mbi_addr st \<noteq> 0 \<and> stored_mbi_size st \<noteq> 0")
  case True
  have "unat (ucast (stored_mbi_addr st) :: u64) + unat (ucast ((stored_mbi_size st + 4096 - 1) div 4096 * 4096) :: u64) + 4095 < 2 ^ 64"
    unfolding unat_ucast32 using unat_less_32 [of "stored_mbi_addr st"] unat_less_32 [of "(stored_mbi_size st + 4096 - 1) div 4096 * 4096"]
    by simp
  from reserve_spec [OF assms this] show thesis
    using True that by (auto simp: reserve_mbi_def multiboot_get_info_def mbi_frames_def Let_def)
next
  case False
  then show thesis
    using assms that [of st] by (auto simp: reserve_mbi_def multiboot_get_info_def mbi_frames_def withdrawn_def)
qed

lemma whole_pages_fixed: "whole_pages 0x7000 12288 = {7..<10}" "whole_pages 0x100000 0x300000 = {256..<1024}"
  by (auto simp: whole_pages_def)

text \<open>Where the linker may put the kernel and its boot stack.\<close>

definition syms_ok :: "boot_layout \<Rightarrow> bool" where
  "syms_ok sy \<longleftrightarrow> kernel_start sy \<le> kernel_end sy \<and> unat (kernel_end sy) + 4095 < 2 ^ 64 \<and>
     unat (nk_boot_stack_bottom sy) + 20479 < 2 ^ 64"

definition reserved_frames :: "boot_layout \<Rightarrow> boot_state \<Rightarrow> nat set" where
  "reserved_frames sy st = mbi_frames st \<union> whole_pages (kernel_start sy) (kernel_end sy - kernel_start sy) \<union> {7..<10} \<union>
     whole_pages (nk_boot_stack_bottom sy) 16384 \<union> {256..<1024}"

lemma pmm_init_spec:
  assumes st1: "multiboot2_parse sy m mbi_addr (st\<lparr>boot_pmm := pmm_reset (boot_pmm st)\<rparr>) = Some st1"
    and I: "pmm_inv (boot_pmm st1)" "2 ^ 52 - 1 \<notin> free_frames (boot_pmm st1)" and ok: "syms_ok sy"
  shows "\<exists>st'. pmm_init sy m mbi_addr st = Some st' \<and> withdrawn (reserved_frames sy st1) st1 st'"
proof -
  have ks: "unat (kernel_start sy) + unat (kernel_end sy - kernel_start sy) + 4095 < 2 ^ 64"
    using ok by (simp add: syms_ok_def unat_sub word_le_nat_alt)
  have bs: "unat (nk_boot_stack_bottom sy) + unat (16384 :: u64) + 4095 < 2 ^ 64"
    using ok by (simp add: syms_ok_def)
  obtain st2 where s2: "reserve_mbi st1 = Some st2" "withdrawn (mbi_frames st1) st1 st2" "2 ^ 52 - 1 \<notin> free_frames (boot_pmm st2)" "pmm_inv (boot_pmm st2)"
    by (rule reserve_mbi_spec [OF I])
  obtain st3 where s3: "reserve (kernel_start sy) (kernel_end sy - kernel_start sy) st2 = Some st3"
      "withdrawn (whole_pages (kernel_start sy) (kernel_end sy - kernel_start sy)) st2 st3" "2 ^ 52 - 1 \<notin> free_frames (boot_pmm st3)" "pmm_inv (boot_pmm st3)"
    by (rule reserve_spec [OF s2(4,3) ks])
  obtain st4 where s4: "reserve 0x7000 12288 st3 = Some st4" "withdrawn (whole_pages 0x7000 12288) st3 st4" "2 ^ 52 - 1 \<notin> free_frames (boot_pmm st4)" "pmm_inv (boot_pmm st4)"
    by (rule reserve_spec [OF s3(4,3), of "0x7000" 12288]) simp
  obtain st5 where s5: "reserve (nk_boot_stack_bottom sy) 16384 st4 = Some st5"
      "withdrawn (whole_pages (nk_boot_stack_bottom sy) 16384) st4 st5" "2 ^ 52 - 1 \<notin> free_frames (boot_pmm st5)" "pmm_inv (boot_pmm st5)"
    by (rule reserve_spec [OF s4(4,3) bs])
  obtain st6 where s6: "reserve 0x100000 0x300000 st5 = Some st6" "withdrawn (whole_pages 0x100000 0x300000) st5 st6"
    by (rule reserve_spec [OF s5(4,3), of "0x100000" "0x300000"]) simp
  note w = withdrawn_trans [OF withdrawn_trans [OF withdrawn_trans [OF withdrawn_trans [OF s2(2) s3(2)] s4(2)] s5(2)] s6(2)]
  have "pmm_init sy m mbi_addr st = Some st6"
    by (simp add: pmm_init_def Let_def st1 s2(1) s3(1) s4(1) s5(1) s6(1))
  then show ?thesis
    using w by (auto simp: reserved_frames_def whole_pages_fixed Un_assoc)
qed

text \<open>C30: the page allocator after boot. Once the boot information has been parsed into a well-formed
  allocator, \<open>pmm_init\<close> returns with a well-formed allocator that has handed out nothing more, and no
  whole page of the boot information, the kernel image, the trampoline for the other processors, the
  boot stack or the gap from 1 MB to 4 MB is free; no other free page is lost while block
  descriptors last.\<close>

theorem pmm_init_reserves:
  assumes "multiboot2_parse sy m mbi_addr (st\<lparr>boot_pmm := pmm_reset (boot_pmm st)\<rparr>) = Some st1"
    and "pmm_inv (boot_pmm st1)" and "2 ^ 52 - 1 \<notin> free_frames (boot_pmm st1)" and "syms_ok sy"
  shows "\<exists>st'. pmm_init sy m mbi_addr st = Some st' \<and> pmm_inv (boot_pmm st') \<and>
    allocs (boot_pmm st') = allocs (boot_pmm st1) \<and>
    free_frames (boot_pmm st') \<subseteq> free_frames (boot_pmm st1) - reserved_frames sy st1 \<and>
    (block_count (boot_pmm st') < MAX_BLOCK_DESC \<longrightarrow>
      free_frames (boot_pmm st') = free_frames (boot_pmm st1) - reserved_frames sy st1)"
  using pmm_init_spec [OF assms] by (auto simp: withdrawn_def)

section \<open>Pages without a page type\<close>

lemma pmm_alloc_types: "pmm_alloc p x = (a, p') \<Longrightarrow> \<not> pcd_initialized (pcd p) \<Longrightarrow> pcd p' = pcd p"
  by (auto simp: pmm_alloc_def pcd_is_initialized_def Let_def split: if_splits prod.splits option.splits)

lemma mark_region_spec:
  assumes "pcd_wf (pcd p)" "pcd_initialized (pcd p)" "unat base + unat sz + 4095 < 2 ^ 64"
  obtains p' where "mark_region base sz t p = Some p'" "pcd_wf (pcd p')" "pcd_initialized (pcd p')"
    "managed_page (pcd p') = managed_page (pcd p)" "pmm p' = pmm p"
    "\<And>a. pcd_get_type (pcd p') a =
      (if page_no a \<in> whole_pages base sz \<and> managed_page (pcd p) (page_no a) then t else pcd_get_type (pcd p) a)"
proof -
  obtain s where "pcd_mark_region (pcd p) base sz t = Some (of_nat (card {n \<in> whole_pages base sz. managed_page (pcd p) n}), s)"
      "\<forall>a. pcd_get_type s a =
        (if page_no a \<in> whole_pages base sz \<and> managed_page (pcd p) (page_no a) then t else pcd_get_type (pcd p) a)"
      "pcd_wf s" "pcd_initialized s" "managed_page s = managed_page (pcd p)"
    using pcd_mark_region_spec [OF assms] by blast
  then show thesis
    by (intro that [of "p\<lparr>pcd := s\<rparr>"]) (simp_all add: mark_region_def)
qed

text \<open>A table in which all pages are of the nested kernel, for \<open>n\<close> pages.\<close>

definition all_normal :: "u64 \<Rightarrow> phys_state \<Rightarrow> bool" where
  "all_normal n p \<longleftrightarrow> pcd_wf (pcd p) \<and> pcd_initialized (pcd p) \<and> (\<forall>k. managed_page (pcd p) k \<longleftrightarrow> k < unat n) \<and>
     (\<forall>a. pcd_get_type (pcd p) a = PCD_TYPE_NK_NORMAL)"

lemma mark_normal:
  assumes "all_normal n p" "unat base + unat sz + 4095 < 2 ^ 64"
  obtains p' where "mark_region base sz PCD_TYPE_NK_NORMAL p = Some p'" "all_normal n p'"
proof -
  have "pcd_wf (pcd p)" "pcd_initialized (pcd p)"
    using assms(1) by (simp_all add: all_normal_def)
  from mark_region_spec [OF this assms(2), of PCD_TYPE_NK_NORMAL] obtain p' where
      "mark_region base sz PCD_TYPE_NK_NORMAL p = Some p'" "pcd_wf (pcd p')" "pcd_initialized (pcd p')"
      "managed_page (pcd p') = managed_page (pcd p)" "\<And>a. pcd_get_type (pcd p') a = (if page_no a \<in> whole_pages base sz \<and>
        managed_page (pcd p) (page_no a) then PCD_TYPE_NK_NORMAL else pcd_get_type (pcd p) a)"
    by metis
  then show thesis
    using assms(1) by (intro that [of p']) (simp_all add: all_normal_def)
qed

text \<open>Where the linker may put the stacks.\<close>

definition stacks_ok :: "boot_layout \<Rightarrow> bool" where
  "stacks_ok sy \<longleftrightarrow> nk_boot_stack_bottom sy \<le> nk_boot_stack_top sy \<and> unat (nk_boot_stack_top sy) + 4095 < 2 ^ 64 \<and>
     nk_trampoline_stack_bottom sy \<le> nk_trampoline_stack_end sy \<and> unat (nk_trampoline_stack_end sy) + 4095 < 2 ^ 64 \<and>
     unat (ok_cpu_stacks sy) + 69631 < 2 ^ 64"

lemma span_no_wrap: "a \<le> b \<Longrightarrow> unat b + 4095 < 2 ^ 64 \<Longrightarrow> unat a + unat (b - a) + 4095 < 2 ^ 64" for a b :: u64
  by (simp add: unat_sub word_le_nat_alt)

lemma mark_kernel_regions:
  assumes "all_normal n q" and "syms_ok sy" and "stacks_ok sy"
  obtains p1 p2 p3 where
    "mark_region (kernel_start sy) (kernel_end sy - kernel_start sy) PCD_TYPE_NK_NORMAL q = Some p1"
    "mark_region (nk_boot_stack_bottom sy) (nk_boot_stack_top sy - nk_boot_stack_bottom sy) PCD_TYPE_NK_NORMAL p1 = Some p2"
    "mark_region (nk_trampoline_stack_bottom sy) (nk_trampoline_stack_end sy - nk_trampoline_stack_bottom sy)
      PCD_TYPE_NK_NORMAL p2 = Some p3" "all_normal n p3"
proof -
  have sp: "unat (kernel_start sy) + unat (kernel_end sy - kernel_start sy) + 4095 < 2 ^ 64"
    "unat (nk_boot_stack_bottom sy) + unat (nk_boot_stack_top sy - nk_boot_stack_bottom sy) + 4095 < 2 ^ 64"
    "unat (nk_trampoline_stack_bottom sy) + unat (nk_trampoline_stack_end sy - nk_trampoline_stack_bottom sy) + 4095 < 2 ^ 64"
    using assms(2,3) span_no_wrap by (simp_all add: syms_ok_def stacks_ok_def)
  obtain p1 where p1: "mark_region (kernel_start sy) (kernel_end sy - kernel_start sy) PCD_TYPE_NK_NORMAL q = Some p1" "all_normal n p1"
    by (rule mark_normal [OF assms(1) sp(1)])
  obtain p2 where p2: "mark_region (nk_boot_stack_bottom sy) (nk_boot_stack_top sy - nk_boot_stack_bottom sy) PCD_TYPE_NK_NORMAL p1 = Some p2"
      "all_normal n p2"
    by (rule mark_normal [OF p1(2) sp(2)])
  obtain p3 where p3: "mark_region (nk_trampoline_stack_bottom sy) (nk_trampoline_stack_end sy - nk_trampoline_stack_bottom sy)
      PCD_TYPE_NK_NORMAL p2 = Some p3" "all_normal n p3"
    by (rule mark_normal [OF p2(2) sp(3)])
  show ?thesis
    by (rule that [OF p1(1) p2(1) p3])
qed

text \<open>C33: the page types after boot. If the page allocator has a block for the table, \<open>pcd_init\<close> returns
  with the table initialised for as many pages as the allocator counts. The pages of the outer
  kernel's stacks are of the outer kernel, all others of the nested kernel. The table covers the
  page numbers below that count, so that a page with a larger number, which the allocator may well
  manage, can be given no type.\<close>

theorem pcd_init_types:
  assumes "pmm_inv (pmm p)" and "0 \<notin> free_frames (pmm p)" and "total_pages (pmm p) \<noteq> 0"
    and "has_free (pmm p) (pcd_order_loop (total_pages (pmm p) * 4) 0 PAGE_SIZE)"
    and "syms_ok sy" and "stacks_ok sy"
  shows "\<exists>p'. pcd_init sy p = Some p' \<and> pcd_is_initialized (pcd p') \<and>
    (\<forall>a. pcd_get_type (pcd p') a =
       (if page_no a \<in> whole_pages (ok_cpu_stacks sy) 65536 \<and> page_no a < unat (total_pages (pmm p))
        then PCD_TYPE_OK_NORMAL else PCD_TYPE_NK_NORMAL) \<and>
      (page_no a \<ge> unat (total_pages (pmm p)) \<longrightarrow> pcd_set_type (pcd p') a t = (-1, pcd p')))"
proof -
  let ?n = "total_pages (pmm p)" and ?p = "p\<lparr>pcd := (pcd p)\<lparr>pcd_initialized := False\<rparr>\<rparr>"
  let ?o = "pcd_order_loop (?n * 4) 0 PAGE_SIZE"
  obtain x q where al: "pmm_alloc ?p ?o = (x, q)"
    by (cases "pmm_alloc ?p ?o")
  have o: "?o \<le> MAX_ORDER"
    using assms(4) by (auto simp: has_free_def)
  have "frames x ?o \<subseteq> free_frames (pmm p)"
    using pmm_alloc_correct(3) [of ?p, OF _ o _ al] assms(1,4) by simp
  then have x: "x \<noteq> 0"
    using assms(2) by (auto simp: frames_def page_no_def subset_iff)
  let ?c = "(pcd q)\<lparr>pcd_array := x, pcd_max_pages := ?n, pcd_base_page := 0,
      pcd_pages := set_all_normal ?n (pcd_pages (pcd q)), pcd_initialized := True\<rparr>"
  let ?q = "q\<lparr>pcd := ?c\<rparr>"
  have wf: "pcd_wf (pcd ?q)" "pcd_initialized (pcd ?q)"
    using unat_less_64 [of ?n] by (simp_all add: pcd_wf_def)
  have "pcd_get_type (pcd ?q) a = PCD_TYPE_NK_NORMAL" for a
    unfolding pcd_get_type_eq [OF wf] by (simp add: managed_page_def page_type_def set_all_normal_def)
  then have q: "all_normal ?n ?q"
    unfolding all_normal_def using wf by (simp add: managed_page_def)
  obtain p1 p2 p3 where p:
      "mark_region (kernel_start sy) (kernel_end sy - kernel_start sy) PCD_TYPE_NK_NORMAL ?q = Some p1"
      "mark_region (nk_boot_stack_bottom sy) (nk_boot_stack_top sy - nk_boot_stack_bottom sy) PCD_TYPE_NK_NORMAL p1 = Some p2"
      "mark_region (nk_trampoline_stack_bottom sy) (nk_trampoline_stack_end sy - nk_trampoline_stack_bottom sy)
        PCD_TYPE_NK_NORMAL p2 = Some p3" and p3: "all_normal ?n p3"
    by (rule mark_kernel_regions [OF q assms(5,6)])
  have sp: "unat (ok_cpu_stacks sy) + unat (4 * 16384 :: u64) + 4095 < 2 ^ 64"
    using assms(6) by (simp add: stacks_ok_def)
  have w3: "pcd_wf (pcd p3)" "pcd_initialized (pcd p3)"
    using p3 by (simp_all add: all_normal_def)
  obtain p4 where p4: "mark_region (ok_cpu_stacks sy) (4 * 16384) PCD_TYPE_OK_NORMAL p3 = Some p4"
      "pcd_wf (pcd p4)" "pcd_initialized (pcd p4)" "managed_page (pcd p4) = managed_page (pcd p3)"
      "\<And>a. pcd_get_type (pcd p4) a = (if page_no a \<in> whole_pages (ok_cpu_stacks sy) (4 * 16384) \<and>
        managed_page (pcd p3) (page_no a) then PCD_TYPE_OK_NORMAL else pcd_get_type (pcd p3) a)"
    using mark_region_spec [OF w3 sp, of PCD_TYPE_OK_NORMAL] by metis
  have "pcd_init sy p = Some p4"
    using assms(3) o x al p p4(1)
    by (simp add: pcd_init_def pmm_get_total_pages_def Let_def)
  moreover have "pcd_set_type (pcd p4) a t = (-1, pcd p4)" if "page_no a \<ge> unat ?n" for a
    using that p4(4) p3 by (simp add: pcd_set_type_cases [OF p4(2)] all_normal_def)
  ultimately show ?thesis
    using p4(3,5) p3 by (auto simp: pcd_is_initialized_def all_normal_def)
qed

text \<open>The default memory map.\<close>

lemma add_region_loop_total: "total_pages (add_region_loop s a e) = total_pages s"
  by (induction s a e rule: add_region_loop.induct)
    (subst add_region_loop.simps, auto simp: add_free_block_total Let_def split: option.split)

lemma default_parse:
  "multiboot2_parse sy m 0 (st\<lparr>boot_pmm := pmm_reset s\<rparr>) = Some (boot_defaults sy (st\<lparr>boot_pmm := pmm_reset s, stored_mbi_addr := 0\<rparr>, False))"
  by (simp add: multiboot2_parse_def Let_def)

lemma default_map:
  fixes s :: pmm_state
  defines "t \<equiv> pmm_add_region (pmm_reset s) 0x400000 (128 * 1024 * 1024 - 0x400000)"
  shows "pmm_inv t" "free_frames t \<subseteq> {1024..<32768}" "total_pages t = 31744"
    "block_count t < MAX_BLOCK_DESC \<Longrightarrow> free_frames t = {1024..<32768}"
proof -
  have "region_frames 0x400000 (128 * 1024 * 1024 - 0x400000) = {1024..<32768}"
    by (simp add: region_frames_def)
  then show "pmm_inv t" "free_frames t \<subseteq> {1024..<32768}" "block_count t < MAX_BLOCK_DESC \<Longrightarrow> free_frames t = {1024..<32768}"
    using pmm_add_region_spec [OF pmm_reset_abs(1) _ _ refl, of "0x400000" "128 * 1024 * 1024 - 0x400000" s]
    by (simp_all add: t_def pmm_reset_abs used_frames_reset)
  have "page_down (0x7C00000 :: u64) = 0x7C00000"
    by (simp add: page_down_def)
  moreover have "(0x7C00000 :: u64) div 4096 = 31744"
    by (simp add: word_unat_eq_iff unat_div)
  ultimately show "total_pages t = 31744"
    by (simp add: t_def pmm_add_region_def pmm_reset_def Let_def add_region_loop_total)
qed

text \<open>What the default memory map leaves free.\<close>

lemma default_map_init:
  assumes "syms_ok sy" "pmm_init sy m 0 st = Some st'"
  shows "free_frames (boot_pmm st') \<subseteq> {1024..<32768} - reserved_frames sy st'"
    "block_count (boot_pmm st') < MAX_BLOCK_DESC \<Longrightarrow> free_frames (boot_pmm st') = {1024..<32768} - reserved_frames sy st'"
    "total_pages (boot_pmm st') = 31744"
proof -
  let ?st1 = "boot_defaults sy (st\<lparr>boot_pmm := pmm_reset (boot_pmm st), stored_mbi_addr := 0\<rparr>, False)"
  have b: "boot_pmm ?st1 = pmm_add_region (pmm_reset (boot_pmm st)) 0x400000 (128 * 1024 * 1024 - 0x400000)"
    "stored_mbi_addr ?st1 = 0"
    by (simp_all add: boot_defaults_def Let_def)
  note dm = default_map [of "boot_pmm st", folded b(1)]
  have w: "withdrawn (reserved_frames sy ?st1) ?st1 st'"
  proof -
    have "2 ^ 52 - 1 \<notin> free_frames (boot_pmm ?st1)"
      using dm(2) by auto
    from pmm_init_spec [OF default_parse dm(1) this assms(1), of m] show ?thesis
      using assms(2) by auto
  qed
  have m: "mbi_frames ?st1 = {}" "mbi_frames st' = {}"
    using w b(2) by (simp_all add: mbi_frames_def withdrawn_def multiboot_get_info_def)
  then have r: "reserved_frames sy ?st1 = reserved_frames sy st'"
    by (simp add: reserved_frames_def)
  have f: "free_frames (boot_pmm st') \<subseteq> {1024..<32768} - reserved_frames sy st'"
    using w dm(2) unfolding r withdrawn_def by blast
  have f': "free_frames (boot_pmm st') = {1024..<32768} - reserved_frames sy st'" if "block_count (boot_pmm st') < MAX_BLOCK_DESC"
  proof -
    have "block_count (boot_pmm ?st1) < MAX_BLOCK_DESC"
      using w that by (simp add: withdrawn_def)
    then show ?thesis
      using w dm(4) that unfolding r withdrawn_def by blast
  qed
  show "free_frames (boot_pmm st') \<subseteq> {1024..<32768} - reserved_frames sy st'"
    "block_count (boot_pmm st') < MAX_BLOCK_DESC \<Longrightarrow> free_frames (boot_pmm st') = {1024..<32768} - reserved_frames sy st'"
    "total_pages (boot_pmm st') = 31744"
    using f f' w dm(3) by (simp_all add: withdrawn_def)
qed

section \<open>Examples\<close>

text \<open>A memory map tag at \<open>0x1000\<close> with one available entry, 2 MB from 4 MB on.\<close>

definition mmap_example :: mem where
  "mmap_example = (\<lambda>_. 0)(0x1000 := 6, 0x1004 := 40, 0x1008 := 24, 0x1012 := 0x40, 0x101A := 0x20, 0x1020 := 1)"

lemma mmap_example_facts:
  "read32 mmap_example (0x1000 + 4) = 40" "read32 mmap_example (0x1000 + 8) = 24"
  "mmap_available mmap_example 0x1000 = [(0x400000, 0x200000)]"
proof -
  show 1: "read32 mmap_example (0x1000 + 4) = 40" "read32 mmap_example (0x1000 + 8) = 24"
    by (simp_all add: read32_def mmap_example_def)
  have "mmap_entries mmap_example 0x1000 = [0x1010]"
    using 1 by (simp add: mmap_entries_def mmap_count_def)
  then show "mmap_available mmap_example 0x1000 = [(0x400000, 0x200000)]"
    by (simp add: mmap_available_def read64_def read32_def mmap_example_def)
qed

theorem parse_memory_map_adds_witness:
  "\<exists>s. parse_memory_map mmap_example 0x1000 (pmm_reset pmm_zero) = Some s \<and> free_frames s \<subseteq> {1024..<1536}"
proof -
  have w: "whole_pages 0x400000 0x200000 = {1024..<1536}"
    by (auto simp: whole_pages_def)
  have "apart (free_frames (pmm_reset pmm_zero) \<union> used_frames (pmm_reset pmm_zero)) (mmap_available mmap_example 0x1000)"
    by (simp add: mmap_example_facts pmm_reset_abs used_frames_reset good_entry_def page_up_def)
  from parse_memory_map_adds [OF pmm_reset_abs(1) _ _ this] show ?thesis
    using mmap_example_facts w by (auto simp: pmm_reset_abs)
qed

lemma short_entry_total_pages_witness:
  "total_pages (add_mmap_entry 0x1001 0x10 pmm_zero) = 2 ^ 52 - 1"
  using short_entry_total_pages [of "0x1001" "0x10" pmm_zero] by (simp add: page_up_def pmm_zero_def)

definition boot_zero :: boot_state where
  "boot_zero = \<lparr>kernel_cmdline = [], stored_mbi_addr = 0, stored_mbi_size = 0, boot_pmm = pmm_zero\<rparr>"

definition layout_boot :: boot_layout where
  "layout_boot = \<lparr>kernel_start = 0x400000, kernel_end = 0x500000, nk_boot_stack_bottom = 0x500000, nk_boot_stack_top = 0x504000,
     nk_trampoline_stack_bottom = 0x504000, nk_trampoline_stack_end = 0x508000, ok_cpu_stacks = 0x510000, embedded_cmdline = []\<rparr>"

theorem cmdline_get_value_prefix_witness:
  "cmdline_get_value (boot_zero\<lparr>kernel_cmdline := ''lo=5 log=debug''\<rparr>) ''log'' = Some ''5''"
proof -
  have "list_all good_option [(''lo'', ''5''), (''log'', ''debug'')]"
    by (simp add: good_option_def)
  from cmdline_get_value_prefix [OF this, of "boot_zero\<lparr>kernel_cmdline := ''lo=5 log=debug''\<rparr>"] show ?thesis
    by simp
qed


lemma default_boot_free: "2 ^ 52 - 1 \<notin> free_frames (boot_pmm (boot_defaults sy (st\<lparr>boot_pmm := pmm_reset s, stored_mbi_addr := 0\<rparr>, False)))"
  "pmm_inv (boot_pmm (boot_defaults sy (st\<lparr>boot_pmm := pmm_reset s, stored_mbi_addr := 0\<rparr>, False)))"
  using default_map(1,2) [of s] by (auto simp: boot_defaults_def Let_def)

theorem pmm_init_reserves_witness:
  "\<exists>st. pmm_init layout_boot (\<lambda>_. 0) 0 boot_zero = Some st \<and> pmm_inv (boot_pmm st) \<and> 1024 \<notin> free_frames (boot_pmm st)"
proof -
  have ok: "syms_ok layout_boot"
    by (simp add: syms_ok_def layout_boot_def)
  have "1024 \<in> reserved_frames layout_boot st" for st
    by (simp add: reserved_frames_def layout_boot_def whole_pages_def)
  then show ?thesis
    using pmm_init_reserves [OF default_parse default_boot_free(2,1) ok, of "\<lambda>_. 0" boot_zero] by blast
qed

theorem pcd_init_types_witness:
  "\<exists>p. pcd_init layout_boot phys_example = Some p \<and> pcd_is_initialized (pcd p) \<and> pcd_set_type (pcd p) 0x500000 3 = (-1, pcd p)"
proof -
  have "(0x200000 :: u64) div 4096 = 512"
    by (simp add: word_unat_eq_iff unat_div)
  then have t: "total_pages (pmm phys_example) = 512"
    by (simp add: phys_example_def pmm_example_def pmm_add_region_def pmm_reset_def Let_def add_region_loop_total page_down_def)
  have o: "pcd_order_loop (512 * 4) 0 PAGE_SIZE = 0"
    by (simp add: pcd_order_loop.simps)
  have "syms_ok layout_boot" "stacks_ok layout_boot"
    by (simp_all add: syms_ok_def stacks_ok_def layout_boot_def)
  from pcd_init_types [OF phys_example_facts(1) _ _ _ this, of 3] obtain p where
      "pcd_init layout_boot phys_example = Some p" "pcd_is_initialized (pcd p)"
      "\<forall>a. page_no a \<ge> 512 \<longrightarrow> pcd_set_type (pcd p) a 3 = (-1, pcd p)"
    using phys_example_facts(2,4) o by (auto simp: t)
  then show ?thesis
    by (auto simp: page_no_def)
qed

end
