(* ===== verification/Serial.thy ===== *)
theory Serial
  imports Device Minilibc
begin

text \<open>
  Output on the serial port, \<^verbatim>\<open>src/arch/x86_64/serial_driver.c\<close>: the lock around the port, the wait
  for the transmitter, and the functions that write characters, strings and numbers. The port
  itself is a parameter \<open>inb\<close>: the byte that the read number \<open>n\<close> of a port returns. What is written to
  the ports is the list \<open>port_writes\<close> of the device framework. \<open>None\<close> as a result is a loop that does
  not end: a lock that is held, or a transmitter that never becomes ready. Strings are without
  the characters behind their terminator.
\<close>

section \<open>State\<close>

record console =
  con_dev :: dev_sys
  serial_lock :: u32
  port_reads :: nat

type_synonym in_ports = "u16 \<Rightarrow> nat \<Rightarrow> u8"

definition read_port :: "in_ports \<Rightarrow> u16 \<Rightarrow> console \<Rightarrow> u8 \<times> console" where
  "read_port inb port C = (inb port (port_reads C), C\<lparr>port_reads := port_reads C + 1\<rparr>)"

section \<open>Operations\<close>

partial_function (option) serial_lock_acquire :: "console \<Rightarrow> console option" where
  "serial_lock_acquire C =
     (let old = serial_lock C;
          C = C\<lparr>serial_lock := 1\<rparr>
      in if old \<noteq> 0 then serial_lock_acquire C else Some C)"

definition serial_lock_release :: "console \<Rightarrow> console" where
  "serial_lock_release C = C\<lparr>serial_lock := 0\<rparr>"

definition serial_base :: "driver_syms \<Rightarrow> console \<Rightarrow> u16" where
  "serial_base sy C =
     (let data = driver_data (devices (con_dev C) (com1_device sy))
      in if data = 0 then 0x3F8 else com1_base_port (con_dev C))"

text \<open>The loops on the line status register, until a bit of the mask is set.\<close>

partial_function (option) wait_status :: "in_ports \<Rightarrow> u16 \<Rightarrow> u8 \<Rightarrow> console \<Rightarrow> console option" where
  "wait_status inb base bits C =
     (case read_port inb (base + 5) C of
        (v, C) \<Rightarrow> if v AND bits = 0 then wait_status inb base bits C else Some C)"

definition serial_putc_unlocked :: "in_ports \<Rightarrow> driver_syms \<Rightarrow> char \<Rightarrow> console \<Rightarrow> console option" where
  "serial_putc_unlocked inb sy c C =
     (let base = serial_base sy C
      in map_option (\<lambda>C. C\<lparr>con_dev := outb base (of_char c) (con_dev C)\<rparr>) (wait_status inb base 0x20 C))"

definition serial_putc :: "in_ports \<Rightarrow> driver_syms \<Rightarrow> char \<Rightarrow> console \<Rightarrow> console option" where
  "serial_putc inb sy c C =
     Option.bind (serial_lock_acquire C) (\<lambda>C.
     map_option serial_lock_release (serial_putc_unlocked inb sy c C))"

primrec puts_loop :: "in_ports \<Rightarrow> driver_syms \<Rightarrow> string \<Rightarrow> console \<Rightarrow> console option" where
  "puts_loop inb sy [] C = Some C"
| "puts_loop inb sy (c # str) C =
     (if c = CHR 0x00 then Some C
      else Option.bind (serial_putc_unlocked inb sy c C) (puts_loop inb sy str))"

definition serial_puts :: "in_ports \<Rightarrow> driver_syms \<Rightarrow> string \<Rightarrow> console \<Rightarrow> console option" where
  "serial_puts inb sy str C =
     Option.bind (serial_lock_acquire C) (\<lambda>C.
     map_option serial_lock_release (puts_loop inb sy str C))"

definition serial_flush :: "in_ports \<Rightarrow> driver_syms \<Rightarrow> console \<Rightarrow> console option" where
  "serial_flush inb sy C =
     Option.bind (serial_lock_acquire C) (\<lambda>C.
     map_option serial_lock_release (wait_status inb (serial_base sy C) 0x40 C))"

definition serial_unlock :: "console \<Rightarrow> console" where
  "serial_unlock C = serial_lock_release C"

text \<open>The loop that fills the buffer from index \<open>i - 1\<close> down and ends with the index of its last
  store, or -1; the loop over leading zeros; and the loop that writes the rest.\<close>

primrec hex_fill :: "nat \<Rightarrow> u64 \<Rightarrow> string \<Rightarrow> int \<times> string" where
  "hex_fill 0 value buf = (-1, buf)"
| "hex_fill (Suc i) value buf =
     (let buf = buf[i := ''0123456789ABCDEF'' ! unat (value AND 0xF)];
          value = drop_bit 4 value
      in if value = 0 then (int i, buf) else hex_fill i value buf)"

function hex_skip :: "int \<Rightarrow> string \<Rightarrow> int" where
  "hex_skip i buf = (if i < 15 \<and> buf ! nat i = CHR ''0'' then hex_skip (i + 1) buf else i)"
  by pat_completeness auto
termination
  by (relation "measure (\<lambda>(i, buf). nat (15 - i))") auto

declare hex_skip.simps [simp del]

primrec putc_all :: "in_ports \<Rightarrow> driver_syms \<Rightarrow> string \<Rightarrow> console \<Rightarrow> console option" where
  "putc_all inb sy [] C = Some C"
| "putc_all inb sy (c # cs) C = Option.bind (serial_putc inb sy c C) (putc_all inb sy cs)"

definition serial_put_hex :: "in_ports \<Rightarrow> driver_syms \<Rightarrow> u64 \<Rightarrow> console \<Rightarrow> console option" where
  "serial_put_hex inb sy value C =
     (if value = 0 then serial_puts inb sy ''0'' C
      else case hex_fill 16 value (replicate 17 CHR 0x00) of
        (i, buf) \<Rightarrow> putc_all inb sy (drop (nat (hex_skip i buf)) (take 16 buf)) C)"

section \<open>What is sent\<close>

text \<open>The transmitter of a 16550 port reports its holding register empty again after every
  character; \<open>sent\<close> relates the states before and after the characters of a string were written
  to the data register.\<close>

definition transmits :: "in_ports \<Rightarrow> u16 \<Rightarrow> bool" where
  "transmits inb base \<longleftrightarrow> (\<forall>n. \<exists>m\<ge>n. inb (base + 5) m AND 0x20 \<noteq> 0)"

definition sent :: "u16 \<Rightarrow> string \<Rightarrow> console \<Rightarrow> console \<Rightarrow> bool" where
  "sent base s C C' \<longleftrightarrow>
     con_dev C' = (con_dev C)\<lparr>port_writes := map (\<lambda>c. (base, of_char c)) (rev s) @ port_writes (con_dev C)\<rparr> \<and>
     serial_lock C' = serial_lock C"

lemma sent_Nil: "con_dev C' = con_dev C \<Longrightarrow> serial_lock C' = serial_lock C \<Longrightarrow> sent base [] C C'"
  by (simp add: sent_def)

lemma sent_trans: "sent base s C D \<Longrightarrow> sent base t D E \<Longrightarrow> sent base (s @ t) C E"
  by (simp add: sent_def)

lemma sent_base [simp]: "sent base s C C' \<Longrightarrow> serial_base sy C' = serial_base sy C"
  by (simp add: sent_def serial_base_def)

lemma lock_acquire_free: "serial_lock C = 0 \<Longrightarrow> serial_lock_acquire C = Some (C\<lparr>serial_lock := 1\<rparr>)"
  by (simp add: serial_lock_acquire.simps)

lemma lock_acquire_held:
  assumes "serial_lock C \<noteq> 0"
  shows "serial_lock_acquire C = None"
proof -
  have "serial_lock C = 0" if "serial_lock_acquire C = Some D" for C D
    by (rule serial_lock_acquire.raw_induct [where P = "\<lambda>C D. serial_lock C = 0", OF _ that])
      (fastforce simp: Let_def split: if_splits)
  then show ?thesis
    using assms by (cases "serial_lock_acquire C") auto
qed

lemma wait_status_ready:
  assumes "\<exists>m\<ge>port_reads C. inb (base + 5) m AND bits \<noteq> 0"
  shows "\<exists>k. wait_status inb base bits C = Some (C\<lparr>port_reads := k\<rparr>)"
proof -
  obtain m where "port_reads C \<le> m" "inb (base + 5) m AND bits \<noteq> 0"
    using assms by blast
  then show ?thesis
  proof (induction "m - port_reads C" arbitrary: C)
    case 0
    then show ?case
      by (auto simp: wait_status.simps [of inb base bits C] read_port_def)
  next
    case (Suc d)
    from Suc.hyps(1) [of "C\<lparr>port_reads := port_reads C + 1\<rparr>"] Suc.hyps(2) Suc.prems show ?case
      by (auto simp: wait_status.simps [of inb base bits C] read_port_def)
  qed
qed

lemma putc_unlocked_sends:
  assumes "transmits inb (serial_base sy C)"
  shows "\<exists>C'. serial_putc_unlocked inb sy c C = Some C' \<and> sent (serial_base sy C) [c] C C'"
proof -
  obtain k where "wait_status inb (serial_base sy C) 0x20 C = Some (C\<lparr>port_reads := k\<rparr>)"
    using wait_status_ready [of C inb "serial_base sy C" "0x20"] assms by (auto simp: transmits_def)
  then show ?thesis
    by (simp add: serial_putc_unlocked_def Let_def sent_def outb_def)
qed

lemma puts_loop_sends:
  assumes "transmits inb (serial_base sy C)"
  shows "\<exists>C'. puts_loop inb sy str C = Some C' \<and> sent (serial_base sy C) (takeWhile (\<lambda>c. c \<noteq> CHR 0x00) str) C C'"
  using assms
proof (induction str arbitrary: C)
  case Nil
  then show ?case
    by (simp add: sent_Nil)
next
  case (Cons c str)
  obtain D where D: "serial_putc_unlocked inb sy c C = Some D" "sent (serial_base sy C) [c] C D"
    using putc_unlocked_sends [OF Cons.prems] by blast
  then obtain E where "puts_loop inb sy str D = Some E"
      "sent (serial_base sy C) (takeWhile (\<lambda>c. c \<noteq> CHR 0x00) str) D E"
    using Cons.IH [of D] Cons.prems by auto
  then show ?case
    using D sent_trans [OF D(2)] by (auto simp: sent_Nil)
qed

lemma sent_locked: "sent base s (C\<lparr>serial_lock := 1\<rparr>) D \<Longrightarrow> serial_lock C = 0 \<Longrightarrow> sent base s C (serial_lock_release D)"
  by (simp add: sent_def serial_lock_release_def)

lemma base_locked [simp]: "serial_base sy (C\<lparr>serial_lock := l\<rparr>) = serial_base sy C"
  by (simp add: serial_base_def)

lemma serial_puts_spec:
  assumes "transmits inb (serial_base sy C)" and "serial_lock C = 0"
  shows "\<exists>C'. serial_puts inb sy str C = Some C' \<and> sent (serial_base sy C) (takeWhile (\<lambda>c. c \<noteq> CHR 0x00) str) C C'"
  using puts_loop_sends [of inb sy "C\<lparr>serial_lock := 1\<rparr>" str] assms
  by (auto simp: serial_puts_def lock_acquire_free intro: sent_locked)

text \<open>A string sent after another one.\<close>

lemma serial_puts_next:
  assumes "transmits inb (serial_base sy C)" "serial_lock C = 0" "sent (serial_base sy C) s C D"
  shows "\<exists>E. serial_puts inb sy t D = Some E \<and> sent (serial_base sy C) (s @ takeWhile (\<lambda>c. c \<noteq> CHR 0x00) t) C E"
proof -
  have "serial_lock D = 0"
    using assms(2,3) by (simp add: sent_def)
  with serial_puts_spec [of inb sy D t] assms(1,3) show ?thesis
    by (auto intro: sent_trans)
qed

lemma serial_putc_spec:
  assumes "transmits inb (serial_base sy C)" and "serial_lock C = 0"
  shows "\<exists>C'. serial_putc inb sy c C = Some C' \<and> sent (serial_base sy C) [c] C C'"
  using putc_unlocked_sends [of inb sy "C\<lparr>serial_lock := 1\<rparr>" c] assms
  by (auto simp: serial_putc_def lock_acquire_free intro: sent_locked)

lemma putc_all_sends:
  assumes "transmits inb (serial_base sy C)" and "serial_lock C = 0"
  shows "\<exists>C'. putc_all inb sy cs C = Some C' \<and> sent (serial_base sy C) cs C C'"
  using assms
proof (induction cs arbitrary: C)
  case Nil
  then show ?case
    by (simp add: sent_Nil)
next
  case (Cons c cs)
  obtain D where D: "serial_putc inb sy c C = Some D" "sent (serial_base sy C) [c] C D"
    using serial_putc_spec [OF Cons.prems] by blast
  then obtain E where "putc_all inb sy cs D = Some E" "sent (serial_base sy C) cs D E"
    using Cons.IH [of D] Cons.prems sent_base [OF D(2)] by (auto simp: sent_def)
  then show ?case
    using D sent_trans [OF D(2)] by auto
qed

section \<open>Hexadecimal numbers\<close>

lemma hex_digit: "''0123456789ABCDEF'' ! unat (v AND 0xF :: u64) = digit_char True (unat v mod 16)"
proof -
  have "unat (v AND 0xF) = unat v mod 16"
    using unat_and_mask [of v 4] by (simp add: mask_eq_exp_minus_1)
  then show ?thesis
    by (simp add: digit_char_def)
qed

lemma unat_drop_4: "unat (drop_bit 4 v :: u64) = unat v div 16"
  by (simp add: drop_bit_eq_div unat_div)

lemma hex_fill_text:
  assumes "v \<noteq> 0" and "unat v < 16 ^ n" and "n \<le> length buf"
  shows "\<exists>k buf'. hex_fill n v buf = (int k, buf') \<and> k < n \<and> length buf' = length buf \<and> drop n buf' = drop n buf \<and>
    drop k (take n buf') = nat_text True 16 (unat v)"
  using assms
proof (induction n arbitrary: v buf)
  case 0
  then show ?case
    by (simp add: unat_eq_0)
next
  case (Suc n)
  let ?d = "digit_char True (unat v mod 16)" and ?w = "drop_bit 4 v"
  show ?case
  proof (cases "?w = 0")
    case True
    then have "unat v < 16"
      using unat_drop_4 [of v] by simp
    with True Suc.prems(3) show ?thesis
      by (auto simp: Let_def hex_digit nat_text.simps [of True 16 "unat v"] drop_update_cancel
          intro!: exI [of _ n]) (simp add: take_Suc_conv_app_nth)
  next
    case False
    have "unat ?w < 16 ^ n" "unat v \<ge> 16"
      using Suc.prems(2) False unat_drop_4 [of v] by (auto simp: unat_eq_0 div_eq_0_iff less_mult_imp_div_less mult.commute intro: ccontr)
    then obtain k buf' where k: "hex_fill n ?w (buf[n := ?d]) = (int k, buf')" "k < n" "length buf' = length buf"
        "drop n buf' = drop n (buf[n := ?d])" "drop k (take n buf') = nat_text True 16 (unat ?w)"
      using Suc.IH [of ?w "buf[n := ?d]"] False Suc.prems(3) by auto
    have "buf' ! n = ?d"
      using arg_cong [OF k(4), of hd] k(3) Suc.prems(3) by (simp add: hd_drop_conv_nth)
    then have "drop k (take (Suc n) buf') = nat_text True 16 (unat v div 16) @ [?d]"
      using k Suc.prems(3) unat_drop_4 [of v] by (simp add: take_Suc_conv_app_nth)
    moreover have "drop (Suc n) buf' = drop (Suc n) buf"
      using arg_cong [OF k(4), of tl] by (simp add: drop_Suc tl_drop flip: drop_Suc)
    ultimately show ?thesis
      using k False \<open>unat v \<ge> 16\<close> by (auto simp: Let_def hex_digit nat_text.simps [of True 16 "unat v"])
  qed
qed

lemma nat_text_first: "0 < n \<Longrightarrow> nat_text True 16 n \<noteq> [] \<and> hd (nat_text True 16 n) \<noteq> CHR ''0''"
proof (induction n rule: less_induct)
  case (less n)
  show ?case
  proof (cases "n < 16")
    case True
    have "list_all (\<lambda>d. digit_char True d \<noteq> CHR ''0'') [1..<16]"
      by code_simp
    with True less.prems show ?thesis
      by (simp add: nat_text.simps [of True 16 n] list_all_iff)
  next
    case False
    with less.IH [of "n div 16"] show ?thesis
      by (auto simp: nat_text.simps [of True 16 n])
  qed
qed

lemma hex_digits:
  assumes "v \<noteq> 0"
  shows "serial_put_hex inb sy v C = putc_all inb sy (nat_text True 16 (unat v)) C"
proof -
  obtain k buf where k: "hex_fill 16 v (replicate 17 CHR 0x00) = (int k, buf)" "k < 16" "length buf = 17"
      "drop k (take 16 buf) = nat_text True 16 (unat v)"
    using hex_fill_text [OF assms, of 16 "replicate 17 CHR 0x00"] unat_less_64 [of v] by auto
  have "buf ! k \<noteq> CHR ''0''"
    using nat_text_first [of "unat v"] assms k(2,3) by (simp add: unat_gt_0 hd_drop_conv_nth flip: k(4))
  then have "hex_skip (int k) buf = int k"
    by (simp add: hex_skip.simps)
  then show ?thesis
    using k assms by (simp add: serial_put_hex_def)
qed

text \<open>C36: \<open>serial_put_hex\<close> writes the digits of the number, most significant first and without
  leading zeros, to the data register of the port, and \<open>serial_puts\<close> the characters of its string
  up to the terminator; both leave the lock free. With the lock held neither returns.\<close>

theorem serial_put_hex_sends:
  assumes "transmits inb (serial_base sy C)"
  shows "(serial_lock C = 0 \<longrightarrow>
      (\<exists>C'. serial_put_hex inb sy value C = Some C' \<and> sent (serial_base sy C) (nat_text True 16 (unat value)) C C') \<and>
      (\<exists>C'. serial_puts inb sy str C = Some C' \<and> sent (serial_base sy C) (takeWhile (\<lambda>c. c \<noteq> CHR 0x00) str) C C')) \<and>
    (serial_lock C \<noteq> 0 \<longrightarrow> serial_put_hex inb sy value C = None \<and> serial_puts inb sy str C = None)"
proof (intro conjI impI)
  assume l: "serial_lock C = 0"
  show "\<exists>C'. serial_puts inb sy str C = Some C' \<and> sent (serial_base sy C) (takeWhile (\<lambda>c. c \<noteq> CHR 0x00) str) C C'"
    by (rule serial_puts_spec [OF assms l])
  show "\<exists>C'. serial_put_hex inb sy value C = Some C' \<and> sent (serial_base sy C) (nat_text True 16 (unat value)) C C'"
    using serial_puts_spec [OF assms l, of "''0''"] putc_all_sends [OF assms l, of "nat_text True 16 (unat value)"]
    by (cases "value = 0") (auto simp: hex_digits serial_put_hex_def [of inb sy 0] nat_text.simps [of True 16 0] digit_char_def)
next
  assume l: "serial_lock C \<noteq> 0"
  then show "serial_puts inb sy str C = None"
    by (simp add: serial_puts_def lock_acquire_held)
  have "putc_all inb sy cs C = None" if "cs \<noteq> []" for cs
    using that l by (cases cs) (simp_all add: serial_putc_def lock_acquire_held)
  then show "serial_put_hex inb sy value C = None"
    using l nat_text_first [of "unat value"]
    by (cases "value = 0") (auto simp: hex_digits serial_put_hex_def [of inb sy 0] serial_puts_def lock_acquire_held unat_gt_0)
qed

text \<open>A port that is ready at every other look at its status.\<close>

definition uart_example :: in_ports where
  "uart_example port n = (if even n then 0 else 0x60)"

lemma uart_example_transmits: "transmits uart_example base"
  unfolding transmits_def
proof
  show "\<exists>m\<ge>n. uart_example (base + 5) m AND 0x20 \<noteq> 0" for n
    by (intro exI [of _ "2 * n + 1"]) (simp add: uart_example_def)
qed

definition driver_syms_example :: driver_syms where
  "driver_syms_example = \<lparr>serial_driver = 0x1000, com1_device = 0x1100, com1_data = 0x1200, ipi_driver = 0x1300,
     ipi_device = 0x1400, serial_name = 0x1500, com1_name = 0x1508, ipi_name = 0x1510\<rparr>"

definition console_boot :: console where
  "console_boot = \<lparr>con_dev = snd (serial_driver_init driver_syms_example (dev_boot driver_syms_example)),
     serial_lock = 0, port_reads = 0\<rparr>"

lemma console_boot_lock: "serial_lock console_boot = 0"
  by (simp add: console_boot_def)

lemma console_boot_base: "serial_base driver_syms_example console_boot = 0x3F8"
  by (simp add: serial_base_def console_boot_def serial_driver_init_def com1_data_init_def driver_register_def device_register_def
      upd_device_def dev_boot_def driver_syms_example_def serial_driver_struct_def com1_device_struct_def Let_def)

theorem serial_put_hex_sends_witness:
  "\<exists>C. serial_put_hex uart_example driver_syms_example 0x2F console_boot = Some C \<and>
     port_writes (con_dev C) = [(0x3F8, 0x46), (0x3F8, 0x32)] @ port_writes (con_dev console_boot)"
proof -
  have "nat_text True 16 0x2F = ''2F''"
    by (simp add: nat_text.simps digit_char_def)
  then show ?thesis
    using serial_put_hex_sends [of uart_example driver_syms_example console_boot "0x2F" "[]"] uart_example_transmits
    by (auto simp: console_boot_base sent_def console_boot_lock of_char_def)
qed

end
