(* ===== verification/Klog.thy ===== *)
theory Klog
  imports Serial Multiboot
begin

text \<open>
  The kernel log, \<^verbatim>\<open>src/kernel/klog.c\<close>, on the serial port: the level chosen by the command line, and
  the line printed for a message. \<open>cpu\<close> is what \<open>smp_get_cpu_index\<close> returns.
\<close>

section \<open>Operations\<close>

record klog_sys =
  klog_con :: console
  current_level :: int

abbreviation KLOG_DEBUG :: int where "KLOG_DEBUG \<equiv> 0"
abbreviation KLOG_INFO :: int where "KLOG_INFO \<equiv> 1"
abbreviation KLOG_WARN :: int where "KLOG_WARN \<equiv> 2"
abbreviation KLOG_ERROR :: int where "KLOG_ERROR \<equiv> 3"
abbreviation KLOG_BUF_SIZE :: nat where "KLOG_BUF_SIZE \<equiv> 512"

definition level_names :: "string list" where
  "level_names = [''DEBUG'', ''INFO'', ''WARN'', ''ERROR'']"

text \<open>The first character of the value; a value with no characters starts with its terminator.\<close>

definition klog_init :: "boot_state \<Rightarrow> klog_sys \<Rightarrow> klog_sys" where
  "klog_init b K =
     (case cmdline_get_value b ''log'' of
        None \<Rightarrow> K
      | Some level_str \<Rightarrow>
          let c = (case level_str of [] \<Rightarrow> CHR 0x00 | c # _ \<Rightarrow> c)
          in if c = CHR ''d'' \<or> c = CHR ''D'' then K\<lparr>current_level := KLOG_DEBUG\<rparr>
             else if c = CHR ''i'' \<or> c = CHR ''I'' then K\<lparr>current_level := KLOG_INFO\<rparr>
             else if c = CHR ''w'' \<or> c = CHR ''W'' then K\<lparr>current_level := KLOG_WARN\<rparr>
             else if c = CHR ''e'' \<or> c = CHR ''E'' then K\<lparr>current_level := KLOG_ERROR\<rparr>
             else K)"

definition klog_set_level :: "int \<Rightarrow> klog_sys \<Rightarrow> klog_sys" where
  "klog_set_level level K =
     (if level \<ge> KLOG_DEBUG \<and> level \<le> KLOG_ERROR then K\<lparr>current_level := level\<rparr> else K)"

definition klog_get_level :: "klog_sys \<Rightarrow> int" where
  "klog_get_level K = current_level K"

text \<open>The loops that append a string to the buffer while it is shorter than \<open>limit\<close>; the buffer is
  the list of the characters stored so far.\<close>

primrec append_upto :: "nat \<Rightarrow> string \<Rightarrow> string \<Rightarrow> string" where
  "append_upto limit [] buf = buf"
| "append_upto limit (c # cs) buf = (if length buf < limit then append_upto limit cs (buf @ [c]) else buf)"

definition klog_prefix :: "nat \<Rightarrow> int \<Rightarrow> string \<Rightarrow> string" where
  "klog_prefix cpu level subsys =
     (let buf = ''[CPU'' @ [char_of (48 + cpu)] @ '']['';
          buf = append_upto (KLOG_BUF_SIZE - 20) (level_names ! nat level) buf;
          buf = buf @ '']['';
          buf = append_upto (KLOG_BUF_SIZE - 10) subsys buf
      in buf @ ''] '')"

definition klog_vprintf ::
  "in_ports \<Rightarrow> driver_syms \<Rightarrow> nat \<Rightarrow> int \<Rightarrow> string \<Rightarrow> string \<Rightarrow> va_slot list \<Rightarrow> klog_sys \<Rightarrow> klog_sys option" where
  "klog_vprintf inb sy cpu level subsys fmt ap K =
     (if level < current_level K then Some K
      else Option.bind (serial_puts inb sy (klog_prefix cpu level subsys @ [CHR 0x00]) (klog_con K)) (\<lambda>C.
           Option.bind (vsnprintf KLOG_BUF_SIZE fmt ap) (\<lambda>(_, buf).
           Option.bind (serial_puts inb sy buf C) (\<lambda>C.
           let text = takeWhile (\<lambda>c. c \<noteq> CHR 0x00) buf
           in map_option (\<lambda>C. K\<lparr>klog_con := C\<rparr>)
                (if text = [] \<or> last text \<noteq> CHR 0x0A then serial_puts inb sy [CHR 0x0A] C else Some C)))))"

definition klog_debug :: "in_ports \<Rightarrow> driver_syms \<Rightarrow> nat \<Rightarrow> string \<Rightarrow> string \<Rightarrow> va_slot list \<Rightarrow> klog_sys \<Rightarrow> klog_sys option" where
  "klog_debug inb sy cpu subsys fmt ap K = klog_vprintf inb sy cpu KLOG_DEBUG subsys fmt ap K"

definition klog_info :: "in_ports \<Rightarrow> driver_syms \<Rightarrow> nat \<Rightarrow> string \<Rightarrow> string \<Rightarrow> va_slot list \<Rightarrow> klog_sys \<Rightarrow> klog_sys option" where
  "klog_info inb sy cpu subsys fmt ap K = klog_vprintf inb sy cpu KLOG_INFO subsys fmt ap K"

definition klog_warn :: "in_ports \<Rightarrow> driver_syms \<Rightarrow> nat \<Rightarrow> string \<Rightarrow> string \<Rightarrow> va_slot list \<Rightarrow> klog_sys \<Rightarrow> klog_sys option" where
  "klog_warn inb sy cpu subsys fmt ap K = klog_vprintf inb sy cpu KLOG_WARN subsys fmt ap K"

definition klog_error :: "in_ports \<Rightarrow> driver_syms \<Rightarrow> nat \<Rightarrow> string \<Rightarrow> string \<Rightarrow> va_slot list \<Rightarrow> klog_sys \<Rightarrow> klog_sys option" where
  "klog_error inb sy cpu subsys fmt ap K = klog_vprintf inb sy cpu KLOG_ERROR subsys fmt ap K"

section \<open>The printed line\<close>

text \<open>A string without terminator inside.\<close>

definition printable :: "string \<Rightarrow> bool" where
  "printable s \<longleftrightarrow> CHR 0x00 \<notin> set s"

lemma takeWhile_printable: "printable s \<Longrightarrow> takeWhile (\<lambda>c. c \<noteq> CHR 0x00) (s @ [CHR 0x00]) = s"
  by (simp add: printable_def takeWhile_append)

lemma append_upto_eq: "append_upto limit s buf = buf @ take (limit - length buf) s"
proof (induction s arbitrary: buf)
  case (Cons c s)
  then show ?case
  proof (cases "length buf < limit")
    case True
    then have "limit - length buf = Suc (limit - length (buf @ [c]))"
      by simp
    with True Cons.IH [of "buf @ [c]"] show ?thesis
      by (simp del: length_append)
  qed simp
qed simp

text \<open>The header says \<open>[CPU0][INFO][SUBSYS] message\<close>: the line of a message, with the name of the
  subsystem and the message cut to what fits, and a newline unless the message ends with one.\<close>

definition klog_line :: "nat \<Rightarrow> int \<Rightarrow> string \<Rightarrow> string \<Rightarrow> string" where
  "klog_line cpu level subsys msg =
     ''[CPU'' @ [char_of (48 + cpu)] @ '']['' @ level_names ! nat level @ '']['' @
     take (493 - length (level_names ! nat level)) subsys @ ''] '' @ take 511 msg @
     (if take 511 msg \<noteq> [] \<and> last (take 511 msg) = CHR 0x0A then [] else [CHR 0x0A])"

lemma level_name_short: "0 \<le> level \<Longrightarrow> level \<le> 3 \<Longrightarrow> length (level_names ! nat level) \<le> 5"
proof -
  assume "0 \<le> level" "level \<le> 3"
  then have "nat level < 4"
    by simp
  moreover have "list_all (\<lambda>i. length (level_names ! i) \<le> 5) [0..<4]"
    by code_simp
  ultimately show ?thesis
    by (simp add: list_all_iff)
qed

lemma level_name_printable: "0 \<le> level \<Longrightarrow> level \<le> 3 \<Longrightarrow> printable (level_names ! nat level)"
proof -
  assume "0 \<le> level" "level \<le> 3"
  then have "nat level < 4"
    by simp
  moreover have "list_all (\<lambda>i. printable (level_names ! i)) [0..<4]"
    unfolding printable_def by code_simp
  ultimately show ?thesis
    by (simp add: list_all_iff)
qed

lemma klog_prefix_eq:
  assumes "0 \<le> level" "level \<le> 3"
  shows "klog_prefix cpu level subsys = ''[CPU'' @ [char_of (48 + cpu)] @ '']['' @ level_names ! nat level @ '']['' @
    take (493 - length (level_names ! nat level)) subsys @ ''] ''"
  using level_name_short [OF assms] by (simp add: klog_prefix_def append_upto_eq)

lemma printable_prefix:
  assumes "0 \<le> level" "level \<le> 3" "cpu < 4" "printable subsys"
  shows "printable (klog_prefix cpu level subsys)"
proof -
  have "list_all (\<lambda>i. char_of (48 + i) \<noteq> CHR 0x00) [0..<4]"
    by code_simp
  then have "char_of (48 + cpu) \<noteq> CHR 0x00"
    using assms(3) by (simp add: list_all_iff)
  moreover have "CHR 0x00 \<notin> set (take n subsys)" for n
    using assms(4) by (auto simp: printable_def dest: in_set_takeD)
  ultimately show ?thesis
    using level_name_printable [OF assms(1,2)] unfolding klog_prefix_eq [OF assms(1,2)] by (simp add: printable_def)
qed

lemma klog_vprintf_spec:
  assumes "transmits inb (serial_base sy (klog_con K))" "serial_lock (klog_con K) = 0"
    and "0 \<le> level" "level \<le> 3" "cpu < 4" "printable subsys" "render fmt ap = Some msg" "printable msg"
  shows "\<exists>C. klog_vprintf inb sy cpu level subsys fmt ap K = Some (K\<lparr>klog_con := C\<rparr>) \<and>
    sent (serial_base sy (klog_con K)) (if level < current_level K then [] else klog_line cpu level subsys msg) (klog_con K) C"
proof (cases "level < current_level K")
  case True
  then show ?thesis
    by (auto simp: klog_vprintf_def sent_Nil intro!: exI [of _ "klog_con K"])
next
  case False
  let ?b = "serial_base sy (klog_con K)" and ?m = "take 511 msg"
  have m: "printable ?m"
    using assms(8) by (auto simp: printable_def dest: in_set_takeD)
  obtain C1 where 1: "serial_puts inb sy (klog_prefix cpu level subsys @ [CHR 0x00]) (klog_con K) = Some C1"
      "sent ?b (klog_prefix cpu level subsys) (klog_con K) C1"
    using serial_puts_spec [OF assms(1,2), of "klog_prefix cpu level subsys @ [CHR 0x00]"]
      takeWhile_printable [OF printable_prefix [OF assms(3-6)]] by auto
  obtain C2 where 2: "serial_puts inb sy (?m @ [CHR 0x00]) C1 = Some C2" "sent ?b (klog_prefix cpu level subsys @ ?m) (klog_con K) C2"
    using serial_puts_next [OF assms(1,2) 1(2), of "?m @ [CHR 0x00]"] takeWhile_printable [OF m] by auto
  obtain C3 where 3: "serial_puts inb sy [CHR 0x0A] C2 = Some C3"
      "sent ?b ((klog_prefix cpu level subsys @ ?m) @ [CHR 0x0A]) (klog_con K) C3"
    using serial_puts_next [OF assms(1,2) 2(2), of "[CHR 0x0A]"] by auto
  have v: "vsnprintf KLOG_BUF_SIZE fmt ap = Some (sint (word_of_nat (length msg) :: u32), ?m @ [CHR 0x00])"
    by (simp add: vsnprintf_spec assms(7))
  show ?thesis
  proof (cases "?m \<noteq> [] \<and> last ?m = CHR 0x0A")
    case True
    then have "klog_line cpu level subsys msg = klog_prefix cpu level subsys @ ?m"
      by (simp only: klog_line_def klog_prefix_eq [OF assms(3,4)]) simp
    then show ?thesis
      using False True 1(1) 2 v takeWhile_printable [OF m] by (auto simp: klog_vprintf_def Let_def intro!: exI [of _ C2])
  next
    case nl: False
    then have "klog_line cpu level subsys msg = (klog_prefix cpu level subsys @ ?m) @ [CHR 0x0A]"
      by (simp only: klog_line_def klog_prefix_eq [OF assms(3,4)]) simp
    then show ?thesis
      using False nl 1(1) 2(1) 3 v takeWhile_printable [OF m] by (auto simp: klog_vprintf_def Let_def)
  qed
qed

text \<open>C35: a message of a level below the current one prints nothing; any other one prints exactly its
  line, the name of the subsystem and the message cut to the space there is, and leaves the lock
  of the port free. The prefix and its terminator fit into the buffer.\<close>

theorem klog_prints:
  assumes "transmits inb (serial_base sy (klog_con K))" and "serial_lock (klog_con K) = 0"
    and "0 \<le> level" and "level \<le> 3" and "cpu < 4" and "printable subsys" and "render fmt ap = Some msg" and "printable msg"
  shows "(\<exists>C. klog_vprintf inb sy cpu level subsys fmt ap K = Some (K\<lparr>klog_con := C\<rparr>) \<and>
      sent (serial_base sy (klog_con K)) (if level < current_level K then [] else klog_line cpu level subsys msg) (klog_con K) C) \<and>
    length (klog_prefix cpu level subsys) < KLOG_BUF_SIZE"
proof
  show "length (klog_prefix cpu level subsys) < KLOG_BUF_SIZE"
    using level_name_short [OF assms(3,4)] by (simp add: klog_prefix_eq [OF assms(3,4)])
qed (rule klog_vprintf_spec [OF assms])

definition klog_boot :: klog_sys where
  "klog_boot = \<lparr>klog_con = console_boot, current_level = KLOG_INFO\<rparr>"

theorem klog_prints_witness:
  "\<exists>C. klog_info uart_example driver_syms_example 0 ''PMM'' ''free: %u'' [Slot 5] klog_boot = Some (klog_boot\<lparr>klog_con := C\<rparr>) \<and>
     sent 0x3F8 (''[CPU0][INFO][PMM] free: 5'' @ [CHR 0x0A]) console_boot C"
proof -
  have r: "render ''free: %u'' [Slot 5] = Some ''free: 5''"
    by (simp add: conv_text_def nat_text.simps digit_char_def)
  have c: "char_of (48 + 0 :: nat) = CHR ''0''"
    by code_simp
  have "klog_line 0 1 ''PMM'' ''free: 5'' = ''[CPU0][INFO][PMM] free: 5'' @ [CHR 0x0A]"
    unfolding klog_line_def c by (simp add: level_names_def)
  then show ?thesis
    using klog_prints [of uart_example driver_syms_example klog_boot 1 0 "''PMM''", OF _ _ _ _ _ _ r] uart_example_transmits
    by (simp add: klog_info_def klog_boot_def console_boot_base console_boot_lock printable_def)
qed

end
