(* ===== verification/Uaccess.thy ===== *)
theory Uaccess
  imports Minilibc
begin

text \<open>
  Access to user memory, \<^verbatim>\<open>src/arch/x86_64/uaccess.c\<close> and \<^verbatim>\<open>src/arch/x86_64/include/uaccess.h\<close>: the
  check of user pointers and the copies between user and kernel memory, over the byte memory of
  the C library. The error codes of the header are negative already, and the functions return
  their negation. A result of C type \<open>long\<close> or \<open>int\<close> is an integer. Log output is not modelled.
\<close>

section \<open>Operations\<close>

abbreviation EFAULT :: int where "EFAULT \<equiv> -14"
abbreviation EINVAL :: int where "EINVAL \<equiv> -22"
abbreviation USER_CODE_BASE :: u64 where "USER_CODE_BASE \<equiv> 0x400000"
abbreviation USER_SPACE_END :: u64 where "USER_SPACE_END \<equiv> 0x800000000000"

definition is_user_pointer :: "u64 \<Rightarrow> bool" where
  "is_user_pointer addr =
     (if addr < USER_CODE_BASE \<or> addr \<ge> USER_SPACE_END then False
      else let upper_bits = drop_bit 47 addr
           in if upper_bits \<noteq> 0 \<and> upper_bits \<noteq> 0x1FFFF then False else True)"

definition probe_user_read :: "u64 \<Rightarrow> u64 \<Rightarrow> int" where
  "probe_user_read addr n =
     (let start = addr; stop = start + n
      in if stop < start then - EFAULT
         else if \<not> is_user_pointer addr then - EFAULT
         else if stop \<ge> USER_SPACE_END then - EFAULT
         else 0)"

definition probe_user_write :: "u64 \<Rightarrow> u64 \<Rightarrow> int" where
  "probe_user_write addr n = probe_user_read addr n"

definition copy_from_user :: "mem \<Rightarrow> u64 \<Rightarrow> u64 \<Rightarrow> u64 \<Rightarrow> int \<times> mem" where
  "copy_from_user m dst src n =
     (if dst = 0 then (- EINVAL, m)
      else if src = 0 then (- EFAULT, m)
      else if probe_user_read src n \<noteq> 0 then (- EFAULT, m)
      else (0, snd (memcpy m dst src n)))"

definition copy_to_user :: "mem \<Rightarrow> u64 \<Rightarrow> u64 \<Rightarrow> u64 \<Rightarrow> int \<times> mem" where
  "copy_to_user m dst src n =
     (if src = 0 then (- EINVAL, m)
      else if dst = 0 then (- EFAULT, m)
      else if probe_user_write dst n \<noteq> 0 then (- EFAULT, m)
      else (0, snd (memcpy m dst src n)))"

text \<open>The copy loop of \<open>strncpy_from_user\<close> from the index \<open>len\<close>.\<close>

function strncpy_user_loop :: "u64 \<Rightarrow> u64 \<Rightarrow> u64 \<Rightarrow> u64 \<Rightarrow> mem \<Rightarrow> u64 \<times> mem" where
  "strncpy_user_loop dst src count len m =
     (if len < count - 1 then
        let c = m (src + len)
        in if c = 0 then (len, m)
           else strncpy_user_loop dst src count (len + 1) (m(dst + len := c))
      else (len, m))"
  by pat_completeness auto
termination
proof (relation "measure (\<lambda>(dst, src, count, len, m). unat (count - 1) - unat len)", goal_cases)
  case (2 dst src count len m c)
  then have "unat (len + 1) = unat len + 1"
    using unat_less_64 [of "count - 1"] by (simp add: unat_plus_no_wrap word_less_nat_alt)
  with 2 show ?case
    by (simp add: word_less_nat_alt)
qed simp

declare strncpy_user_loop.simps [simp del]

definition strncpy_from_user :: "mem \<Rightarrow> u64 \<Rightarrow> u64 \<Rightarrow> u64 \<Rightarrow> int \<times> mem" where
  "strncpy_from_user m dst src count =
     (if dst = 0 \<or> src = 0 then (- EINVAL, m)
      else if count = 0 then (- EINVAL, m)
      else if probe_user_read src count \<noteq> 0 then (- EFAULT, m)
      else case strncpy_user_loop dst src count 0 m of
        (len, m) \<Rightarrow> (sint len, m(dst + len := 0)))"

definition clear_user :: "mem \<Rightarrow> u64 \<Rightarrow> u64 \<Rightarrow> int \<times> mem" where
  "clear_user m dst n =
     (if probe_user_write dst n \<noteq> 0 then (- EFAULT, m)
      else (0, snd (memset m dst 0 n)))"

section \<open>The ranges that are accepted\<close>

text \<open>From 4 MB up to 128 TB, where the range has to end before the last address.\<close>

definition user_range :: "u64 \<Rightarrow> u64 \<Rightarrow> bool" where
  "user_range a n \<longleftrightarrow> 0x400000 \<le> unat a \<and> unat a + unat n < 0x800000000000"

lemma probe_user_read_iff: "probe_user_read a n = (if user_range a n then 0 else 14)"
proof (cases "unat a < 0x800000000000 \<and> unat a + unat n < 2 ^ 64")
  case True
  have "unat (drop_bit 47 a) = unat a div 2 ^ 47"
    by (simp add: drop_bit_eq_div unat_div)
  then have "drop_bit 47 a = 0"
    using True by (simp add: unat_eq_0 [symmetric])
  moreover have "unat (a + n) = unat a + unat n"
    using True by (simp add: unat_plus_no_wrap)
  ultimately show ?thesis
    using True by (auto simp: probe_user_read_def is_user_pointer_def user_range_def Let_def word_less_nat_alt word_le_nat_alt)
next
  case False
  then have "\<not> user_range a n"
    by (auto simp: user_range_def)
  moreover have "a + n < a \<or> a \<ge> USER_SPACE_END"
    using False no_olen_add_nat [of a n] by (auto simp: word_le_nat_alt word_less_nat_alt not_le)
  ultimately show ?thesis
    by (auto simp: probe_user_read_def is_user_pointer_def Let_def)
qed

lemma user_range_nonzero: "user_range a n \<Longrightarrow> a \<noteq> 0"
  by (auto simp: user_range_def)

lemma user_range_addresses:
  assumes "user_range a n" "b \<in> range_of a (unat n)"
  shows "0x400000 \<le> unat b \<and> unat b < 0x800000000000"
proof -
  obtain i where "b = a + of_nat i" "i < unat n"
    using assms(2) by (auto simp: range_of_def)
  moreover have "unat (of_nat i :: u64) = i"
    using \<open>i < unat n\<close> unat_less_64 [of n] by (simp add: unat_of_nat)
  ultimately show ?thesis
    using assms(1) by (simp add: user_range_def unat_plus_no_wrap)
qed

lemma memcpy_spec:
  assumes "range_of d (unat n) \<inter> range_of s (unat n) = {}"
  shows "snd (memcpy m d s n) = (\<lambda>a. if a \<in> range_of d (unat n) then m (a - d + s) else m a)"
  using memcpy_from_eq [OF _ assms, of m] unat_less_64 [of n] by (simp add: memcpy_def fun_eq_iff)

section \<open>Strings\<close>

text \<open>The \<open>k\<close> bytes at \<open>a\<close> that a bounded copy of a string takes: up to the terminator, or one less
  than \<open>count\<close>.\<close>

definition user_string :: "mem \<Rightarrow> u64 \<Rightarrow> u64 \<Rightarrow> nat \<Rightarrow> bool" where
  "user_string m a count k \<longleftrightarrow> k < unat count \<and> (\<forall>i<k. m (a + of_nat i) \<noteq> 0) \<and>
     (k + 1 = unat count \<or> m (a + of_nat k) = 0)"

definition apart :: "u64 \<Rightarrow> u64 \<Rightarrow> u64 \<Rightarrow> bool" where
  "apart d s n \<longleftrightarrow> range_of d (unat n) \<inter> range_of s (unat n) = {}"

lemma apartD: "apart d s n \<Longrightarrow> i < unat n \<Longrightarrow> j < unat n \<Longrightarrow> d + of_nat i \<noteq> s + of_nat j"
  unfolding apart_def range_of_def by blast

lemma user_string_store:
  assumes "user_string m s n k" "apart d s n" "i < unat n"
  shows "user_string (m(d + of_nat i := c)) s n k"
proof -
  have "s + of_nat j \<noteq> d + of_nat i" if "j < unat n" for j
    using apartD [OF assms(2,3) that] by metis
  then show ?thesis
    using assms(1) by (auto simp: user_string_def)
qed

lemma strncpy_user_loop_copies:
  assumes "user_string m s n k" "apart d s n" "l \<le> k"
  shows "strncpy_user_loop d s n (of_nat l) m =
    (of_nat k, \<lambda>a. if \<exists>i. l \<le> i \<and> i < k \<and> a = d + of_nat i then m (a - d + s) else m a)"
  using assms
proof (induction "k - l" arbitrary: l m)
  case 0
  have "unat (n - 1) = unat n - 1"
    using 0 by (auto simp: user_string_def unat_sub word_le_nat_alt)
  moreover have "unat (of_nat k :: u64) = k"
    using 0 unat_less_64 [of n] by (simp add: user_string_def unat_of_nat)
  ultimately have "\<not> of_nat k < n - 1 \<or> m (s + of_nat k) = 0"
    using 0 by (auto simp: user_string_def word_less_nat_alt)
  moreover have "l = k"
    using 0 by simp
  ultimately show ?case
    by (auto simp: strncpy_user_loop.simps [of d s n] Let_def fun_eq_iff)
next
  case (Suc j)
  let ?m = "m(d + of_nat l := m (s + of_nat l))"
  have l: "l < k" "l < unat n" "m (s + of_nat l) \<noteq> 0"
    using Suc by (auto simp: user_string_def)
  have "unat (n - 1) = unat n - 1" "unat (of_nat l :: u64) = l"
    using Suc.prems l unat_less_64 [of n] by (auto simp: user_string_def unat_sub word_le_nat_alt unat_of_nat)
  then have less: "of_nat l < n - 1"
    using Suc.prems l by (auto simp: user_string_def word_less_nat_alt)
  have "strncpy_user_loop d s n (of_nat (Suc l)) ?m =
      (of_nat k, \<lambda>a. if \<exists>i. Suc l \<le> i \<and> i < k \<and> a = d + of_nat i then ?m (a - d + s) else ?m a)"
    using Suc.hyps(1) [of "Suc l" ?m] Suc.hyps(2) Suc.prems l user_string_store [OF Suc.prems(1,2) l(2)] by auto
  moreover have "(if \<exists>i. Suc l \<le> i \<and> i < k \<and> a = d + of_nat i then ?m (a - d + s) else ?m a) =
      (if \<exists>i. l \<le> i \<and> i < k \<and> a = d + of_nat i then m (a - d + s) else m a)" for a
  proof (cases "\<exists>i. Suc l \<le> i \<and> i < k \<and> a = d + of_nat i")
    case True
    then obtain i where i: "Suc l \<le> i" "i < k" "a = d + of_nat i"
      by blast
    then have "a - d + s \<noteq> d + of_nat l"
      using apartD [OF Suc.prems(2) l(2), of i] Suc.prems(1) by (auto simp: user_string_def add.commute)
    moreover have "l \<le> i"
      using i(1) by simp
    ultimately show ?thesis
      using True i by auto
  next
    case False
    then have e: "(\<exists>i. l \<le> i \<and> i < k \<and> a = d + of_nat i) \<longleftrightarrow> a = d + of_nat l"
      using l(1) by (metis Suc_leI le_less order_refl)
    show ?thesis
      unfolding if_not_P [OF False] e by (simp add: add.commute)
  qed
  ultimately show ?case
    using less l(3) by (simp add: strncpy_user_loop.simps [of d s n "of_nat l" m] Let_def add.commute)
qed

section \<open>Correctness\<close>

text \<open>C37: the copies between user and kernel memory check the user's range before they write.
  \<open>copy_from_user\<close>, \<open>copy_to_user\<close> and \<open>clear_user\<close> return 0 and do exactly their copy when the range
  lies between 4 MB and 128 TB; any other range, and a null pointer of the kernel, leaves the
  memory as it was. The error results are positive, 14 and 22: the header's codes are negative
  already. What is written for the user lies in the user's range.\<close>

theorem user_copies_checked:
  assumes "apart dst src n"
  shows "copy_from_user m dst src n =
      (if dst = 0 then (22, m) else if \<not> user_range src n then (14, m)
       else (0, \<lambda>a. if a \<in> range_of dst (unat n) then m (a - dst + src) else m a)) \<and>
    copy_to_user m dst src n =
      (if src = 0 then (22, m) else if \<not> user_range dst n then (14, m)
       else (0, \<lambda>a. if a \<in> range_of dst (unat n) then m (a - dst + src) else m a)) \<and>
    clear_user m dst n =
      (if \<not> user_range dst n then (14, m) else (0, \<lambda>a. if a \<in> range_of dst (unat n) then 0 else m a)) \<and>
    (\<forall>a. snd (clear_user m dst n) a \<noteq> m a \<or> snd (copy_to_user m dst src n) a \<noteq> m a \<longrightarrow>
       0x400000 \<le> unat a \<and> unat a < 0x800000000000)"
proof -
  have c: "snd (memcpy m dst src n) = (\<lambda>a. if a \<in> range_of dst (unat n) then m (a - dst + src) else m a)"
    using assms by (simp add: memcpy_spec apart_def)
  have s: "snd (memset m dst 0 n) = (\<lambda>a. if a \<in> range_of dst (unat n) then 0 else m a)"
    using memset_from_eq [of "unat n" dst 0 m] unat_less_64 [of n] by (simp add: memset_def fun_eq_iff)
  have t: "copy_to_user m dst src n =
      (if src = 0 then (22, m) else if \<not> user_range dst n then (14, m)
       else (0, \<lambda>a. if a \<in> range_of dst (unat n) then m (a - dst + src) else m a))"
    using user_range_nonzero [of dst n] by (auto simp: copy_to_user_def probe_user_write_def probe_user_read_iff c)
  have z: "clear_user m dst n =
      (if \<not> user_range dst n then (14, m) else (0, \<lambda>a. if a \<in> range_of dst (unat n) then 0 else m a))"
    by (simp add: clear_user_def probe_user_write_def probe_user_read_iff s)
  have "copy_from_user m dst src n =
      (if dst = 0 then (22, m) else if \<not> user_range src n then (14, m)
       else (0, \<lambda>a. if a \<in> range_of dst (unat n) then m (a - dst + src) else m a))"
    using user_range_nonzero [of src n] by (auto simp: copy_from_user_def probe_user_read_iff c)
  with t z show ?thesis
    using user_range_addresses [of dst n] by (auto split: if_splits)
qed

definition umem_example :: mem where
  "umem_example a = (if a = 0x400000 then 0x68 else if a = 0x400001 then 0x69 else 0)"

lemma apart_far: "unat d + unat n \<le> unat s \<Longrightarrow> unat s + unat n \<le> 2 ^ 64 \<Longrightarrow> apart d s n"
proof -
  assume a: "unat d + unat n \<le> unat s" "unat s + unat n \<le> 2 ^ 64"
  have "unat (x + of_nat i) = unat x + i" if "i < unat n" "unat x + unat n \<le> 2 ^ 64" for i and x :: u64
    using that unat_less_64 [of n] by (simp add: unat_plus_no_wrap unat_of_nat)
  note u = this
  have "d + of_nat i \<noteq> s + of_nat j" if "i < unat n" "j < unat n" for i j
  proof
    assume "d + of_nat i = s + of_nat j"
    then have "unat d + i = unat s + j"
      using u [OF that(1), of d] u [OF that(2), of s] a by simp
    then show False
      using a(1) that(1) by simp
  qed
  then show ?thesis
    by (auto simp: apart_def range_of_def)
qed

theorem user_copies_checked_witness:
  "fst (copy_from_user umem_example 0x10000 0x400000 2) = 0 \<and>
   snd (copy_from_user umem_example 0x10000 0x400000 2) 0x10001 = 0x69 \<and>
   copy_from_user umem_example 0x10000 0x3FFFFF 2 = (14, umem_example)"
proof -
  have "apart 0x10000 0x400000 2" "apart 0x10000 0x3FFFFF 2"
    by (rule apart_far; simp)+
  moreover have "(0x10001 :: u64) \<in> range_of 0x10000 2"
    by (auto simp: range_of_def intro!: image_eqI [of _ _ 1])
  ultimately show ?thesis
    using user_copies_checked [of "0x10000" "0x400000" 2 umem_example] user_copies_checked [of "0x10000" "0x3FFFFF" 2 umem_example]
    by (simp add: user_range_def umem_example_def)
qed

text \<open>\<open>strncpy_from_user\<close> copies the user's string up to its terminator, or \<open>count - 1\<close> bytes of it,
  always terminates the copy, returns its length and writes nothing else.\<close>

lemma strncpy_from_user_copies:
  assumes "user_range src count" and "dst \<noteq> 0" and "apart dst src count" and "user_string m src count k"
  shows "\<exists>m'. strncpy_from_user m dst src count = (int k, m') \<and>
    cstring m' dst (map (\<lambda>i. m (src + of_nat i)) [0..<k]) \<and> (\<forall>a. a \<notin> range_of dst (k + 1) \<longrightarrow> m' a = m a)"
proof -
  have k: "k < unat count" "unat count < 0x800000000000"
    using assms(1,4) by (auto simp: user_string_def user_range_def)
  let ?m = "(\<lambda>a. if \<exists>i<k. a = dst + of_nat i then m (a - dst + src) else m a)(dst + of_nat k := 0)"
  have inj: "(of_nat i :: u64) \<noteq> of_nat k" if "i < k" for i
    using that k by (simp add: word_unat_eq_iff unat_of_nat)
  have m: "?m (dst + of_nat i) = (if i = k then 0 else m (src + of_nat i))" if "i \<le> k" for i
  proof (cases "i = k")
    case False
    then have "i < k"
      using that by simp
    then have "\<exists>j<k. dst + of_nat i = dst + of_nat j"
      by blast
    then show ?thesis
      using False inj [OF \<open>i < k\<close>] by (simp add: add.commute)
  qed simp
  have cs: "cstring ?m (dst + of_nat j) (map (\<lambda>i. m (src + of_nat i)) [j..<k])" if "j \<le> k" for j
    using that
  proof (induction "k - j" arbitrary: j)
    case (Suc n)
    then have "[j..<k] = j # [Suc j..<k]" "m (src + of_nat j) \<noteq> 0" "j < k"
      using assms(4) by (auto simp: user_string_def upt_rec [of j])
    with Suc.hyps(1) [of "Suc j"] Suc.hyps(2) Suc.prems m [of j] show ?case
      by (simp add: add.assoc add.commute [of 1] del: fun_upd_apply)
  qed (use m [of k] in \<open>simp del: fun_upd_apply\<close>)
  have "sint (of_nat k :: u64) = int k"
    using k by (simp add: signed_of_nat signed_take_bit_int_eq_self)
  then have "strncpy_from_user m dst src count = (int k, ?m)"
    using assms(2) user_range_nonzero [OF assms(1)] k(1) strncpy_user_loop_copies [OF assms(4,3), of 0]
    by (auto simp: strncpy_from_user_def probe_user_read_iff assms(1))
  moreover have "?m a = m a" if "a \<notin> range_of dst (k + 1)" for a
    using that by (auto simp: range_of_def image_iff less_Suc_eq)
  ultimately show ?thesis
    using cs [of 0] by (auto simp del: fun_upd_apply)
qed

lemma strncpy_from_user_copies_witness:
  "\<exists>m. strncpy_from_user umem_example 0x10000 0x400000 16 = (2, m) \<and> cstring m 0x10000 [0x68, 0x69]"
proof -
  have "apart 0x10000 0x400000 16"
    by (rule apart_far) simp_all
  moreover have "user_string umem_example 0x400000 16 2"
    by (auto simp: user_string_def umem_example_def less_2_cases_iff)
  ultimately show ?thesis
    using strncpy_from_user_copies [of "0x400000" 16 "0x10000" umem_example 2]
    by (auto simp: user_range_def umem_example_def upt_rec)
qed

end
