(* ===== verification/Vm.thy ===== *)
theory Vm
  imports Object_Cache
begin

text \<open>
  Address spaces of processes, \<^verbatim>\<open>src/kernel/vm.c\<close>. An address space and a region of it are the
  addresses of their structures, objects of two slab caches; their fields are records found by
  those addresses. The cells of the lists are the head \<open>regions\<close> of an address space and the link
  of a region. The top level page table is a page of words of the monitor's memory. 0 is the
  null pointer; \<open>None\<close> as a result is a call that does not return. Operations under the lock of
  an address space are one step, and log output is not modelled.
\<close>

section \<open>State\<close>

datatype vm_region_type_t = VM_REGION_NONE | VM_REGION_CODE | VM_REGION_DATA | VM_REGION_RODATA | VM_REGION_STACK
  | VM_REGION_HEAP | VM_REGION_MMAP | VM_REGION_SHARED

record vm_region =
  region_type :: vm_region_type_t
  region_start :: u64
  region_end :: u64
  region_phys :: u64
  region_flags :: u64
  region_perm :: u32
  region_name :: string

record address_space =
  as_refcount :: int
  as_pml4_phys :: u64
  as_pml4 :: u64
  region_count :: int
  as_brk :: u64
  as_start_brk :: u64

datatype vm_node = Regions u64 | RNode u64

record vm_sys =
  vm_slab :: slab_state
  vm_links :: "vm_node list_store"
  spaces :: "u64 \<Rightarrow> address_space"
  vm_regions :: "u64 \<Rightarrow> vm_region"
  master_kernel_pml4 :: u64

abbreviation ADDRESS_SPACE_CACHE :: nat where "ADDRESS_SPACE_CACHE \<equiv> 9"
abbreviation VM_REGION_CACHE :: nat where "VM_REGION_CACHE \<equiv> 10"
abbreviation USER_HEAP_BASE :: u64 where "USER_HEAP_BASE \<equiv> 0x1000000"
abbreviation AS_SHARE_KERNEL :: u32 where "AS_SHARE_KERNEL \<equiv> 1"
abbreviation PT_WRITE :: u64 where "PT_WRITE \<equiv> 2"
abbreviation PT_NX :: u64 where "PT_NX \<equiv> 0x8000000000000000"
abbreviation VM_PERM_READ :: u32 where "VM_PERM_READ \<equiv> 1"
abbreviation VM_PERM_WRITE :: u32 where "VM_PERM_WRITE \<equiv> 2"
abbreviation VM_PERM_EXEC :: u32 where "VM_PERM_EXEC \<equiv> 4"

abbreviation vm_mon :: "vm_sys \<Rightarrow> mon_state" where
  "vm_mon S \<equiv> slab_mon (vm_slab S)"

definition set_vm_mon :: "vm_sys \<Rightarrow> mon_state \<Rightarrow> vm_sys" where
  "set_vm_mon S m = S\<lparr>vm_slab := (vm_slab S)\<lparr>slab_mon := m\<rparr>\<rparr>"

definition upd_space :: "u64 \<Rightarrow> (address_space \<Rightarrow> address_space) \<Rightarrow> vm_sys \<Rightarrow> vm_sys" where
  "upd_space a f S = S\<lparr>spaces := (spaces S)(a := f (spaces S a))\<rparr>"

fun region_entry :: "vm_node \<Rightarrow> u64" where
  "region_entry (RNode r) = r"
| "region_entry (Regions a) = 0"

section \<open>Operations\<close>

text \<open>The sizes of the two structures are 64 and 96 bytes.\<close>

definition vm_init :: "u64 \<Rightarrow> vm_sys \<Rightarrow> vm_sys" where
  "vm_init pml4 S =
     (let S = S\<lparr>master_kernel_pml4 := pml4\<rparr>;
          (ret, s) = slab_cache_create (vm_slab S) (Some ADDRESS_SPACE_CACHE) 64;
          S = S\<lparr>vm_slab := s\<rparr>
      in if ret \<noteq> 0 then S
         else let (ret, s) = slab_cache_create (vm_slab S) (Some VM_REGION_CACHE) 96
              in S\<lparr>vm_slab := s\<rparr>)"

definition space_zero :: address_space where
  "space_zero = \<lparr>as_refcount = 0, as_pml4_phys = 0, as_pml4 = 0, region_count = 0, as_brk = 0, as_start_brk = 0\<rparr>"

definition copy_kernel_entries :: "u64 \<Rightarrow> u64 \<Rightarrow> mon_state \<Rightarrow> mon_state" where
  "copy_kernel_entries master new_pml4 m =
     fold (\<lambda>i m. pt_write m new_pml4 (of_nat i) (pt_read m master (of_nat i))) [256..<512] m"

definition vm_create_address_space :: "vm_sys \<Rightarrow> u32 \<Rightarrow> (u64 \<times> vm_sys) option" where
  "vm_create_address_space S flags =
     Option.bind (slab_alloc (vm_slab S) (Some ADDRESS_SPACE_CACHE)) (\<lambda>(as, s).
       let S = S\<lparr>vm_slab := s\<rparr>
       in if as = 0 then Some (0, S)
          else let S = upd_space as (\<lambda>_. space_zero) S;
                   (new_pml4, m) = mon_pmm_alloc (vm_mon S) 0;
                   S = set_vm_mon S m
               in if new_pml4 = 0 then Some (0, S\<lparr>vm_slab := slab_free (vm_slab S) (Some ADDRESS_SPACE_CACHE) as\<rparr>)
                  else let S = set_vm_mon S (clear_table (vm_mon S) new_pml4);
                           S = upd_space as (\<lambda>x. x\<lparr>as_pml4 := new_pml4, as_pml4_phys := new_pml4\<rparr>) S;
                           S = S\<lparr>vm_links := list_init (vm_links S) (Regions as)\<rparr>;
                           S = upd_space as (\<lambda>x. x\<lparr>region_count := 0, as_start_brk := USER_HEAP_BASE,
                                 as_brk := USER_HEAP_BASE, as_refcount := 1\<rparr>) S;
                           S = (if flags AND AS_SHARE_KERNEL \<noteq> 0
                                then set_vm_mon S (copy_kernel_entries (master_kernel_pml4 S) new_pml4 (vm_mon S)) else S)
                       in Some (as, S))"

text \<open>The loop \<open>list_for_each_safe\<close> over the regions from the cell \<open>pos\<close>.\<close>

partial_function (option) free_regions :: "vm_node \<Rightarrow> vm_node \<Rightarrow> vm_sys \<Rightarrow> vm_sys option" where
  "free_regions head pos S =
     (if pos = head then Some S
      else let n = nxt (vm_links S) pos;
               region = region_entry pos;
               S = S\<lparr>vm_links := list_remove (vm_links S) pos\<rparr>;
               S = S\<lparr>vm_slab := slab_free (vm_slab S) (Some VM_REGION_CACHE) region\<rparr>
           in free_regions head n S)"

definition vm_destroy_address_space :: "vm_sys \<Rightarrow> u64 \<Rightarrow> vm_sys option" where
  "vm_destroy_address_space S as =
     (if as = 0 then Some S
      else Option.bind (free_regions (Regions as) (nxt (vm_links S) (Regions as)) S) (\<lambda>S.
           Option.bind (phys_free (phys (vm_mon S)) (as_pml4 (spaces S as)) 0) (\<lambda>p.
           let S = set_vm_mon S ((vm_mon S)\<lparr>phys := p\<rparr>)
           in Some (S\<lparr>vm_slab := slab_free (vm_slab S) (Some ADDRESS_SPACE_CACHE) as\<rparr>))))"

definition vm_get_address_space :: "vm_sys \<Rightarrow> u64 \<Rightarrow> vm_sys" where
  "vm_get_address_space S as =
     (if as \<noteq> 0 then upd_space as (\<lambda>x. x\<lparr>as_refcount := as_refcount x + 1\<rparr>) S else S)"

definition vm_put_address_space :: "vm_sys \<Rightarrow> u64 \<Rightarrow> vm_sys option" where
  "vm_put_address_space S as =
     (if as \<noteq> 0 then
        let S = upd_space as (\<lambda>x. x\<lparr>as_refcount := as_refcount x - 1\<rparr>) S
        in if as_refcount (spaces S as) \<le> 0 then vm_destroy_address_space S as else Some S
      else Some S)"

definition vm_switch_address_space :: "vm_sys \<Rightarrow> u64 \<Rightarrow> vm_sys" where
  "vm_switch_address_space S as =
     (if as = 0 then S
      else let v = as_pml4_phys (spaces S as) AND NOT 0xFFF
           in set_vm_mon S ((vm_mon S)\<lparr>cr3 := v\<rparr>))"

text \<open>The permission bits set from the page table flags, and the array \<open>name\<close>.\<close>

definition perm_of_flags :: "u64 \<Rightarrow> u32" where
  "perm_of_flags flags =
     (let perm = 0;
          perm = (if flags AND PT_WRITE \<noteq> 0 then perm OR VM_PERM_WRITE else perm);
          perm = (if flags AND PT_NX \<noteq> 0 then perm AND NOT VM_PERM_EXEC else perm OR VM_PERM_EXEC)
      in perm OR VM_PERM_READ)"

definition vm_region_name :: "string option \<Rightarrow> string" where
  "vm_region_name name = (case name of Some n \<Rightarrow> take 31 n | None \<Rightarrow> ''anonymous'')"

text \<open>The loop over the pages of the region has no effect.\<close>

definition vm_map_region ::
    "vm_sys \<Rightarrow> u64 \<Rightarrow> u64 \<Rightarrow> u64 \<Rightarrow> u64 \<Rightarrow> u64 \<Rightarrow> vm_region_type_t \<Rightarrow> string option \<Rightarrow> (int \<times> vm_sys) option" where
  "vm_map_region S as start pbase sz flags type name =
     (if start AND (PAGE_SIZE - 1) \<noteq> 0 \<or> pbase AND (PAGE_SIZE - 1) \<noteq> 0 then Some (-22, S)
      else if sz AND (PAGE_SIZE - 1) \<noteq> 0 \<or> sz = 0 then Some (-22, S)
      else Option.bind (slab_alloc (vm_slab S) (Some VM_REGION_CACHE)) (\<lambda>(region, s).
        let S = S\<lparr>vm_slab := s\<rparr>
        in if region = 0 then Some (-12, S)
           else let S = S\<lparr>vm_regions := (vm_regions S)(region := \<lparr>region_type = type, region_start = start,
                          region_end = start + sz, region_phys = pbase, region_flags = flags,
                          region_perm = perm_of_flags flags, region_name = vm_region_name name\<rparr>)\<rparr>;
                    S = S\<lparr>vm_links := list_push_back (vm_links S) (Regions as) (RNode region)\<rparr>
                in Some (0, upd_space as (\<lambda>x. x\<lparr>region_count := region_count x + 1\<rparr>) S)))"

definition in_region :: "vm_sys \<Rightarrow> u64 \<Rightarrow> u64 \<Rightarrow> bool" where
  "in_region S addr r \<longleftrightarrow> addr \<ge> region_start (vm_regions S r) \<and> addr < region_end (vm_regions S r)"

definition vm_find_region :: "vm_sys \<Rightarrow> u64 \<Rightarrow> u64 \<Rightarrow> u64 option" where
  "vm_find_region S as addr =
     map_option (\<lambda>pos. case pos of Some pos \<Rightarrow> region_entry pos | None \<Rightarrow> 0)
       (list_find (vm_links S) (Regions as) (\<lambda>pos. in_region S addr (region_entry pos)))"

text \<open>The loop of \<open>vm_clone_address_space\<close> over the regions of the source from the cell \<open>pos\<close>. The
  copied link is overwritten when the new region is put on its list.\<close>

partial_function (option) clone_regions :: "vm_node \<Rightarrow> u64 \<Rightarrow> vm_node \<Rightarrow> vm_sys \<Rightarrow> (u64 \<times> vm_sys) option" where
  "clone_regions head as pos S =
     (if pos = head then Some (as, S)
      else Option.bind (slab_alloc (vm_slab S) (Some VM_REGION_CACHE)) (\<lambda>(new_region, s).
        let S = S\<lparr>vm_slab := s\<rparr>
        in if new_region = 0 then Option.bind (vm_destroy_address_space S as) (\<lambda>S. Some (0, S))
           else let S = S\<lparr>vm_regions := (vm_regions S)(new_region := vm_regions S (region_entry pos))\<rparr>;
                    S = S\<lparr>vm_links := list_push_back (vm_links S) (Regions as) (RNode new_region)\<rparr>;
                    S = upd_space as (\<lambda>x. x\<lparr>region_count := region_count x + 1\<rparr>) S
                in clone_regions head as (nxt (vm_links S) pos) S))"

definition vm_clone_address_space :: "vm_sys \<Rightarrow> u64 \<Rightarrow> (u64 \<times> vm_sys) option" where
  "vm_clone_address_space S src =
     Option.bind (vm_create_address_space S AS_SHARE_KERNEL) (\<lambda>(as, S).
       if as = 0 then Some (0, S)
       else let S = upd_space as (\<lambda>x. x\<lparr>as_start_brk := as_start_brk (spaces S src), as_brk := as_brk (spaces S src)\<rparr>) S
            in clone_regions (Regions src) as (nxt (vm_links S) (Regions src)) S)"

definition vm_unmap_region :: "vm_sys \<Rightarrow> u64 \<Rightarrow> u64 \<Rightarrow> u64 \<Rightarrow> (int \<times> vm_sys) option" where
  "vm_unmap_region S as start sz =
     (if as = 0 then Some (-22, S)
      else if start AND (PAGE_SIZE - 1) \<noteq> 0 \<or> sz AND (PAGE_SIZE - 1) \<noteq> 0 then Some (-22, S)
      else map_option (\<lambda>pos.
             case pos of
               None \<Rightarrow> (-2, S)
             | Some pos \<Rightarrow>
                 let region = region_entry pos;
                     S = S\<lparr>vm_links := list_remove (vm_links S) pos\<rparr>;
                     S = S\<lparr>vm_slab := slab_free (vm_slab S) (Some VM_REGION_CACHE) region\<rparr>
                 in (0, upd_space as (\<lambda>x. x\<lparr>region_count := region_count x - 1\<rparr>) S))
           (list_find (vm_links S) (Regions as)
              (\<lambda>pos. region_start (vm_regions S (region_entry pos)) = start \<and>
                     region_end (vm_regions S (region_entry pos)) = start + sz)))"

end
