(* ===== verification/Vm_Props.thy ===== *)
theory Vm_Props
  imports Vm Kmap_Pages
begin

text \<open>
  Properties of the address spaces: every live address space has a top level page table of its
  own and a list of live regions of its own, which mapping, unmapping, cloning and destroying
  act on as on lists; and what the structures of one cache see of allocations in another.
\<close>

section \<open>Several caches\<close>

lemma cache_alloc:
  assumes ok: "slab_ok C s" and c: "c \<in> C" and al: "slab_alloc s (Some c) = Some (a, s')"
  shows "slab_ok C s'" "cache_live C d s' = (if d = c \<and> a \<noteq> 0 then insert a (cache_live C d s) else cache_live C d s)"
    "a \<noteq> 0 \<Longrightarrow> a \<notin> cache_live C d s"
proof -
  note sp = slab_alloc_spec [OF ok c]
  show "slab_ok C s'"
    using sp al by auto
  show "cache_live C d s' = (if d = c \<and> a \<noteq> 0 then insert a (cache_live C d s) else cache_live C d s)"
    using sp al slab_alloc_ptr [OF ok al] by (cases "a = 0") (auto simp: cache_live_def)
  show "a \<noteq> 0 \<Longrightarrow> a \<notin> cache_live C d s"
    using sp al by (auto simp: cache_live_def)
qed

lemma cache_release:
  assumes ok: "slab_ok C s" and a: "a \<in> cache_live C c s"
  shows "slab_ok C (slab_free s (Some c) a)" "cache_live C d (slab_free s (Some c) a) = cache_live C d s - {a}"
    "slab_pages C (slab_free s (Some c) a) = slab_pages C s"
  using slab_free_spec [OF ok, of a c] slab_free_slabs [OF ok, of a c] a by (auto simp: cache_live_def slab_free_ptr)

lemma cache_apart: "a \<in> cache_live C c s \<Longrightarrow> c \<noteq> d \<Longrightarrow> a \<notin> cache_live C d s"
  by (simp add: cache_live_def)

section \<open>The invariant\<close>

abbreviation live_spaces :: "nat set \<Rightarrow> vm_sys \<Rightarrow> u64 set" where
  "live_spaces C S \<equiv> cache_live C ADDRESS_SPACE_CACHE (vm_slab S)"

abbreviation live_regions :: "nat set \<Rightarrow> vm_sys \<Rightarrow> u64 set" where
  "live_regions C S \<equiv> cache_live C VM_REGION_CACHE (vm_slab S)"

abbreviation vm_allocs :: "vm_sys \<Rightarrow> (u64 \<times> nat) set" where
  "vm_allocs S \<equiv> allocs (pmm (phys (vm_mon S)))"

text \<open>The lists of cells when the address space \<open>a\<close> has the regions \<open>R a\<close>.\<close>

fun vlist :: "(u64 \<Rightarrow> u64 list) \<Rightarrow> vm_node \<Rightarrow> vm_node list" where
  "vlist R (Regions a) = map RNode (R a)"
| "vlist R (RNode r) = []"

lemma vlist_upd: "(vlist R)(Regions a := map RNode xs) = vlist (R(a := xs))"
proof
  show "((vlist R)(Regions a := map RNode xs)) x = vlist (R(a := xs)) x" for x
    by (cases x) auto
qed

definition pml4_ok :: "nat set \<Rightarrow> vm_sys \<Rightarrow> u64 \<Rightarrow> bool" where
  "pml4_ok C S a \<longleftrightarrow> as_pml4 (spaces S a) \<noteq> 0 \<and> (as_pml4 (spaces S a), 0) \<in> vm_allocs S \<and>
     as_pml4 (spaces S a) \<notin> slab_pages C (vm_slab S)"

definition vm_core :: "nat set \<Rightarrow> vm_sys \<Rightarrow> (u64 \<Rightarrow> u64 list) \<Rightarrow> bool" where
  "vm_core C S R \<longleftrightarrow> slab_ok C (vm_slab S) \<and> ADDRESS_SPACE_CACHE \<in> C \<and> VM_REGION_CACHE \<in> C \<and>
     rings (vm_links S) (Regions ` live_spaces C S) (vlist R) \<and>
     (\<forall>a\<in>live_spaces C S. set (R a) \<subseteq> live_regions C S \<and> pml4_ok C S a) \<and>
     inj_on (\<lambda>a. as_pml4 (spaces S a)) (live_spaces C S)"

definition vm_inv :: "nat set \<Rightarrow> vm_sys \<Rightarrow> (u64 \<Rightarrow> u64 list) \<Rightarrow> bool" where
  "vm_inv C S R \<longleftrightarrow> vm_core C S R \<and> (\<forall>a\<in>live_spaces C S. region_count (spaces S a) = int (length (R a)))"

lemma vm_coreD:
  assumes "vm_core C S R"
  shows "slab_ok C (vm_slab S)" "ADDRESS_SPACE_CACHE \<in> C" "VM_REGION_CACHE \<in> C"
    "rings (vm_links S) (Regions ` live_spaces C S) (vlist R)" "pmm_inv (pmm (phys (vm_mon S)))"
    "a \<in> live_spaces C S \<Longrightarrow> set (R a) \<subseteq> live_regions C S" "a \<in> live_spaces C S \<Longrightarrow> pml4_ok C S a"
    "inj_on (\<lambda>a. as_pml4 (spaces S a)) (live_spaces C S)"
    "a \<in> live_spaces C S \<Longrightarrow> a \<noteq> 0"
    "p \<in> slab_pages C (vm_slab S) \<Longrightarrow> (p, 0) \<in> vm_allocs S"
  using assms slab_ok_inv(2,3) oc.live_nonnull [of C "vm_slab S" ADDRESS_SPACE_CACHE] by (auto simp: vm_core_def)

lemma rings_mono: "rings h P L \<Longrightarrow> Q \<subseteq> P \<Longrightarrow> rings h Q L"
  unfolding rings_def by blast

lemma vm_ring:
  assumes "vm_core C S R" "a \<in> live_spaces C S"
  shows "ring (vm_links S) (Regions a) (map RNode (R a))" "distinct (R a)"
proof -
  show r: "ring (vm_links S) (Regions a) (map RNode (R a))"
    using rings_ring [OF vm_coreD(4) [OF assms(1)], of "Regions a"] assms(2) by simp
  then show "distinct (R a)"
    using ring_distinct [OF r] by (simp add: distinct_map)
qed

lemma vm_lists_apart:
  assumes "vm_core C S R" "a \<in> live_spaces C S" "b \<in> live_spaces C S" "a \<noteq> b"
  shows "set (R a) \<inter> set (R b) = {}"
  using rings_disjoint [OF vm_coreD(4) [OF assms(1)], of "Regions a" "Regions b"] assms(2-4) by (auto simp: cells_def)

lemma vm_cells: "RNode r \<in> in_rings (Regions ` A) (vlist R) \<longleftrightarrow> (\<exists>a\<in>A. r \<in> set (R a))"
  "Regions b \<in> in_rings (Regions ` A) (vlist R) \<longleftrightarrow> b \<in> A"
  by (auto simp: in_rings_def cells_def)

text \<open>What the invariant depends on.\<close>

lemma vm_core_cong:
  assumes "vm_core C S R" "vm_slab S' = vm_slab S" "vm_links S' = vm_links S"
    "\<And>a. a \<in> live_spaces C S \<Longrightarrow> as_pml4 (spaces S' a) = as_pml4 (spaces S a)"
  shows "vm_core C S' R"
  using assms by (auto simp: vm_core_def pml4_ok_def inj_on_def)

section \<open>Steps\<close>

lemma region_alloc_step:
  assumes inv: "vm_core C S R" and al: "slab_alloc (vm_slab S) (Some VM_REGION_CACHE) = Some (g, s)"
  shows "vm_core C (S\<lparr>vm_slab := s\<rparr>) R" "cache_live C ADDRESS_SPACE_CACHE s = live_spaces C S"
    "cache_live C VM_REGION_CACHE s = (if g = 0 then live_regions C S else insert g (live_regions C S))"
    "g \<noteq> 0 \<Longrightarrow> g \<notin> live_regions C S"
proof -
  note D = vm_coreD [OF inv]
  note A = cache_alloc [OF D(1,3) al]
  show sp: "cache_live C ADDRESS_SPACE_CACHE s = live_spaces C S"
    using A(2) [of ADDRESS_SPACE_CACHE] by simp
  show rg: "cache_live C VM_REGION_CACHE s = (if g = 0 then live_regions C S else insert g (live_regions C S))"
    using A(2) [of VM_REGION_CACHE] by simp
  show "g \<noteq> 0 \<Longrightarrow> g \<notin> live_regions C S"
    using A(3) [of VM_REGION_CACHE] by simp
  have "pml4_ok C (S\<lparr>vm_slab := s\<rparr>) a" if "a \<in> live_spaces C S" for a
    using D(7) [OF that] slab_alloc_pages(1) [OF D(1,3) al] slab_alloc_slabs(2) [OF D(1,3) al]
    by (auto simp: pml4_ok_def)
  moreover have "set (R a) \<subseteq> cache_live C VM_REGION_CACHE s" if "a \<in> live_spaces C S" for a
    using D(6) [OF that] rg by auto
  ultimately show "vm_core C (S\<lparr>vm_slab := s\<rparr>) R"
    using inv A(1) by (simp add: vm_core_def sp)
qed

lemma region_append_step:
  assumes inv: "vm_core C S R" and a: "a \<in> live_spaces C S" and g: "g \<in> live_regions C S"
    and new: "\<And>b. b \<in> live_spaces C S \<Longrightarrow> g \<notin> set (R b)"
  shows "vm_core C (S\<lparr>vm_links := list_push_back (vm_links S) (Regions a) (RNode g)\<rparr>) (R(a := R a @ [g]))"
proof -
  note D = vm_coreD [OF inv]
  have "RNode g \<notin> in_rings (Regions ` live_spaces C S) (vlist R)"
    using new by (auto simp: vm_cells)
  from rings_push_back [OF D(4) _ this, of "Regions a"] a
  have "rings (list_push_back (vm_links S) (Regions a) (RNode g)) (Regions ` live_spaces C S) (vlist (R(a := R a @ [g])))"
    by (simp flip: vlist_upd)
  then show ?thesis
    using inv g by (auto simp: vm_core_def pml4_ok_def)
qed

lemma remove1_RNode: "remove1 (RNode g) (map RNode xs) = map RNode (remove1 g xs)"
  by (induction xs) auto

lemma region_remove_step:
  assumes inv: "vm_core C S R" and a: "a \<in> live_spaces C S" and g: "g \<in> set (R a)"
    and S': "S' = S\<lparr>vm_links := list_remove (vm_links S) (RNode g), vm_slab := slab_free (vm_slab S) (Some VM_REGION_CACHE) g\<rparr>"
  shows "vm_core C S' (R(a := remove1 g (R a)))" "live_spaces C S' = live_spaces C S" "live_regions C S' = live_regions C S - {g}"
    "phys (vm_mon S') = phys (vm_mon S)" "spaces S' = spaces S"
proof -
  note D = vm_coreD [OF inv]
  have gl: "g \<in> live_regions C S"
    using D(6) [OF a] g by auto
  note F = cache_release [OF D(1) gl]
  show sp: "live_spaces C S' = live_spaces C S"
    using F(2) [of ADDRESS_SPACE_CACHE] cache_apart [OF gl, of ADDRESS_SPACE_CACHE] by (simp add: S')
  show rg: "live_regions C S' = live_regions C S - {g}"
    using F(2) [of VM_REGION_CACHE] by (simp add: S')
  show "phys (vm_mon S') = phys (vm_mon S)" "spaces S' = spaces S"
    by (simp_all add: S')
  have "rings (list_remove (vm_links S) (RNode g)) (Regions ` live_spaces C S) (vlist (R(a := remove1 g (R a))))"
    using rings_remove [OF D(4), of "Regions a" "RNode g"] a g by (simp add: remove1_RNode flip: vlist_upd)
  moreover have "set ((R(a := remove1 g (R a))) b) \<subseteq> live_regions C S - {g}" if b: "b \<in> live_spaces C S" for b
    using D(6) [OF b] vm_ring(2) [OF inv a] vm_lists_apart [OF inv a b] g by (cases "b = a") (auto simp: set_remove1_eq)
  ultimately show "vm_core C S' (R(a := remove1 g (R a)))"
    using inv F(1,3) sp rg by (auto simp: vm_core_def pml4_ok_def S' simp del: fun_upd_apply)
qed

section \<open>Destroying\<close>

lemma free_regions_spec:
  assumes "vm_core C S R" "a \<in> live_spaces C S"
  shows "\<exists>S'. free_regions (Regions a) (nxt (vm_links S) (Regions a)) S = Some S' \<and> vm_core C S' (R(a := [])) \<and>
    live_spaces C S' = live_spaces C S \<and> live_regions C S' = live_regions C S - set (R a) \<and>
    phys (vm_mon S') = phys (vm_mon S) \<and> spaces S' = spaces S \<and> vm_regions S' = vm_regions S"
  using assms
proof (induction "R a" arbitrary: S R)
  case Nil
  have "nxt (vm_links S) (Regions a) = Regions a"
    using vm_ring(1) [OF Nil.prems] Nil.hyps by (simp add: ring_Nil)
  moreover have "R(a := []) = R"
    using Nil.hyps by (simp add: fun_upd_idem)
  ultimately show ?case
    using Nil by (simp add: free_regions.simps)
next
  case (Cons g gs)
  let ?T = "S\<lparr>vm_links := list_remove (vm_links S) (RNode g), vm_slab := slab_free (vm_slab S) (Some VM_REGION_CACHE) g\<rparr>"
  note r = vm_ring [OF Cons.prems]
  have g: "g \<in> set (R a)" "remove1 g (R a) = gs" "g \<notin> set gs"
    using r(2) by (simp_all flip: Cons.hyps(2))
  note T = region_remove_step [OF Cons.prems g(1) refl]
  have p: "nxt (vm_links S) (Regions a) = RNode g" "nxt (vm_links S) (RNode g) = hd (map RNode gs @ [Regions a])"
    using ring_next_head [OF r(1)] ring_next_cell [of "vm_links S" "Regions a" "[]" "RNode g" "map RNode gs"] r(1)
    by (simp_all flip: Cons.hyps(2))
  have "ring (vm_links ?T) (Regions a) (map RNode gs)"
    using vm_ring(1) [OF T(1), of a] Cons.prems(2) T(2) g(2) by simp
  then have n: "nxt (vm_links S) (RNode g) = nxt (vm_links ?T) (Regions a)"
    using ring_next_head p(2) by metis
  obtain S' where S': "free_regions (Regions a) (nxt (vm_links ?T) (Regions a)) ?T = Some S'"
      "vm_core C S' ((R(a := gs))(a := []))" "live_spaces C S' = live_spaces C ?T"
      "live_regions C S' = live_regions C ?T - set gs" "phys (vm_mon S') = phys (vm_mon ?T)" "spaces S' = spaces ?T"
      "vm_regions S' = vm_regions ?T"
    using Cons.hyps(1) [of "R(a := gs)" ?T] T(1,2) Cons.prems(2) g(2) by auto
  have "free_regions (Regions a) (nxt (vm_links S) (Regions a)) S = Some S'"
    using S'(1) n by (simp add: p(1) free_regions.simps [of "Regions a" "RNode g"] Let_def)
  then show ?case
    using S'(2-7) T(2-5) by (auto simp flip: Cons.hyps(2))
qed

lemma destroy_spec:
  assumes inv: "vm_core C S R" and a: "a \<in> live_spaces C S"
  shows "\<exists>S'. vm_destroy_address_space S a = Some S' \<and> vm_core C S' (R(a := [])) \<and>
    live_spaces C S' = live_spaces C S - {a} \<and> live_regions C S' = live_regions C S - set (R a) \<and>
    vm_allocs S' = vm_allocs S - {(as_pml4 (spaces S a), 0)} \<and> spaces S' = spaces S \<and> vm_regions S' = vm_regions S"
proof -
  let ?p = "as_pml4 (spaces S a)"
  obtain T where T: "free_regions (Regions a) (nxt (vm_links S) (Regions a)) S = Some T" "vm_core C T (R(a := []))"
      "live_spaces C T = live_spaces C S" "live_regions C T = live_regions C S - set (R a)"
      "phys (vm_mon T) = phys (vm_mon S)" "spaces T = spaces S" "vm_regions T = vm_regions S"
    using free_regions_spec [OF assms] by blast
  note D = vm_coreD [OF T(2)]
  have p: "(?p, 0) \<in> vm_allocs T" "?p \<notin> slab_pages C (vm_slab T)"
    using D(7) [of a] a T(3,6) by (auto simp: pml4_ok_def)
  obtain q where q: "phys_free (phys (vm_mon T)) ?p 0 = Some q" "pmm_inv (pmm q)" "allocs (pmm q) = vm_allocs T - {(?p, 0)}"
    using pa.release_block [OF D(5), of ?p 0] p(1) by auto
  let ?s = "(vm_slab T)\<lparr>slab_mon := (vm_mon T)\<lparr>phys := q\<rparr>\<rparr>"
  have pg: "(x, 0) \<in> allocs (pmm (phys ((vm_mon T)\<lparr>phys := q\<rparr>)))" if "x \<in> slab_pages C (vm_slab T)" for x
    using D(10) [OF that] p(2) that q(3) by auto
  have M: "slab_ok C ?s" "slab_pages C ?s = slab_pages C (vm_slab T)" "cache_live C c ?s = cache_live C c (vm_slab T)" for c
    using slab_ok_mon [OF D(1), of "(vm_mon T)\<lparr>phys := q\<rparr>"] q(2) pg by simp_all
  have as: "a \<in> cache_live C ADDRESS_SPACE_CACHE ?s"
    using M(3) a T(3) by simp
  note F = cache_release [OF M(1) as]
  let ?S = "T\<lparr>vm_slab := slab_free ?s (Some ADDRESS_SPACE_CACHE) a\<rparr>"
  have live: "live_spaces C ?S = live_spaces C S - {a}" "live_regions C ?S = live_regions C S - set (R a)"
    using F(2) M(3) T(3,4) cache_apart [OF as, of VM_REGION_CACHE] by auto
  have "vm_destroy_address_space S a = Some ?S"
    using T(1) q(1) vm_coreD(9) [OF inv a] by (simp add: vm_destroy_address_space_def set_vm_mon_def T(6))
  moreover have "rings (vm_links T) (Regions ` (live_spaces C S - {a})) (vlist (R(a := [])))"
    by (rule rings_mono [OF D(4)]) (use T(3) in auto)
  then have "vm_core C ?S (R(a := []))"
    unfolding vm_core_def live
  proof (intro conjI ballI)
    fix b
    assume b: "b \<in> live_spaces C S - {a}"
    then show "set ((R(a := [])) b) \<subseteq> live_regions C S - set (R a)"
      using D(6) [of b] T(3,4) by auto
    have "as_pml4 (spaces S b) \<noteq> ?p"
      using inj_onD [OF D(8), of b a] b a T(3,6) by auto
    then show "pml4_ok C ?S b"
      using D(7) [of b] b T(3,6) F(3) M(2) q(3) by (simp add: pml4_ok_def)
  next
    show "inj_on (\<lambda>a. as_pml4 (spaces ?S a)) (live_spaces C S - {a})"
      using D(8) T(3) by (simp add: inj_on_diff)
  qed (use F(1) D(2,3) in simp_all)
  ultimately show ?thesis
    using live q(3) T(5-7) by simp
qed

section \<open>Creating\<close>

lemma copy_kernel_entries_phys [simp]: "phys (copy_kernel_entries master t m) = phys m"
proof -
  have "phys (fold (\<lambda>i m. pt_write m t (of_nat i) (pt_read m master (of_nat i))) is m) = phys m" for "is"
    by (induction "is" arbitrary: m) (simp_all add: pt_write_def)
  then show ?thesis
    unfolding copy_kernel_entries_def .
qed

definition new_space :: "u64 \<Rightarrow> address_space" where
  "new_space p = \<lparr>as_refcount = 1, as_pml4_phys = p, as_pml4 = p, region_count = 0, as_brk = USER_HEAP_BASE,
     as_start_brk = USER_HEAP_BASE\<rparr>"

definition new_pml4_mem :: "u64 \<Rightarrow> u32 \<Rightarrow> u64 \<Rightarrow> mon_state \<Rightarrow> mon_state" where
  "new_pml4_mem master flags p m =
     (if flags AND AS_SHARE_KERNEL \<noteq> 0 then copy_kernel_entries master p (clear_table m p) else clear_table m p)"

text \<open>The three outcomes of \<open>vm_create_address_space\<close>, given what the allocators return.\<close>

lemma create_outcomes:
  assumes "slab_alloc (vm_slab S) (Some ADDRESS_SPACE_CACHE) = Some (a, s)" "pmm_alloc (phys (slab_mon s)) 0 = (p, q)"
  obtains (no_object) "a = 0" "vm_create_address_space S flags = Some (0, S\<lparr>vm_slab := s\<rparr>)"
    | (no_page) "a \<noteq> 0" "p = 0" "vm_create_address_space S flags =
        Some (0, S\<lparr>spaces := (spaces S)(a := space_zero),
          vm_slab := slab_free (s\<lparr>slab_mon := (slab_mon s)\<lparr>phys := q\<rparr>\<rparr>) (Some ADDRESS_SPACE_CACHE) a\<rparr>)"
    | (created) "a \<noteq> 0" "p \<noteq> 0" "vm_create_address_space S flags =
        Some (a, S\<lparr>spaces := (spaces S)(a := new_space p), vm_links := list_init (vm_links S) (Regions a),
          vm_slab := s\<lparr>slab_mon := new_pml4_mem (master_kernel_pml4 S) flags p ((slab_mon s)\<lparr>phys := q\<rparr>)\<rparr>\<rparr>)"
proof -
  consider "a = 0" | "a \<noteq> 0" "p = 0" | "a \<noteq> 0" "p \<noteq> 0"
    by blast
  then show thesis
  proof cases
    case 1
    then show thesis
      using assms by (intro no_object) (simp_all add: vm_create_address_space_def Let_def)
  next
    case 2
    then show thesis
      using assms by (intro no_page)
        (simp_all add: vm_create_address_space_def Let_def upd_space_def set_vm_mon_def mon_pmm_alloc_def)
  next
    case 3
    then show thesis
      using assms by (intro created)
        (simp_all add: vm_create_address_space_def Let_def upd_space_def set_vm_mon_def mon_pmm_alloc_def
          new_space_def space_zero_def new_pml4_mem_def)
  qed
qed

lemma page_phase:
  assumes ok: "slab_ok C s" and al: "pmm_alloc (phys (slab_mon s)) ord = (p, q)" and m: "phys m = q"
  shows "slab_ok C (s\<lparr>slab_mon := m\<rparr>)" "slab_pages C (s\<lparr>slab_mon := m\<rparr>) = slab_pages C s"
    "cache_live C c (s\<lparr>slab_mon := m\<rparr>) = cache_live C c s" "allocs (pmm (phys (slab_mon s))) \<subseteq> allocs (pmm q)"
    "p \<noteq> 0 \<Longrightarrow> (p, ord) \<notin> allocs (pmm (phys (slab_mon s))) \<and> (p, ord) \<in> allocs (pmm q)"
proof -
  have pi: "pmm_inv (pmm (phys (slab_mon s)))"
    by (rule slab_ok_inv(2) [OF ok])
  show sub: "allocs (pmm (phys (slab_mon s))) \<subseteq> allocs (pmm q)"
    by (rule pmm_alloc_sub(2) [OF pi al])
  have pi': "pmm_inv (pmm (phys m))"
    using pa.alloc_ok [OF pi al] m by simp
  have pg: "(x, 0) \<in> allocs (pmm (phys m))" if "x \<in> slab_pages C s" for x
    using sub slab_ok_inv(3) [OF ok that] m by auto
  show "slab_ok C (s\<lparr>slab_mon := m\<rparr>)" "slab_pages C (s\<lparr>slab_mon := m\<rparr>) = slab_pages C s"
    "cache_live C c (s\<lparr>slab_mon := m\<rparr>) = cache_live C c s"
    by (rule slab_ok_mon [OF ok pi'], erule pg)+
  show "p \<noteq> 0 \<Longrightarrow> (p, ord) \<notin> allocs (pmm (phys (slab_mon s))) \<and> (p, ord) \<in> allocs (pmm q)"
    using pa.alloc_new [OF pi al] pa.alloc_block [OF pi al] by auto
qed

lemma new_pml4_mem_phys [simp]: "phys (new_pml4_mem master flags p m) = phys m"
  by (simp add: new_pml4_mem_def)

lemma create_spec:
  assumes inv: "vm_core C S R"
  shows "\<exists>a S'. vm_create_address_space S flags = Some (a, S') \<and> live_regions C S' = live_regions C S \<and>
    vm_regions S' = vm_regions S \<and> (\<forall>b\<in>live_spaces C S. spaces S' b = spaces S b) \<and> master_kernel_pml4 S' = master_kernel_pml4 S \<and>
    (if a = 0 then vm_core C S' R \<and> live_spaces C S' = live_spaces C S
     else a \<notin> live_spaces C S \<and> vm_core C S' (R(a := [])) \<and> live_spaces C S' = insert a (live_spaces C S) \<and>
       spaces S' a = new_space (as_pml4 (spaces S' a)) \<and> (as_pml4 (spaces S' a), 0) \<notin> vm_allocs S)"
proof -
  note D = vm_coreD [OF inv]
  obtain a s where al: "slab_alloc (vm_slab S) (Some ADDRESS_SPACE_CACHE) = Some (a, s)"
    using oc.alloc_returns [of C "vm_slab S" ADDRESS_SPACE_CACHE] D(1,2) by blast
  obtain p q where st: "pmm_alloc (phys (slab_mon s)) 0 = (p, q)"
    by (cases "pmm_alloc (phys (slab_mon s)) 0")
  note A = cache_alloc [OF D(1,2) al]
  note P = page_phase [OF A(1) st]
  have sub: "vm_allocs S \<subseteq> allocs (pmm (phys (slab_mon s)))"
    by (rule slab_alloc_pages(1) [OF D(1,2) al])
  have old: "as_pml4 (spaces S b) \<noteq> 0 \<and> (as_pml4 (spaces S b), 0) \<in> allocs (pmm (phys (slab_mon s))) \<and>
      as_pml4 (spaces S b) \<notin> slab_pages C s" if "b \<in> live_spaces C S" for b
    using D(7) [OF that] sub slab_alloc_slabs(2) [OF D(1,2) al] by (auto simp: pml4_ok_def)
  show ?thesis
  proof (rule create_outcomes [OF al st, of flags])
    assume r: "a = 0" "vm_create_address_space S flags = Some (0, S\<lparr>vm_slab := s\<rparr>)"
    have "vm_core C (S\<lparr>vm_slab := s\<rparr>) R"
      using inv A(1) A(2) [of ADDRESS_SPACE_CACHE] A(2) [of VM_REGION_CACHE] r(1) old by (simp add: vm_core_def pml4_ok_def)
    then show ?thesis
      using r A(2) by simp
  next
    let ?s = "slab_free (s\<lparr>slab_mon := (slab_mon s)\<lparr>phys := q\<rparr>\<rparr>) (Some ADDRESS_SPACE_CACHE) a"
    assume r: "a \<noteq> 0" "p = 0" "vm_create_address_space S flags = Some (0, S\<lparr>spaces := (spaces S)(a := space_zero), vm_slab := ?s\<rparr>)"
    have as: "a \<in> cache_live C ADDRESS_SPACE_CACHE (s\<lparr>slab_mon := (slab_mon s)\<lparr>phys := q\<rparr>\<rparr>)"
      using P(3) [of "(slab_mon s)\<lparr>phys := q\<rparr>"] A(2) r(1) by simp
    note F = cache_release [OF P(1) [of "(slab_mon s)\<lparr>phys := q\<rparr>"] as]
    have l: "cache_live C ADDRESS_SPACE_CACHE ?s = live_spaces C S" "cache_live C VM_REGION_CACHE ?s = live_regions C S"
      using F(2) P(3) [of "(slab_mon s)\<lparr>phys := q\<rparr>"] A(2) A(3) [OF r(1)] by auto
    moreover have "b \<noteq> a" if "b \<in> live_spaces C S" for b
      using A(3) [OF r(1)] that by auto
    ultimately have "vm_core C (S\<lparr>spaces := (spaces S)(a := space_zero), vm_slab := ?s\<rparr>) R"
      using inv F(1,3) P(2) [of "(slab_mon s)\<lparr>phys := q\<rparr>"] P(4) [of "(slab_mon s)\<lparr>phys := q\<rparr>"] old
      by (auto simp: vm_core_def pml4_ok_def inj_on_def)
    then show ?thesis
      using r l A(3) [OF r(1), of ADDRESS_SPACE_CACHE] by auto
  next
    let ?m = "new_pml4_mem (master_kernel_pml4 S) flags p ((slab_mon s)\<lparr>phys := q\<rparr>)"
    let ?S = "S\<lparr>spaces := (spaces S)(a := new_space p), vm_links := list_init (vm_links S) (Regions a), vm_slab := s\<lparr>slab_mon := ?m\<rparr>\<rparr>"
    assume r: "a \<noteq> 0" "p \<noteq> 0" "vm_create_address_space S flags = Some (a, ?S)"
    have l: "live_spaces C ?S = insert a (live_spaces C S)" "live_regions C ?S = live_regions C S"
      using P(3) [of ?m] A(2) r(1) by simp_all
    have na: "a \<notin> live_spaces C S" "(p, 0) \<notin> vm_allocs S"
      using A(3) [OF r(1)] P(5) [of ?m] r(2) sub by auto
    have "p \<notin> slab_pages C s"
      using P(5) [of ?m] r(2) slab_ok_inv(3) [OF A(1)] by auto
    then have pml4: "pml4_ok C ?S b" if "b \<in> insert a (live_spaces C S)" for b
      using that old [of b] na(1) r(2) P(2) [of ?m] P(4,5) [of ?m] by (auto simp: pml4_ok_def new_space_def)
    have "as_pml4 (spaces S b) \<noteq> p" if "b \<in> live_spaces C S" for b
      using D(7) [OF that] na(2) by (auto simp: pml4_ok_def)
    then have inj: "inj_on (\<lambda>a. as_pml4 (spaces ?S a)) (insert a (live_spaces C S))"
      using D(8) na(1) by (auto simp: inj_on_def new_space_def)
    have "rings (list_init (vm_links S) (Regions a)) (insert (Regions a) (Regions ` live_spaces C S)) ((vlist R)(Regions a := []))"
      using na(1) by (intro rings_new_head [OF D(4)]) (auto simp: vm_cells)
    then have "vm_core C ?S (R(a := []))"
      using inv l pml4 inj P(1) [of ?m] vlist_upd [of R a "[]"] D(6) by (simp add: vm_core_def)
    then show ?thesis
      using r(1,3) l na by (auto simp: new_space_def)
  qed
qed

section \<open>Mapping and looking up\<close>

text \<open>The region that \<open>vm_map_region\<close> fills in.\<close>

definition mapped_region :: "u64 \<Rightarrow> u64 \<Rightarrow> u64 \<Rightarrow> u64 \<Rightarrow> vm_region_type_t \<Rightarrow> string option \<Rightarrow> vm_region" where
  "mapped_region start pbase sz flags type name =
     \<lparr>region_type = type, region_start = start, region_end = start + sz, region_phys = pbase, region_flags = flags,
      region_perm = perm_of_flags flags, region_name = vm_region_name name\<rparr>"

definition region_args_ok :: "u64 \<Rightarrow> u64 \<Rightarrow> u64 \<Rightarrow> bool" where
  "region_args_ok start pbase sz \<longleftrightarrow>
     start AND (PAGE_SIZE - 1) = 0 \<and> pbase AND (PAGE_SIZE - 1) = 0 \<and> sz AND (PAGE_SIZE - 1) = 0 \<and> sz \<noteq> 0"

lemma vm_inv_core: "vm_inv C S R \<Longrightarrow> vm_core C S R"
  by (simp add: vm_inv_def)

text \<open>A new region at the end of the list of \<open>a\<close>: the steps shared by mapping and cloning.\<close>

definition put_region :: "u64 \<Rightarrow> u64 \<Rightarrow> vm_region \<Rightarrow> vm_sys \<Rightarrow> vm_sys" where
  "put_region a g x S =
     upd_space a (\<lambda>x. x\<lparr>region_count := region_count x + 1\<rparr>)
       (S\<lparr>vm_regions := (vm_regions S)(g := x), vm_links := list_push_back (vm_links S) (Regions a) (RNode g)\<rparr>)"

lemma put_region_fields [simp]:
  "vm_slab (put_region a g x S) = vm_slab S" "vm_regions (put_region a g x S) = (vm_regions S)(g := x)"
  "spaces (put_region a g x S) = (spaces S)(a := (spaces S a)\<lparr>region_count := region_count (spaces S a) + 1\<rparr>)"
  "vm_links (put_region a g x S) = list_push_back (vm_links S) (Regions a) (RNode g)"
  by (simp_all add: put_region_def upd_space_def)

lemma put_region_inv:
  assumes inv: "vm_inv C S R" and a: "a \<in> live_spaces C S"
    and al: "slab_alloc (vm_slab S) (Some VM_REGION_CACHE) = Some (g, s)" and g: "g \<noteq> 0"
  shows "vm_inv C (put_region a g x (S\<lparr>vm_slab := s\<rparr>)) (R(a := R a @ [g]))"
proof -
  let ?S = "S\<lparr>vm_slab := s\<rparr>"
  note A = region_alloc_step [OF vm_inv_core [OF inv] al]
  have new: "g \<notin> set (R b)" if "b \<in> live_spaces C ?S" for b
    using vm_coreD(6) [OF vm_inv_core [OF inv], of b] A(2,4) g that by auto
  have "vm_core C (?S\<lparr>vm_links := list_push_back (vm_links ?S) (Regions a) (RNode g)\<rparr>) (R(a := R a @ [g]))"
    by (rule region_append_step [OF A(1)]) (use a g A(2,3) new in auto)
  then have "vm_core C (put_region a g x ?S) (R(a := R a @ [g]))"
    by (rule vm_core_cong) simp_all
  then show ?thesis
    using inv A(2) by (simp add: vm_inv_def)
qed

lemma map_region_spec:
  assumes inv: "vm_inv C S R" and a: "a \<in> live_spaces C S" and ok: "region_args_ok start pbase sz"
  shows "\<exists>r S'. vm_map_region S a start pbase sz flags type name = Some (r, S') \<and> live_spaces C S' = live_spaces C S \<and>
    (r = -12 \<and> vm_inv C S' R \<and> live_regions C S' = live_regions C S \<and> vm_regions S' = vm_regions S \<or>
     r = 0 \<and> (\<exists>g. g \<noteq> 0 \<and> g \<notin> live_regions C S \<and> live_regions C S' = insert g (live_regions C S) \<and>
       vm_inv C S' (R(a := R a @ [g])) \<and> vm_regions S' = (vm_regions S)(g := mapped_region start pbase sz flags type name)))"
proof -
  note D = vm_coreD [OF vm_inv_core [OF inv]]
  obtain g s where al: "slab_alloc (vm_slab S) (Some VM_REGION_CACHE) = Some (g, s)"
    using oc.alloc_returns [of C "vm_slab S" VM_REGION_CACHE] D(1,3) by blast
  note A = region_alloc_step [OF vm_inv_core [OF inv] al]
  show ?thesis
  proof (cases "g = 0")
    case True
    then have "vm_map_region S a start pbase sz flags type name = Some (-12, S\<lparr>vm_slab := s\<rparr>)"
      using ok al by (simp add: vm_map_region_def region_args_ok_def)
    moreover have "vm_inv C (S\<lparr>vm_slab := s\<rparr>) R"
      using A(1,2) inv by (simp add: vm_inv_def)
    ultimately show ?thesis
      using A(2,3) True by simp
  next
    case False
    let ?S = "put_region a g (mapped_region start pbase sz flags type name) (S\<lparr>vm_slab := s\<rparr>)"
    have "vm_map_region S a start pbase sz flags type name = Some (0, ?S)"
      using ok al False by (simp add: vm_map_region_def region_args_ok_def put_region_def mapped_region_def upd_space_def)
    then show ?thesis
      using put_region_inv [OF inv a al False, of "mapped_region start pbase sz flags type name"] A(2-4) False by auto
  qed
qed

lemma find_RNode: "find P (map RNode xs) = map_option RNode (find (\<lambda>r. P (RNode r)) xs)"
  by (induction xs) auto

lemma find_snoc: "find P xs = None \<Longrightarrow> P x \<Longrightarrow> find P (xs @ [x]) = Some x"
  by (induction xs) (auto split: if_splits)

lemma find_region_spec:
  assumes "vm_core C S R" "a \<in> live_spaces C S"
  shows "vm_find_region S a addr = Some (case find (in_region S addr) (R a) of None \<Rightarrow> 0 | Some r \<Rightarrow> r)"
  using ring_find [OF vm_ring(1) [OF assms]]
  by (simp add: vm_find_region_def find_RNode option.map_comp comp_def split: option.split)

text \<open>A region that ends where the range does, starting where it starts.\<close>

definition exactly :: "vm_sys \<Rightarrow> u64 \<Rightarrow> u64 \<Rightarrow> u64 \<Rightarrow> bool" where
  "exactly S start sz r \<longleftrightarrow> region_start (vm_regions S r) = start \<and> region_end (vm_regions S r) = start + sz"

lemma unmap_region_spec:
  assumes inv: "vm_inv C S R" and a: "a \<in> live_spaces C S"
    and ok: "start AND (PAGE_SIZE - 1) = 0" "sz AND (PAGE_SIZE - 1) = 0"
  shows "case find (exactly S start sz) (R a) of
      None \<Rightarrow> vm_unmap_region S a start sz = Some (-2, S)
    | Some g \<Rightarrow> \<exists>S'. vm_unmap_region S a start sz = Some (0, S') \<and> vm_inv C S' (R(a := remove1 g (R a))) \<and>
        live_spaces C S' = live_spaces C S \<and> live_regions C S' = live_regions C S - {g} \<and> vm_regions S' = vm_regions S"
proof -
  note core = vm_inv_core [OF inv]
  have nz: "a \<noteq> 0"
    by (rule vm_coreD(9) [OF core a])
  have f: "list_find (vm_links S) (Regions a) (\<lambda>pos. region_start (vm_regions S (region_entry pos)) = start \<and>
      region_end (vm_regions S (region_entry pos)) = start + sz) = Some (map_option RNode (find (exactly S start sz) (R a)))"
    using ring_find [OF vm_ring(1) [OF core a]] by (simp add: find_RNode exactly_def [abs_def])
  show ?thesis
  proof (cases "find (exactly S start sz) (R a)")
    case None
    then show ?thesis
      using nz ok f by (simp add: vm_unmap_region_def)
  next
    case (Some g)
    then have g: "g \<in> set (R a)"
      by (auto simp: find_Some_iff)
    let ?T = "S\<lparr>vm_links := list_remove (vm_links S) (RNode g), vm_slab := slab_free (vm_slab S) (Some VM_REGION_CACHE) g\<rparr>"
    let ?S = "upd_space a (\<lambda>x. x\<lparr>region_count := region_count x - 1\<rparr>) ?T"
    note T = region_remove_step [OF core a g refl]
    have "vm_core C ?S (R(a := remove1 g (R a)))"
      by (rule vm_core_cong [OF T(1)]) (simp_all add: upd_space_def)
    moreover have "region_count (spaces ?S b) = int (length ((R(a := remove1 g (R a))) b))" if "b \<in> live_spaces C S" for b
      using inv that g by (cases "b = a") (auto simp: vm_inv_def upd_space_def length_remove1 of_nat_diff Suc_le_eq dest: length_pos_if_in_set)
    ultimately have "vm_inv C ?S (R(a := remove1 g (R a)))"
      using T(2) by (simp add: vm_inv_def upd_space_def)
    then show ?thesis
      using Some nz ok f T(2,3) by (simp add: vm_unmap_region_def upd_space_def)
  qed
qed

section \<open>Cloning\<close>

text \<open>What the loop has done when the regions \<open>rest\<close> of the source are left, either way it ends.\<close>

definition cloned :: "nat set \<Rightarrow> u64 \<Rightarrow> u64 list \<Rightarrow> vm_sys \<Rightarrow> (u64 \<Rightarrow> u64 list) \<Rightarrow> u64 \<Rightarrow> vm_sys \<Rightarrow> bool" where
  "cloned C a rest S R x S' \<longleftrightarrow>
     (\<forall>b\<in>live_spaces C S - {a}. spaces S' b = spaces S b) \<and> (\<forall>r\<in>live_regions C S. vm_regions S' r = vm_regions S r) \<and>
     (if x = 0 then vm_inv C S' (R(a := [])) \<and> live_spaces C S' = live_spaces C S - {a} \<and>
        live_regions C S' = live_regions C S - set (R a)
      else x = a \<and> (\<exists>gs. vm_inv C S' (R(a := R a @ gs)) \<and> live_spaces C S' = live_spaces C S \<and>
        set gs \<inter> live_regions C S = {} \<and> live_regions C S' = live_regions C S \<union> set gs \<and>
        map (vm_regions S') gs = map (vm_regions S) rest) \<and>
        as_brk (spaces S' a) = as_brk (spaces S a) \<and> as_start_brk (spaces S' a) = as_start_brk (spaces S a) \<and>
        as_pml4 (spaces S' a) = as_pml4 (spaces S a))"

lemma destroy_inv:
  assumes inv: "vm_inv C S R" and a: "a \<in> live_spaces C S"
  shows "\<exists>S'. vm_destroy_address_space S a = Some S' \<and> vm_inv C S' (R(a := [])) \<and>
    live_spaces C S' = live_spaces C S - {a} \<and> live_regions C S' = live_regions C S - set (R a) \<and>
    vm_allocs S' = vm_allocs S - {(as_pml4 (spaces S a), 0)} \<and> spaces S' = spaces S \<and> vm_regions S' = vm_regions S"
  using destroy_spec [OF vm_inv_core [OF inv] a] inv by (auto simp: vm_inv_def)

lemma cloned_step:
  assumes c: "cloned C a rest T (R(a := R a @ [g])) x S'"
    and T: "live_spaces C T = live_spaces C S" "live_regions C T = insert g (live_regions C S)"
    and g: "g \<notin> live_regions C S" and r: "set (r # rest) \<subseteq> live_regions C S"
    and f: "vm_regions T = (vm_regions S)(g := vm_regions S r)" "\<And>b. b \<noteq> a \<Longrightarrow> spaces T b = spaces S b"
      "as_brk (spaces T a) = as_brk (spaces S a)" "as_start_brk (spaces T a) = as_start_brk (spaces S a)"
      "as_pml4 (spaces T a) = as_pml4 (spaces S a)"
  shows "cloned C a (r # rest) S R x S'"
proof -
  have old: "\<forall>b\<in>live_spaces C S - {a}. spaces S' b = spaces S b" "\<forall>q\<in>live_regions C S. vm_regions S' q = vm_regions S q"
      "vm_regions S' g = vm_regions S r"
    using c T f(1,2) g by (auto simp: cloned_def)
  show ?thesis
  proof (cases "x = 0")
    case True
    have "insert g (live_regions C S) - set (R a @ [g]) = live_regions C S - set (R a)"
      using g by auto
    then show ?thesis
      using True c T old by (simp add: cloned_def)
  next
    case False
    then obtain gs where gs: "vm_inv C S' (R(a := (R a @ [g]) @ gs))" "live_spaces C S' = live_spaces C S"
        "set gs \<inter> insert g (live_regions C S) = {}" "live_regions C S' = insert g (live_regions C S) \<union> set gs"
        "map (vm_regions S') gs = map (vm_regions T) rest"
      using c T by (auto simp: cloned_def)
    have "map (vm_regions T) rest = map (vm_regions S) rest"
      using r g f(1) by auto
    then have "\<exists>gs. vm_inv C S' (R(a := R a @ gs)) \<and> live_spaces C S' = live_spaces C S \<and> set gs \<inter> live_regions C S = {} \<and>
        live_regions C S' = live_regions C S \<union> set gs \<and> map (vm_regions S') gs = map (vm_regions S) (r # rest)"
      using gs g old(3) by (intro exI [of _ "g # gs"]) auto
    then show ?thesis
      using False c f(3-5) old(1,2) by (simp add: cloned_def)
  qed
qed

lemma clone_regions_spec:
  assumes "vm_inv C S R" "a \<in> live_spaces C S" "src \<in> live_spaces C S" "a \<noteq> src" "R src = before @ rest"
  shows "\<exists>x S'. clone_regions (Regions src) a (hd (map RNode rest @ [Regions src])) S = Some (x, S') \<and> cloned C a rest S R x S'"
  using assms
proof (induction rest arbitrary: S R before)
  case Nil
  have "R(a := R a @ []) = R"
    by simp
  with Nil show ?case
    using vm_coreD(9) [OF vm_inv_core [OF Nil.prems(1)] Nil.prems(2)]
    by (auto simp: clone_regions.simps [of "Regions src"] cloned_def intro!: exI [of _ "[]"])
next
  case (Cons r rest)
  note core = vm_inv_core [OF Cons.prems(1)]
  note D = vm_coreD [OF core]
  obtain g s where al: "slab_alloc (vm_slab S) (Some VM_REGION_CACHE) = Some (g, s)"
    using oc.alloc_returns [of C "vm_slab S" VM_REGION_CACHE] D(1,3) by blast
  note A = region_alloc_step [OF core al]
  have rl: "set (r # rest) \<subseteq> live_regions C S"
    using D(6) [OF Cons.prems(3)] Cons.prems(5) by auto
  show ?case
  proof (cases "g = 0")
    case True
    have "vm_inv C (S\<lparr>vm_slab := s\<rparr>) R"
      using A(1,2) Cons.prems(1) by (simp add: vm_inv_def)
    from destroy_inv [OF this, of a] obtain S' where S': "vm_destroy_address_space (S\<lparr>vm_slab := s\<rparr>) a = Some S'" "vm_inv C S' (R(a := []))"
        "live_spaces C S' = live_spaces C S - {a}" "live_regions C S' = live_regions C S - set (R a)"
        "spaces S' = spaces S" "vm_regions S' = vm_regions S"
      using A(2,3) Cons.prems(2) True by auto
    have "clone_regions (Regions src) a (RNode r) S = Some (0, S')"
      using True al S'(1) by (simp add: clone_regions.simps [of "Regions src" a "RNode r"])
    then show ?thesis
      using S'(2-6) by (simp add: cloned_def)
  next
    case False
    let ?T = "put_region a g (vm_regions S r) (S\<lparr>vm_slab := s\<rparr>)" and ?R = "R(a := R a @ [g])"
    have T: "vm_inv C ?T ?R" "live_spaces C ?T = live_spaces C S" "live_regions C ?T = insert g (live_regions C S)"
      using put_region_inv [OF Cons.prems(1,2) al False] A(2,3) False by auto
    have gn: "g \<notin> live_regions C S"
      using A(4) False by simp
    have n: "nxt (vm_links ?T) (RNode r) = hd (map RNode rest @ [Regions src])"
      using ring_next_cell [of "vm_links ?T" "Regions src" "map RNode before" "RNode r" "map RNode rest"]
        vm_ring(1) [OF vm_inv_core [OF T(1)], of src] T(2) Cons.prems(3-5) by simp
    have R: "?R src = (before @ [r]) @ rest"
      using Cons.prems(4,5) by simp
    obtain x S' where S': "clone_regions (Regions src) a (hd (map RNode rest @ [Regions src])) ?T = Some (x, S')"
        "cloned C a rest ?T ?R x S'"
      using Cons.IH [OF T(1) _ _ Cons.prems(4) R] T(2) Cons.prems(2,3) by blast
    have "clone_regions (Regions src) a (RNode r) S = Some (x, S')"
      using False al S'(1) n
      by (simp add: clone_regions.simps [of "Regions src" a "RNode r"] put_region_def upd_space_def)
    moreover have "cloned C a (r # rest) S R x S'"
      by (rule cloned_step [OF S'(2) T(2,3) gn rl]) simp_all
    ultimately show ?thesis
      by auto
  qed
qed

lemma vm_inv_cong:
  assumes "vm_inv C S R" "\<And>a. a \<in> live_spaces C S \<Longrightarrow> R' a = R a"
  shows "vm_inv C S R'"
proof -
  have "vlist R' p = vlist R p" if "p \<in> Regions ` live_spaces C S" for p
    using assms(2) that by auto
  then have "rings (vm_links S) (Regions ` live_spaces C S) (vlist R')"
    using assms(1) by (simp add: vm_inv_def vm_core_def rings_def cells_def)
  then show ?thesis
    using assms by (simp add: vm_inv_def vm_core_def)
qed

lemma vm_inv_spaces:
  assumes "vm_inv C S R" "\<And>b. b \<in> live_spaces C S \<Longrightarrow> as_pml4 (x b) = as_pml4 (spaces S b) \<and> region_count (x b) = region_count (spaces S b)"
  shows "vm_inv C (S\<lparr>spaces := x\<rparr>) R"
  using assms vm_core_cong [of C S R "S\<lparr>spaces := x\<rparr>"] by (auto simp: vm_inv_def)

section \<open>Correctness\<close>

lemma mapped_roundtrip:
  assumes inv: "vm_inv C S R" and a: "a \<in> live_spaces C S"
    and old: "find (exactly S start sz) (R a) = None" "find (in_region S addr) (R a) = None" "start \<le> addr" "addr < start + sz"
    and ok: "region_args_ok start pbase sz" and l: "live_spaces C S' = live_spaces C S"
    and g: "g \<notin> live_regions C S" "live_regions C S' = insert g (live_regions C S)" "vm_inv C S' (R(a := R a @ [g]))"
      "vm_regions S' = (vm_regions S)(g := mapped_region start pbase sz flags type name)"
  shows "vm_find_region S' a addr = Some g \<and>
    (\<exists>S''. vm_unmap_region S' a start sz = Some (0, S'') \<and> vm_inv C S'' R \<and> live_regions C S'' = live_regions C S)"
proof -
  have ng: "g \<notin> set (R a)"
    using vm_coreD(6) [OF vm_inv_core [OF inv] a] g(1) by auto
  have none: "find (in_region S' addr) (R a) = None" "find (exactly S' start sz) (R a) = None"
    using old(1,2) ng by (auto simp: find_None_iff g(4) in_region_def exactly_def)
  have "in_region S' addr g" "exactly S' start sz g"
    using old(3,4) by (simp_all add: g(4) in_region_def exactly_def mapped_region_def)
  then have f: "find (in_region S' addr) (R a @ [g]) = Some g" "find (exactly S' start sz) (R a @ [g]) = Some g"
    using none by (simp_all add: find_snoc)
  have "vm_find_region S' a addr = Some g"
    using find_region_spec [OF vm_inv_core [OF g(3)], of a addr] l a f(1) by simp
  moreover have "remove1 g (R a @ [g]) = R a"
    using ng by (simp add: remove1_append)
  ultimately show ?thesis
    using unmap_region_spec [OF g(3), of a start sz] l a f(2) ok g(1,2) by (auto simp: region_args_ok_def)
qed


text \<open>The new address space of a clone before its regions are copied.\<close>

definition copy_heap :: "u64 \<Rightarrow> u64 \<Rightarrow> vm_sys \<Rightarrow> vm_sys" where
  "copy_heap src a S =
     upd_space a (\<lambda>x. x\<lparr>as_start_brk := as_start_brk (spaces S src), as_brk := as_brk (spaces S src)\<rparr>) S"

lemma copy_heap_fields [simp]:
  "vm_slab (copy_heap src a S) = vm_slab S" "vm_links (copy_heap src a S) = vm_links S" "vm_regions (copy_heap src a S) = vm_regions S"
  "spaces (copy_heap src a S) =
     (spaces S)(a := (spaces S a)\<lparr>as_start_brk := as_start_brk (spaces S src), as_brk := as_brk (spaces S src)\<rparr>)"
  by (simp_all add: copy_heap_def upd_space_def)

lemma copy_heap_inv:
  assumes "vm_inv C S R" and "src \<in> live_spaces C S" and "a \<notin> live_spaces C S" and "vm_core C T (R(a := []))"
    and "\<forall>b\<in>live_spaces C S. spaces T b = spaces S b" and "live_spaces C T = insert a (live_spaces C S)"
    and "spaces T a = new_space (as_pml4 (spaces T a))"
  shows "vm_inv C (copy_heap src a T) (R(a := []))" "a \<noteq> src"
    "nxt (vm_links (copy_heap src a T)) (Regions src) = hd (map RNode (R src) @ [Regions src])"
proof -
  show ne: "a \<noteq> src"
    using assms(2,3) by auto
  have "vm_inv C T (R(a := []))"
    using assms by (auto simp: vm_inv_def new_space_def dest: arg_cong [of _ _ region_count])
  then have "vm_inv C (T\<lparr>spaces := spaces (copy_heap src a T)\<rparr>) (R(a := []))"
    by (rule vm_inv_spaces) simp
  then show inv: "vm_inv C (copy_heap src a T) (R(a := []))"
    by (simp add: copy_heap_def upd_space_def)
  have "ring (vm_links T) (Regions src) (map RNode (R src))"
    using vm_ring(1) [OF vm_inv_core [OF inv], of src] assms(2,6) ne by simp
  from ring_next_head [OF this] show "nxt (vm_links (copy_heap src a T)) (Regions src) = hd (map RNode (R src) @ [Regions src])"
    by simp
qed



section \<open>Initialisation and an example\<close>

text \<open>\<open>vm_init\<close> never gets a cache for regions: 96 is not a power of two.\<close>

lemma vm_init_refused:
  "fst (slab_cache_create (vm_slab (vm_init t S)) (Some VM_REGION_CACHE) 96) = -1 \<and>
   caches (vm_slab (vm_init t S)) VM_REGION_CACHE = caches (vm_slab S) VM_REGION_CACHE"
  by (simp add: vm_init_def slab_cache_create_def Let_def)

lemma slab_zero_caches:
  assumes "slab_links s = slab_links slab_zero" "slab_mon s = mon_example" "\<And>c. c \<in> C \<Longrightarrow> good_size (object_size (caches s c))"
  shows "slab_ok C s" "slab_live C s = {}"
proof -
  have "slab_core C s (\<lambda>_. []) {}"
    using assms mon_example_wf slab_zero_rings by (simp add: slab_core_def mon_wf_def)
  then have inv: "slab_inv C s (\<lambda>_. []) {}"
    by (simp add: slab_inv_def lists_inv_def)
  show "slab_ok C s" "slab_live C s = {}"
    using slab_inv_ok [OF inv] by (simp_all add: live_objs_def)
qed

text \<open>The state in which the cache for regions has objects of 128 bytes, the next size that the slab
  allocator accepts, and one address space.\<close>

definition vm_zero :: vm_sys where
  "vm_zero =
     \<lparr>vm_slab = snd (slab_cache_create (snd (slab_cache_create slab_zero (Some ADDRESS_SPACE_CACHE) 64)) (Some VM_REGION_CACHE) 128),
      vm_links = \<lparr>nxt = (\<lambda>x. x), prv = (\<lambda>x. x)\<rparr>, spaces = (\<lambda>_. space_zero),
      vm_regions = (\<lambda>_. mapped_region 0 0 0 0 VM_REGION_NONE None), master_kernel_pml4 = 0x400000\<rparr>"

definition vm_example :: vm_sys where
  "vm_example = snd (the (vm_create_address_space vm_zero AS_SHARE_KERNEL))"

definition vm_example_space :: u64 where
  "vm_example_space = fst (the (vm_create_address_space vm_zero AS_SHARE_KERNEL))"

lemma vm_zero_facts:
  "vm_inv {9, 10} vm_zero (\<lambda>_. [])" "live_spaces {9, 10} vm_zero = {}" "phys (vm_mon vm_zero) = phys_example"
proof -
  let ?s = "vm_slab vm_zero"
  have l: "slab_links ?s = slab_links slab_zero"
    by (simp add: vm_zero_def slab_cache_create_def Let_def list_init_zero)
  have m: "slab_mon ?s = mon_example" "object_size (caches ?s 9) = 64" "object_size (caches ?s 10) = 128"
    by (simp_all add: vm_zero_def slab_cache_create_def Let_def slab_zero_def)
  have "good_size (object_size (caches ?s c))" if "c \<in> {9, 10}" for c
    using that m(2,3) by (auto simp: good_size_def)
  note ok = slab_zero_caches [OF l m(1), of "{9, 10}", OF this]
  then show e: "live_spaces {9, 10} vm_zero = {}"
    by (simp add: cache_live_def)
  show "phys (vm_mon vm_zero) = phys_example"
    using m(1) by (simp add: mon_example_def)
  show "vm_inv {9, 10} vm_zero (\<lambda>_. [])"
    using ok(1) e by (simp add: vm_inv_def vm_core_def rings_def)
qed

lemma vm_example_facts:
  "vm_create_address_space vm_zero AS_SHARE_KERNEL = Some (vm_example_space, vm_example)"
  "vm_inv {9, 10} vm_example (\<lambda>_. [])" "vm_example_space \<in> live_spaces {9, 10} vm_example"
proof -
  note Z = vm_zero_facts
  note core = vm_inv_core [OF Z(1)]
  obtain a s where al: "slab_alloc (vm_slab vm_zero) (Some ADDRESS_SPACE_CACHE) = Some (a, s)"
    using oc.alloc_returns [of "{9, 10}" "vm_slab vm_zero" ADDRESS_SPACE_CACHE] vm_coreD(1) [OF core] by auto
  obtain p q where st: "pmm_alloc (phys (slab_mon s)) 0 = (p, q)"
    by (cases "pmm_alloc (phys (slab_mon s)) 0")
  have nz: "a \<noteq> 0" "p \<noteq> 0"
    using slab_alloc_example [OF vm_coreD(1) [OF core] _ Z(3) al] st by simp_all
  obtain x S where S: "vm_create_address_space vm_zero AS_SHARE_KERNEL = Some (x, S)"
      "if x = 0 then vm_core {9, 10} S (\<lambda>_. []) \<and> live_spaces {9, 10} S = live_spaces {9, 10} vm_zero
       else x \<notin> live_spaces {9, 10} vm_zero \<and> vm_core {9, 10} S ((\<lambda>_. [])(x := [])) \<and>
         live_spaces {9, 10} S = insert x (live_spaces {9, 10} vm_zero) \<and> spaces S x = new_space (as_pml4 (spaces S x)) \<and>
         (as_pml4 (spaces S x), 0) \<notin> vm_allocs vm_zero"
    using create_spec [OF core, of AS_SHARE_KERNEL] by (elim exE conjE) (rule that)
  have "x \<noteq> 0"
    by (rule create_outcomes [OF al st, of AS_SHARE_KERNEL]) (use nz S(1) in auto)
  moreover show c: "vm_create_address_space vm_zero AS_SHARE_KERNEL = Some (vm_example_space, vm_example)"
    by (simp add: vm_example_def vm_example_space_def S(1))
  ultimately have e: "vm_core {9, 10} vm_example (\<lambda>_. [])" "live_spaces {9, 10} vm_example = {vm_example_space}"
      "spaces vm_example vm_example_space = new_space (as_pml4 (spaces vm_example vm_example_space))"
    using S Z(2) by (auto simp: fun_upd_idem)
  have "region_count (spaces vm_example vm_example_space) = 0"
    by (subst e(3)) (simp add: new_space_def)
  then show "vm_inv {9, 10} vm_example (\<lambda>_. [])" "vm_example_space \<in> live_spaces {9, 10} vm_example"
    using e(1,2) by (simp_all add: vm_inv_def)
qed




end
