(* ===== verification/Spec2Isabelle.thy ===== *)
theory Spec2Isabelle
  imports Monitor_Props Minilibc Spinlock Scheduler Kmap_Pages Device_Props Multiboot_Props Klog Uaccess Vm_Props
begin

text \<open>
  Verification of the Emergence kernel, a small x86-64 kernel with a nested kernel inside it: a
  monitor that owns the page tables and the types of all pages, and an outer kernel that asks it
  for memory and mappings.

  \<^bold>\<open>The program.\<close> \<^verbatim>\<open>kernel_main\<close> (\<^verbatim>\<open>src/arch/x86_64/main.c\<close>) reads the boot information, fills the buddy
  allocator of pages (\<^verbatim>\<open>src/kernel/pmm.c\<close>), builds the table of page types (\<^verbatim>\<open>src/kernel/pcd.c\<close>) and the
  two views of the page tables (\<^verbatim>\<open>src/kernel/monitor/monitor.c\<close>), and starts the services of the outer
  kernel: a slab allocator on pages of the monitor, threads and a scheduler on the slab and page
  allocators, kernel mappings with demand paging, a device framework with a serial port, a log,
  address spaces for processes, and access to user memory.

  \<^bold>\<open>How code becomes definitions.\<close> A struct is a record, an enum a datatype, a machine integer a
  word of its width, and a C \<open>int\<close> used as a count or code an integer, since its overflow is
  undefined. Structures that live in memory are found by their address; address 0 is the null
  pointer. Intrusive lists are a store of next and prev fields on which every operation performs
  its assignments in the order of the source, so that a call with exchanged arguments means what
  it means in C. A function that can loop for ever has an option result, with \<open>None\<close> for a call
  that does not return, and the theorems about it show that it does return. An operation under a
  lock is one step, except in \<^verbatim>\<open>Spinlock\<close>, where the lock protocols themselves interleave. Log
  output inside operations is left out; the log has a theory of its own.

  \<^bold>\<open>The theories.\<close>

  \<^item> \<^verbatim>\<open>EK_Prelude\<close>: words, alignment and page arithmetic, and the collections \<open>ek_word\<close> and \<open>ek_upd\<close>.

  \<^item> \<^verbatim>\<open>List_Head\<close> (\<^verbatim>\<open>kernel/list.h\<close>): the operations on list cells; families of disjoint rings, and the
    interface \<open>disjoint_lists\<close>, which they implement.

  \<^item> \<^verbatim>\<open>Pcd\<close> (\<^verbatim>\<open>kernel/pcd.c\<close>): the page type table.

  \<^item> \<^verbatim>\<open>Pmm\<close>, \<^verbatim>\<open>Pmm_Inv\<close>, \<^verbatim>\<open>Pmm_Alloc\<close>, \<^verbatim>\<open>Pmm_Free\<close>, \<^verbatim>\<open>Pmm_Region\<close>, \<^verbatim>\<open>Pmm_Reserve\<close>, \<^verbatim>\<open>Pmm_Props\<close>
    (\<^verbatim>\<open>kernel/pmm.c\<close>): the buddy allocator at the level of its block descriptors and free lists; its
    invariant; allocation with splitting, freeing with coalescing, adding and reserving regions;
    the interface \<open>page_allocator\<close>; and what every reachable state guarantees.

  \<^item> \<^verbatim>\<open>Multiboot\<close>, \<^verbatim>\<open>Multiboot_Props\<close> (\<^verbatim>\<open>arch/x86_64/multiboot2.c\<close>, \<open>pmm_init\<close>, \<open>pcd_init\<close>): the boot tags in a
    byte memory, the memory map, the command line, and the initialised allocator and type table.

  \<^item> \<^verbatim>\<open>Monitor\<close>, \<^verbatim>\<open>Monitor_Props\<close> (\<^verbatim>\<open>kernel/monitor/monitor.c\<close>, \<^verbatim>\<open>arch/x86_64/monitor/monitor_call.S\<close>): the two
    views, every monitor call, the CR0.WP trampoline, page mapping and write protection.

  \<^item> \<^verbatim>\<open>Minilibc\<close> (\<^verbatim>\<open>lib/minilibc\<close>): string functions over a byte memory and the formatter, which is
    shown equal to a plain rendering of its format.

  \<^item> \<^verbatim>\<open>Spinlock\<close> (\<^verbatim>\<open>include/atomic.h\<close>, \<^verbatim>\<open>include/spinlock.h\<close>, \<^verbatim>\<open>arch/x86_64/spinlock_arch.h\<close>, \<^verbatim>\<open>arch/x86_64/idt.h\<close>):
    atomic operations, nested interrupt control, and the lock protocols as step relations.

  \<^item> \<^verbatim>\<open>Slab\<close>, \<^verbatim>\<open>Slab_Props\<close>, \<^verbatim>\<open>Object_Cache\<close> (\<^verbatim>\<open>kernel/slab.c\<close>): the slab allocator at pointer level, and the
    interface \<open>object_cache\<close> its clients rely on.

  \<^item> \<^verbatim>\<open>Context\<close>, \<^verbatim>\<open>Thread\<close>, \<^verbatim>\<open>Scheduler\<close> (\<^verbatim>\<open>arch/x86_64/context.S\<close>, \<^verbatim>\<open>kernel/thread.c\<close>, \<^verbatim>\<open>kernel/scheduler.c\<close>):
    the instructions of the context switch, threads with their stacks, and the run queue.

  \<^item> \<^verbatim>\<open>Kmap\<close>, \<^verbatim>\<open>Kmap_Props\<close>, \<^verbatim>\<open>Kmap_Pages\<close> (\<^verbatim>\<open>kernel/kmap.c\<close>): the list of kernel mappings, the page table
    walks with their rollback, and the page fault handler.

  \<^item> \<^verbatim>\<open>Device\<close>, \<^verbatim>\<open>Device_Props\<close> (\<^verbatim>\<open>kernel/device.c\<close>, \<^verbatim>\<open>arch/x86_64/ipi.c\<close>): the registries, probing, and
    initialisation in order of priority; the interface \<open>device_callbacks\<close> of a driver.

  \<^item> \<^verbatim>\<open>Serial\<close>, \<^verbatim>\<open>Klog\<close> (\<^verbatim>\<open>arch/x86_64/serial_driver.c\<close>, \<^verbatim>\<open>kernel/klog.c\<close>): output on the serial port and the
    kernel log on it.

  \<^item> \<^verbatim>\<open>Vm\<close>, \<^verbatim>\<open>Vm_Props\<close> (\<^verbatim>\<open>kernel/vm.c\<close>): address spaces with their lists of regions and their page
    tables, which mapping, unmapping, cloning and destroying act on as on lists.

  \<^item> \<^verbatim>\<open>Uaccess\<close> (\<^verbatim>\<open>arch/x86_64/uaccess.c\<close>): the check of user pointers and the copies.

  \<^bold>\<open>What is shown.\<close> The allocators keep their invariants in every reachable state: blocks handed
  out are disjoint and aligned, freeing gives back exactly what was allocated, objects of a cache
  do not overlap. The main operations of each part have their functional behaviour on success and
  on failure, and creation of threads, mappings' pages and address spaces gives back what it took
  when it fails. Loops end: reserving regions, parsing the boot tags, walks along lists.
  The spin lock gives mutual exclusion in every interleaving. The formatter, the log line and the
  hexadecimal output equal their reference texts. Where the code does not do what it is meant to
  do, the theorem states what it does: the run queue holds at most one thread, \<open>thread_yield\<close> does
  not switch, a page type can be changed by an unprivileged caller.

  \<^bold>\<open>Bounds.\<close> Addresses are 64-bit words, and the facts about regions ask that a region does not wrap
  around. Blocks have orders up to 9, the search for a buddy visits at most 1000 list cells as in
  the source, and the descriptor table has the size the source gives it; the theorems on freeing
  and adding say what happens when it is full. Slab theorems hold for objects of 32 to 1024 bytes;
  the caches of 2048 and 4096 bytes do not work. The theorems on address spaces suppose caches for both structures; \<open>vm_init\<close> as it is
  written gets none for regions (\<open>vm_init_refused\<close>) and is not called, so their example state has a
  cache of the next size accepted. No operation uses fuel.

  \<^bold>\<open>Not modelled.\<close> Boot code in assembly, descriptor tables and interrupt stubs, the local APIC, the start
  of other processors, timers, screen and power control act through processor and device registers
  whose effect is not in the source. Processes (\<^verbatim>\<open>kernel/process.c\<close>) and the system calls built on them are
  left out: the structure of a process does not fit into the objects of its cache, so that its
  fields overlap with other objects. The sequence of initialisation calls in \<^verbatim>\<open>main.c\<close> is modelled
  part by part. The test framework and the tests run the kernel's own checks. Memory orders and
  barriers have no counterpart in the sequentially consistent model.
\<close>

end
